(* ===== verification/Prelude.thy ===== *)
theory Prelude
  imports Main "HOL-Library.Word"
begin

text \<open>
  Shared ground of the development: the machine types of the engine, the C++ exceptions as
  values, operations that change a state and may throw, and the list facts the byte formats
  need.

  An operation of the C++ code that mutates an object of type \<open>'s\<close>, may throw, and returns
  an \<open>'a\<close> is a function \<open>'s \<Rightarrow> (error + 'a) \<times> 's\<close>. A throw keeps the mutations that were made
  before it, as a C++ exception does. The combinators below compose such operations;
  \<open>wp m Q E s\<close> says that \<open>m\<close>, started in \<open>s\<close>, either returns a value and a state
  satisfying \<open>Q\<close> or throws an error in a state satisfying \<open>E\<close>. Every operation is a total
  function, so \<open>wp\<close> is an exact description of a run, and the collection \<open>wp_simps\<close> computes it.
\<close>

section \<open>Machine types\<close>

type_synonym byte = "8 word"
type_synonym uint16 = "16 word"
type_synonym uint32 = "32 word"
type_synonym uint64 = "64 word"
type_synonym PageId = uint64
type_synonym TransactionId = uint64
type_synonym FrameId = nat

section \<open>Exceptions\<close>

text \<open>
  One datatype per exception class of the sources, one constructor per \<^verbatim>\<open>throw\<close> statement
  (or group of statements with the same message).
\<close>

datatype storage_error =
    Cannot_inspect_database | Cannot_create_database | Cannot_determine_size | Not_page_aligned
  | Cannot_open_database | Legacy_or_corrupt_catalog | Invalid_catalog_bounds | Invalid_catalog_count
  | Invalid_page_id | Offset_not_representable | Beyond_allocated_file | Logically_unallocated
  | Stream_not_good | Catalog_capacity_exhausted | Invalid_recovery_page_id | Recovery_page_exists
  | Recovery_physical_gap | Unexpected_materialized_id | Short_recovery_read
  | Invalid_physical_recovery_page | Already_allocated | Short_read | Unsupported_page_format
  | Header_identifier_mismatch | Write_target_mismatch | Cannot_fetch_unallocated
  | Invalid_recovery_allocation_id | Recovery_allocation_gap | Invalid_undo_allocation_id

datatype wal_error =
    Lsn_must_be_nonzero | Invalid_record_type | Payload_too_large | Truncated_record | Invalid_magic
  | Unsupported_wal_version | Invalid_header_length | Invalid_record_length | Invalid_payload_length
  | Invalid_checksum | Invalid_lsn | Invalid_mutation_page_id | Invalid_image_size
  | Truncated_mutation | Invalid_image_lengths | Invalid_mutation_kind
  | Invalid_allocation_page_id | Invalid_allocation_payload | Cannot_create_wal | Cannot_inspect_wal
  | Cannot_open_wal | Cannot_read_wal | Cannot_determine_wal_size | Cannot_discard_tail
  | Cannot_reopen_wal | Cannot_seek_append | Append_failed | Forced_flush_failure | Flush_failed
  | Non_monotonic_lsn | Unlogged_mutations | Unresolved_mutations | Terminal_record_has_payload
  | Conflicting_terminal_records

datatype logic_error =
    Write_blocked_pending | Pending_requires_pinned | Page_not_resident | No_pending_mutation
  | Restore_before_resolve | Duplicate_page_table_entry | Finish_without_watch
  | Finish_while_pinned | Unfinished_capture | Span_buffer_pools | Zero_lsn_logged
  | Nothing_to_finalize | Invalid_undo_resolution | Already_resolved | Reverse_order_required
  | Abort_unfinished_capture | No_buffer_pool | Commit_unfinalized | Abort_unresolved
  | Redo_inactive | Replay_inactive | Undo_inactive | Reconstruction_inactive | Materialize_resident
  | Impossible_undo_transition | Release_pinned_undo | No_transaction_analysis | Missing_allocation
  | Missing_mutation | Mutation_without_transaction | Invalid_node_write | Parent_missing_child
  | Parent_missing_child_update

datatype runtime_error =
    Cannot_fetch_mutation_page | Cannot_unpin_mutation_page | Cannot_fetch_replay_page
  | Cannot_unpin_replay_page | Cannot_pin_read_page | Cannot_pin_write_page
  | Cannot_pin_recovery_page | Cannot_unpin_skipped_page | Cannot_unpin_recovery_page
  | Cannot_pin_undo_page | Cannot_unpin_undo_page | Cannot_pin_reconstructed_page
  | Cannot_unpin_reconstructed_page | Unpin_failed | Cannot_pin_table_metadata | Invalid_table_metadata
  | Cannot_pin_new_data_page | Cannot_pin_previous_data_page | Cannot_repin_new_data_page
  | Cannot_pin_data_page | Invalid_data_page | Corrupt_tuple | Cannot_fetch_new_tree_metadata
  | Cannot_fetch_tree_metadata | Invalid_tree_metadata | Cannot_fetch_tree_node | Corrupt_tree_node
  | Cannot_fetch_node_for_write | Empty_child

datatype invalid_argument =
    Nonzero_lsn_required | Invalid_payload_image | Invalid_mutation_page | Finish_target_mismatch
  | Invalid_recovery_mutation | Invalid_undo_mutation | Invalid_reconstructed_image
  | Empty_schema | Tuple_schema_mismatch | Unlike_values | Numeric_required | Invalid_node_capacity

text \<open>
  The last three constructors are not exceptions. \<open>Undefined_behaviour\<close> marks an access of a vector out of its range,
  \<open>Diverges\<close> that a recursion has not ended within the number of steps it was given, and \<open>Terminates\<close> a call of
  \<^verbatim>\<open>std::terminate\<close>.
\<close>

datatype error =
    StorageError storage_error
  | WalError wal_error
  | WalDurabilityError
  | LogicError logic_error
  | RuntimeError runtime_error
  | InvalidArgument invalid_argument
  | OverflowError
  | OutOfRange
  | Undefined_behaviour
  | Diverges
  | Terminates

section \<open>Operations with state and exceptions\<close>

type_synonym ('s, 'a) op = "'s \<Rightarrow> (error + 'a) \<times> 's"

definition ret :: "'a \<Rightarrow> ('s, 'a) op" where
  "ret x = (\<lambda>s. (Inr x, s))"

definition throw :: "error \<Rightarrow> ('s, 'a) op" where
  "throw e = (\<lambda>s. (Inl e, s))"

definition bindE :: "('s, 'a) op \<Rightarrow> ('a \<Rightarrow> ('s, 'b) op) \<Rightarrow> ('s, 'b) op" where
  "bindE m f = (\<lambda>s. case m s of (Inl e, s') \<Rightarrow> (Inl e, s') | (Inr x, s') \<Rightarrow> f x s')"

definition gets :: "('s \<Rightarrow> 'a) \<Rightarrow> ('s, 'a) op" where
  "gets f = (\<lambda>s. (Inr (f s), s))"

definition modify :: "('s \<Rightarrow> 's) \<Rightarrow> ('s, unit) op" where
  "modify f = (\<lambda>s. (Inr (), f s))"

definition require :: "bool \<Rightarrow> error \<Rightarrow> ('s, unit) op" where
  "require b e = (if b then ret () else throw e)"

text \<open>\<open>lift_result\<close> runs a computation that has no state, such as a decoder.\<close>

definition lift_result :: "error + 'a \<Rightarrow> ('s, 'a) op" where
  "lift_result r = (\<lambda>s. (r, s))"

text \<open>\<open>on_error m h\<close> is \<^verbatim>\<open>try { m } catch (...) { h; throw; }\<close>, where \<open>h\<close> only updates the state.\<close>

definition on_error :: "('s, 'a) op \<Rightarrow> ('s \<Rightarrow> 's) \<Rightarrow> ('s, 'a) op" where
  "on_error m h = (\<lambda>s. case m s of (Inl e, s') \<Rightarrow> (Inl e, h s') | (Inr x, s') \<Rightarrow> (Inr x, s'))"

text \<open>
  \<open>zoom get put m\<close> runs an operation of a component object inside the object that holds it:
  the call of a method on a member.
\<close>

definition zoom :: "('s \<Rightarrow> 't) \<Rightarrow> ('t \<Rightarrow> 's \<Rightarrow> 's) \<Rightarrow> ('t, 'a) op \<Rightarrow> ('s, 'a) op" where
  "zoom get put m = (\<lambda>s. case m (get s) of (r, t) \<Rightarrow> (r, put t s))"

section \<open>Weakest preconditions\<close>

definition wp :: "('s, 'a) op \<Rightarrow> ('a \<Rightarrow> 's \<Rightarrow> bool) \<Rightarrow> (error \<Rightarrow> 's \<Rightarrow> bool) \<Rightarrow> 's \<Rightarrow> bool" where
  "wp m Q E s = (case m s of (Inl e, s') \<Rightarrow> E e s' | (Inr x, s') \<Rightarrow> Q x s')"

named_theorems wp_simps \<open>equations that compute wp\<close>

lemma wp_ret [wp_simps]: "wp (ret x) Q E s = Q x s"
  by (simp add: wp_def ret_def)

lemma wp_throw [wp_simps]: "wp (throw e) Q E s = E e s"
  by (simp add: wp_def throw_def)

lemma wp_bindE [wp_simps]: "wp (bindE m f) Q E s = wp m (\<lambda>x. wp (f x) Q E) E s"
  by (simp add: wp_def bindE_def split: prod.split sum.split)

lemma wp_gets [wp_simps]: "wp (gets f) Q E s = Q (f s) s"
  by (simp add: wp_def gets_def)

lemma wp_modify [wp_simps]: "wp (modify f) Q E s = Q () (f s)"
  by (simp add: wp_def modify_def)

lemma wp_require [wp_simps]: "wp (require b e) Q E s = (if b then Q () s else E e s)"
  by (simp add: require_def wp_ret wp_throw)

lemma wp_lift_result [wp_simps]:
  "wp (lift_result r) Q E s = (case r of Inl e \<Rightarrow> E e s | Inr x \<Rightarrow> Q x s)"
  by (simp add: wp_def lift_result_def split: sum.split)

lemma wp_on_error [wp_simps]: "wp (on_error m h) Q E s = wp m Q (\<lambda>e s'. E e (h s')) s"
  by (simp add: wp_def on_error_def split: prod.split sum.split)

lemma wp_zoom [wp_simps]:
  "wp (zoom get put m) Q E s = wp m (\<lambda>x t. Q x (put t s)) (\<lambda>e t. E e (put t s)) (get s)"
  by (simp add: wp_def zoom_def split: prod.split sum.split)

lemma wp_if [wp_simps]: "wp (if b then m else n) Q E s = (if b then wp m Q E s else wp n Q E s)"
  by simp

lemma wp_case_option [wp_simps]:
  "wp (case v of None \<Rightarrow> m | Some x \<Rightarrow> f x) Q E s =
     (case v of None \<Rightarrow> wp m Q E s | Some x \<Rightarrow> wp (f x) Q E s)"
  by (simp split: option.split)

lemma wp_Let [wp_simps]: "wp (let x = t in f x) Q E s = (let x = t in wp (f x) Q E s)"
  by (simp add: Let_def)

text \<open>The same equations without the state, to compute under the abstractions of \<open>wp_bindE\<close>.\<close>

lemma wp_funs:
  "wp (ret x) Q E = Q x" "wp (throw e) Q' E' = E' e" "wp (bindE m f) Q1 E1 = wp m (\<lambda>x. wp (f x) Q1 E1) E1"
  "wp (gets g) Q2 E2 = (\<lambda>s. Q2 (g s) s)" "wp (modify h) Q3 E3 = (\<lambda>s. Q3 () (h s))"
  "wp (require b err) Q4 E4 = (if b then Q4 () else E4 err)"
  "wp (if b then k else n) Q5 E5 = (if b then wp k Q5 E5 else wp n Q5 E5)"
  by (simp_all add: fun_eq_iff wp_simps)

lemma wp_mono:
  assumes "wp m Q E s"
    and "\<And>x s'. Q x s' \<Longrightarrow> Q' x s'" and "\<And>e s'. E e s' \<Longrightarrow> E' e s'"
  shows "wp m Q' E' s"
  using assms by (auto simp: wp_def split: prod.splits sum.splits)

lemma bind_ret: "bindE m ret = m"
  by (auto simp: bindE_def ret_def fun_eq_iff split: prod.split sum.split)

lemma wp_seq:
  assumes "wp m Q' E s" and "\<And>x t. Q' x t \<Longrightarrow> wp (f x) Q E t"
  shows "wp (bindE m f) Q E s"
  unfolding wp_bindE by (rule wp_mono [OF assms(1)]) (auto intro: assms(2))

lemma wp_conj:
  assumes "wp m Q E s" and "wp m Q' E' s"
  shows "wp m (\<lambda>x t. Q x t \<and> Q' x t) (\<lambda>e t. E e t \<and> E' e t) s"
  using assms by (auto simp: wp_def split: prod.splits sum.splits)

lemma wp_self: "wp m (\<lambda>x t. m s = (Inr x, t)) (\<lambda>e t. m s = (Inl e, t)) s"
  by (simp add: wp_def split: prod.split sum.split)

text \<open>A run that is known turns a \<open>wp\<close> fact into a fact about its result, and back.\<close>

lemma wp_InrD: "wp m Q E s \<Longrightarrow> m s = (Inr x, s') \<Longrightarrow> Q x s'"
  by (simp add: wp_def)

lemma wp_InlD: "wp m Q E s \<Longrightarrow> m s = (Inl e, s') \<Longrightarrow> E e s'"
  by (simp add: wp_def)

lemma wp_runD: "wp m (\<lambda>_. P) (\<lambda>_. P) s \<Longrightarrow> P (snd (m s))"
  by (auto simp: wp_def split: prod.splits sum.splits)

lemma wp_returnsD: "wp m Q (\<lambda>_ _. False) s \<Longrightarrow> \<exists>x s'. m s = (Inr x, s') \<and> Q x s'"
  by (auto simp: wp_def split: prod.splits sum.splits)

lemma wp_succeeds:
  assumes "wp m Q E s" and "\<And>e t. \<not> E e t"
  shows "\<exists>x s'. m s = (Inr x, s') \<and> Q x s'"
  using assms by (auto simp: wp_def split: prod.splits sum.splits)

lemma wpI:
  assumes "\<And>x s'. m s = (Inr x, s') \<Longrightarrow> Q x s'" and "\<And>e s'. m s = (Inl e, s') \<Longrightarrow> E e s'"
  shows "wp m Q E s"
  using assms by (auto simp: wp_def split: prod.split sum.split)

subsection \<open>Invariants of operations\<close>

text \<open>
  \<open>keeps I m\<close>: the operation keeps the invariant \<open>I\<close> whether it returns or throws. The rules
  let an invariant of a composed operation follow from its parts.
\<close>

definition keeps :: "('s \<Rightarrow> bool) \<Rightarrow> ('s, 'a) op \<Rightarrow> bool" where
  "keeps I m \<longleftrightarrow> (\<forall>s. I s \<longrightarrow> I (snd (m s)))"

named_theorems keeps_intros \<open>introduction rules for keeps\<close>

lemma keepsI: "(\<And>s. I s \<Longrightarrow> wp m (\<lambda>_. I) (\<lambda>_. I) s) \<Longrightarrow> keeps I m"
  by (auto simp: keeps_def dest: wp_runD)

lemma keeps_spec:
  assumes "\<And>s. I s \<Longrightarrow> wp m (Q s) (E s) s"
    and "\<And>s x t. Q s x t \<Longrightarrow> I t" and "\<And>s e t. E s e t \<Longrightarrow> I t"
  shows "keeps I m"
  by (rule keepsI, rule wp_mono [OF assms(1)]) (simp_all add: assms(2,3))

lemma keepsD: "keeps I m \<Longrightarrow> I s \<Longrightarrow> I (snd (m s))"
  by (simp add: keeps_def)

lemma keeps_wp: "keeps I m \<Longrightarrow> I s \<Longrightarrow> wp m (\<lambda>_. I) (\<lambda>_. I) s"
  by (auto simp: keeps_def wp_def split: prod.split sum.split dest!: spec)

lemma keeps_bindE [keeps_intros]:
  assumes "keeps I m" and "\<And>x. keeps I (f x)"
  shows "keeps I (bindE m f)"
proof (rule keepsI)
  fix s assume "I s"
  with assms(1) have "wp m (\<lambda>_. I) (\<lambda>_. I) s" by (rule keeps_wp)
  then show "wp (bindE m f) (\<lambda>_. I) (\<lambda>_. I) s"
    unfolding wp_bindE by (rule wp_mono) (simp_all add: keeps_wp [OF assms(2)])
qed

lemma keeps_pure [keeps_intros]:
  "keeps I (ret x)" "keeps I (throw e)" "keeps I (gets g)" "keeps I (require b e)"
  "keeps I (lift_result r)"
  by (auto intro!: keepsI simp: wp_simps split: sum.split)

lemma keeps_if [keeps_intros]: "keeps I m \<Longrightarrow> keeps I n \<Longrightarrow> keeps I (if b then m else n)"
  by simp

section \<open>Words\<close>

lemma word_less_add_one:
  fixes x :: "'a::len word"
  assumes "x + 1 \<noteq> 0"
  shows "x < x + 1" and "unat (x + 1) = unat x + 1"
  using assms by (simp_all add: word_less_nat_alt unatSuc add.commute)

lemma word_less_no_wrap: "x < y \<Longrightarrow> x + 1 \<noteq> 0" for x y :: "'a::len word"
  by (metis eq_neg_iff_add_eq_0 not_less word_n1_ge)

lemma uint32_succ: "x \<noteq> 0xFFFFFFFF \<Longrightarrow> x + 1 \<noteq> 0" for x :: uint32
proof
  assume "x \<noteq> 0xFFFFFFFF" "x + 1 = 0"
  moreover from this have "x = - 1" by (simp add: eq_neg_iff_add_eq_0)
  moreover have "(- 1 :: uint32) = 0xFFFFFFFF" by simp
  ultimately show False by metis
qed

section \<open>Lists\<close>

text \<open>\<open>segment p n xs\<close>: the \<open>n\<close> elements of \<open>xs\<close> that start at position \<open>p\<close>.\<close>

definition segment :: "nat \<Rightarrow> nat \<Rightarrow> 'a list \<Rightarrow> 'a list" where
  "segment p n xs = take n (drop p xs)"

text \<open>\<open>splice_at p ys xs\<close>: \<open>xs\<close> with \<open>ys\<close> copied over it from position \<open>p\<close> (\<^verbatim>\<open>memcpy\<close>).\<close>

definition splice_at :: "nat \<Rightarrow> 'a list \<Rightarrow> 'a list \<Rightarrow> 'a list" where
  "splice_at p ys xs = take p xs @ ys @ drop (p + length ys) xs"

lemma length_segment [simp]: "length (segment p n xs) = min n (length xs - p)"
  by (simp add: segment_def)

lemma length_splice_at [simp]: "p + length ys \<le> length xs \<Longrightarrow> length (splice_at p ys xs) = length xs"
  by (simp add: splice_at_def)

lemma segment_splice_same [simp]:
  "p + length ys \<le> length xs \<Longrightarrow> n = length ys \<Longrightarrow> segment p n (splice_at p ys xs) = ys"
  by (simp add: segment_def splice_at_def)

lemma segment_splice_other:
  assumes "p + length ys \<le> length xs" and "q + n \<le> p \<or> p + length ys \<le> q"
  shows "segment q n (splice_at p ys xs) = segment q n xs"
proof (rule nth_equalityI)
  show "length (segment q n (splice_at p ys xs)) = length (segment q n xs)"
    using assms by simp
  fix i assume "i < length (segment q n (splice_at p ys xs))"
  with assms show "segment q n (splice_at p ys xs) ! i = segment q n xs ! i"
    by (auto simp: segment_def splice_at_def nth_append)
qed

lemma splice_at_append: "length h = p \<Longrightarrow> splice_at p ys (h @ z) = h @ ys @ drop (length ys) z"
  by (simp add: splice_at_def)

lemma segment_append_left: "p + n \<le> length xs \<Longrightarrow> segment p n (xs @ ys) = segment p n xs"
  by (simp add: segment_def)

lemma segment_append_right: "length xs \<le> p \<Longrightarrow> segment p n (xs @ ys) = segment (p - length xs) n ys"
  by (simp add: segment_def)

lemma segment_segment: "p + n \<le> m \<Longrightarrow> segment p n (segment q m xs) = segment (q + p) n xs"
  by (simp add: segment_def drop_take min_absorb1) (simp add: add.commute)

lemma segment_all: "n = length xs \<Longrightarrow> segment 0 n xs = xs"
  by (simp add: segment_def)

lemma nth_segment: "i < n \<Longrightarrow> p + i < length xs \<Longrightarrow> segment p n xs ! i = xs ! (p + i)"
  by (simp add: segment_def)

end
