(* ===== verification/Bytes.thy ===== *)
theory Bytes
  imports Prelude
begin

text \<open>
  The little-endian integer codecs. The same helpers are written out four times in the
  sources (\<^verbatim>\<open>page_manager.cpp\<close>, \<^verbatim>\<open>log_manager.cpp\<close>, \<^verbatim>\<open>bplus_tree.cpp\<close>, \<^verbatim>\<open>table_heap.cpp\<close>), in two
  shapes: appending to a vector (\<open>put16\<close>, \<open>put32\<close>, \<open>put64\<close>) and storing at an offset of a
  buffer (\<open>put16_at\<close>, \<open>put32_at\<close>, \<open>put64_at\<close>). The locale \<open>codec\<close> states what the page and log
  formats rely on; it is interpreted on the three widths.
\<close>

unbundle bit_operations_syntax

section \<open>The helpers of the sources\<close>

definition byte_of :: "nat \<Rightarrow> 'a::len word \<Rightarrow> byte" where
  "byte_of i v = ucast (drop_bit (i * 8) v AND 0xff)"

definition put16 :: "uint16 \<Rightarrow> byte list" where
  "put16 v = [ucast (v AND 0xff), ucast (drop_bit 8 v)]"

definition put32 :: "uint32 \<Rightarrow> byte list" where
  "put32 v = map (\<lambda>i. byte_of i v) [0..<4]"

definition put64 :: "uint64 \<Rightarrow> byte list" where
  "put64 v = map (\<lambda>i. byte_of i v) [0..<8]"

definition get_le :: "nat \<Rightarrow> byte list \<Rightarrow> 'a::len word" where
  "get_le n bs = fold (\<lambda>i v. v OR push_bit (i * 8) (ucast (bs ! i))) [0..<n] 0"

definition get16 :: "byte list \<Rightarrow> uint16" where
  "get16 bs = ucast (bs ! 0) OR push_bit 8 (ucast (bs ! 1))"

definition get32 :: "byte list \<Rightarrow> uint32" where
  "get32 bs = get_le 4 bs"

definition get64 :: "byte list \<Rightarrow> uint64" where
  "get64 bs = get_le 8 bs"

definition put16_at :: "nat \<Rightarrow> uint16 \<Rightarrow> byte list \<Rightarrow> byte list" where
  "put16_at p v d = d[p := ucast (v AND 0xff), p + 1 := ucast (drop_bit 8 v)]"

definition put32_at :: "nat \<Rightarrow> uint32 \<Rightarrow> byte list \<Rightarrow> byte list" where
  "put32_at p v d = fold (\<lambda>i d. d[p + i := byte_of i v]) [0..<4] d"

definition put64_at :: "nat \<Rightarrow> uint64 \<Rightarrow> byte list \<Rightarrow> byte list" where
  "put64_at p v d = fold (\<lambda>i d. d[p + i := byte_of i v]) [0..<8] d"

definition get16_at :: "nat \<Rightarrow> byte list \<Rightarrow> uint16" where
  "get16_at p d = get16 (drop p d)"

definition get32_at :: "nat \<Rightarrow> byte list \<Rightarrow> uint32" where
  "get32_at p d = get32 (drop p d)"

definition get64_at :: "nat \<Rightarrow> byte list \<Rightarrow> uint64" where
  "get64_at p d = get64 (drop p d)"

section \<open>Bits of the encoded words\<close>

lemma bit_byte_of: "bit (byte_of i v) j \<longleftrightarrow> j < 8 \<and> bit v (i * 8 + j)" for v :: "'a::len word"
proof -
  have "bit (0xff :: 'a word) j" if "j < 8" "j < LENGTH('a)"
  proof -
    have "(0xff :: 'a word) = mask 8" by (simp add: mask_eq_exp_minus_1)
    with that show ?thesis by (simp only: bit_mask_iff possible_bit_word)
  qed
  then show ?thesis
    by (auto simp: byte_of_def bit_simps dest: bit_imp_le_length)
qed

lemma get_le_Suc: "get_le (Suc n) bs = get_le n bs OR push_bit (n * 8) (ucast (bs ! n))"
  by (simp add: get_le_def)

lemma bit_get_le:
  "bit (get_le n bs :: 'a::len word) k \<longleftrightarrow>
     k < LENGTH('a) \<and> k < n * 8 \<and> bit (bs ! (k div 8)) (k mod 8)"
proof (induction n)
  case 0
  then show ?case by (simp add: get_le_def)
next
  case (Suc n)
  consider "k < n * 8" | "n * 8 \<le> k" "k < Suc n * 8" | "Suc n * 8 \<le> k"
    by linarith
  then show ?case
  proof cases
    case 1
    then show ?thesis by (auto simp: get_le_Suc Suc bit_simps)
  next
    case 2
    then have "k div 8 = n" and "k mod 8 = k - n * 8"
      by (auto simp: mod_nat_eqI div_nat_eqI)
    with 2 show ?thesis by (auto simp: get_le_Suc Suc bit_simps)
  next
    case 3
    then have "\<not> bit (bs ! n) (k - n * 8)"
      by (auto dest: bit_imp_le_length)
    with 3 show ?thesis by (auto simp: get_le_Suc Suc bit_simps)
  qed
qed

lemma get_le_bytes:
  assumes "LENGTH('a) = n * 8"
  shows "get_le n (map (\<lambda>i. byte_of i v) [0..<n] @ r) = (v :: 'a::len word)"
proof (rule bit_word_eqI)
  fix k assume "k < LENGTH('a)"
  with assms have "k div 8 < n" by auto
  with \<open>k < LENGTH('a)\<close> assms show
    "bit (get_le n (map (\<lambda>i. byte_of i v) [0..<n] @ r) :: 'a word) k \<longleftrightarrow> bit v k"
    by (auto simp: bit_get_le nth_append bit_byte_of)
qed

lemma bytes_get_le:
  assumes "LENGTH('a) = n * 8" and "n \<le> length bs"
  shows "map (\<lambda>i. byte_of i (get_le n bs :: 'a::len word)) [0..<n] = take n bs"
proof (rule nth_equalityI)
  show "length (map (\<lambda>i. byte_of i (get_le n bs :: 'a word)) [0..<n]) = length (take n bs)"
    using assms by simp
  fix i assume "i < length (map (\<lambda>i. byte_of i (get_le n bs :: 'a word)) [0..<n])"
  then have i: "i < n" by simp
  have "byte_of i (get_le n bs :: 'a word) = bs ! i"
  proof (rule bit_word_eqI)
    fix j assume "j < LENGTH(8)"
    with i assms show "bit (byte_of i (get_le n bs :: 'a word)) j \<longleftrightarrow> bit (bs ! i) j"
      by (auto simp: bit_byte_of bit_get_le)
  qed
  with i show "map (\<lambda>i. byte_of i (get_le n bs :: 'a word)) [0..<n] ! i = take n bs ! i"
    by simp
qed

lemma put16_bytes: "put16 v = map (\<lambda>i. byte_of i v) [0..<2]"
proof -
  have "ucast (drop_bit 8 v) = byte_of 1 v"
    by (rule bit_word_eqI) (auto simp: bit_byte_of bit_simps)
  then show ?thesis
    by (simp add: put16_def byte_of_def upt_rec)
qed

lemma get16_le: "get16 bs = get_le 2 bs"
  by (simp add: get16_def get_le_def numeral_2_eq_2)

text \<open>Storing byte by byte is copying the encoding over the buffer.\<close>

lemma fold_update_splice:
  "p + n \<le> length d \<Longrightarrow>
     fold (\<lambda>i d. d[p + i := f i]) [0..<n] d = splice_at p (map f [0..<n]) d"
proof (induction n)
  case 0
  then show ?case by (simp add: splice_at_def)
next
  case (Suc n)
  then have IH: "fold (\<lambda>i d. d[p + i := f i]) [0..<n] d = splice_at p (map f [0..<n]) d"
    by simp
  have "drop (p + n) d = d ! (p + n) # drop (Suc (p + n)) d"
    using Suc.prems by (simp add: Cons_nth_drop_Suc)
  then show ?case
    using Suc.prems by (simp add: IH splice_at_def list_update_append)
qed

lemma put32_at_splice: "p + 4 \<le> length d \<Longrightarrow> put32_at p v d = splice_at p (put32 v) d"
  unfolding put32_at_def put32_def by (rule fold_update_splice)

lemma put64_at_splice: "p + 8 \<le> length d \<Longrightarrow> put64_at p v d = splice_at p (put64 v) d"
  unfolding put64_at_def put64_def by (rule fold_update_splice)

lemma put16_at_splice:
  assumes "p + 2 \<le> length d"
  shows "put16_at p v d = splice_at p (put16 v) d"
proof -
  have "fold (\<lambda>i d. d[p + i := put16 v ! i]) [0..<2] d = splice_at p (map ((!) (put16 v)) [0..<2]) d"
    using assms by (rule fold_update_splice)
  then show ?thesis
    by (simp add: put16_at_def put16_def numeral_2_eq_2)
qed

section \<open>The codec interface\<close>

text \<open>
  What a page or record format needs of an integer codec: a fixed width, and that reading gives
  back what was written wherever the encoding stands.
\<close>

locale codec =
  fixes put :: "'a \<Rightarrow> byte list" and get :: "byte list \<Rightarrow> 'a" and width :: nat
  assumes length_put: "length (put v) = width"
    and get_put: "get (put v @ r) = v"
    and put_get: "width \<le> length bs \<Longrightarrow> put (get bs) = take width bs"
begin

lemma get_put_drop: "drop p d = put v @ r \<Longrightarrow> get (drop p d) = v"
  by (simp add: get_put)

lemma get_prefix: "width \<le> length bs \<Longrightarrow> take width bs = take width bs' \<Longrightarrow> get bs = get bs'"
  by (metis append_take_drop_id get_put length_take min.absorb_iff2 min.bounded_iff put_get)

lemma get_segment: "p + width \<le> length d \<Longrightarrow> get (drop p d) = get (segment p width d)"
  by (rule get_prefix) (simp_all add: segment_def)

lemma get_splice_same:
  assumes "p + width \<le> length d"
  shows "get (drop p (splice_at p (put v) d)) = v"
  using assms by (simp add: splice_at_def get_put)

lemma get_splice_other:
  assumes "p + length ys \<le> length d" and "q + width \<le> length d"
    and "q + width \<le> p \<or> p + length ys \<le> q"
  shows "get (drop q (splice_at p ys d)) = get (drop q d)"
proof -
  have "segment q width (splice_at p ys d) = segment q width d"
    using assms(1,3) by (rule segment_splice_other)
  then show ?thesis
    using assms by (simp add: get_segment)
qed

lemma put_inject: "put v = put w \<longleftrightarrow> v = w"
  by (metis append_Nil2 get_put)

end

interpretation le16: codec put16 get16 2
proof
  show "length (put16 v) = 2" for v by (simp add: put16_def)
  show "get16 (put16 v @ r) = v" for v r
    unfolding get16_le put16_bytes by (rule get_le_bytes) simp
  show "put16 (get16 bs) = take 2 bs" if "2 \<le> length bs" for bs
    unfolding get16_le put16_bytes using that by (intro bytes_get_le) simp_all
qed

interpretation le32: codec put32 get32 4
proof
  show "length (put32 v) = 4" for v by (simp add: put32_def)
  show "get32 (put32 v @ r) = v" for v r
    unfolding get32_def put32_def by (rule get_le_bytes) simp
  show "put32 (get32 bs) = take 4 bs" if "4 \<le> length bs" for bs
    unfolding get32_def put32_def using that by (intro bytes_get_le) simp_all
qed

interpretation le64: codec put64 get64 8
proof
  show "length (put64 v) = 8" for v by (simp add: put64_def)
  show "get64 (put64 v @ r) = v" for v r
    unfolding get64_def put64_def by (rule get_le_bytes) simp
  show "put64 (get64 bs) = take 8 bs" if "8 \<le> length bs" for bs
    unfolding get64_def put64_def using that by (intro bytes_get_le) simp_all
qed

lemmas length_put [simp] = le16.length_put le32.length_put le64.length_put
lemmas get_put [simp] = le16.get_put le32.get_put le64.get_put

lemma get_put_end [simp]: "get16 (put16 a) = a" "get32 (put32 b) = b" "get64 (put64 c) = c"
  using le16.get_put [of a "[]"] le32.get_put [of b "[]"] le64.get_put [of c "[]"] by simp_all

end
