(* ===== verification/Streams.thy ===== *)
theory Streams
  imports Bytes
begin

text \<open>
  The part of \<^verbatim>\<open>std::fstream\<close> the engine uses, for the database file and the log file. A stream
  is its contents, its \<^verbatim>\<open>good()\<close> flag and the outcomes the environment has in store for the coming
  transfers: \<open>IoOk\<close>, or \<open>IoFail n\<close>, where \<open>n\<close> bytes are transferred and the stream goes bad. A
  stream with no outcome left succeeds. An operation on a bad stream does nothing, as in the
  standard, until \<open>fs_clear\<close>. Positions are passed with the transfer: every transfer of the
  sources is preceded by a seek. A failed seek is the outcome \<open>IoFail 0\<close>; a negative position
  fails.
\<close>

datatype io_event = IoOk | IoFail nat

record fstream =
  contents :: "byte list"
  good :: bool
  outcomes :: "io_event list"

definition write_bytes :: "nat \<Rightarrow> byte list \<Rightarrow> byte list \<Rightarrow> byte list" where
  "write_bytes off bs f =
     (if bs = [] then f else splice_at off bs (f @ replicate (off + length bs - length f) 0))"

definition fs_clear :: "fstream \<Rightarrow> fstream" where
  "fs_clear fs = fs\<lparr>good := True\<rparr>"

definition fs_write :: "int \<Rightarrow> byte list \<Rightarrow> fstream \<Rightarrow> fstream" where
  "fs_write off bs fs =
     (if \<not> good fs then fs
      else if off < 0 then fs\<lparr>good := False\<rparr>
      else case outcomes fs of
        [] \<Rightarrow> fs\<lparr>contents := write_bytes (nat off) bs (contents fs)\<rparr>
      | IoOk # es \<Rightarrow> fs\<lparr>contents := write_bytes (nat off) bs (contents fs), outcomes := es\<rparr>
      | IoFail n # es \<Rightarrow>
          fs\<lparr>contents := write_bytes (nat off) (take n bs) (contents fs), good := False, outcomes := es\<rparr>)"

definition fs_read :: "int \<Rightarrow> nat \<Rightarrow> fstream \<Rightarrow> byte list \<times> fstream" where
  "fs_read off n fs =
     (if \<not> good fs then ([], fs)
      else if off < 0 then ([], fs\<lparr>good := False\<rparr>)
      else case outcomes fs of
        [] \<Rightarrow> (let bs = segment (nat off) n (contents fs) in (bs, fs\<lparr>good := (length bs = n)\<rparr>))
      | IoOk # es \<Rightarrow>
          (let bs = segment (nat off) n (contents fs)
           in (bs, fs\<lparr>good := (length bs = n), outcomes := es\<rparr>))
      | IoFail k # es \<Rightarrow>
          (segment (nat off) (min k (n - 1)) (contents fs), fs\<lparr>good := False, outcomes := es\<rparr>))"

definition fs_flush :: "fstream \<Rightarrow> fstream" where
  "fs_flush fs =
     (if \<not> good fs then fs
      else case outcomes fs of
        [] \<Rightarrow> fs
      | IoOk # es \<Rightarrow> fs\<lparr>outcomes := es\<rparr>
      | IoFail _ # es \<Rightarrow> fs\<lparr>good := False, outcomes := es\<rparr>)"

text \<open>A stream whose environment has only successes left.\<close>

definition fault_free :: "fstream \<Rightarrow> bool" where
  "fault_free fs \<longleftrightarrow> (\<forall>e \<in> set (outcomes fs). e = IoOk)"

lemmas fs_defs = fs_clear_def fs_write_def fs_read_def fs_flush_def

section \<open>Transfers that succeed\<close>

lemma fs_clear_simps [simp]:
  "good (fs_clear fs)" "contents (fs_clear fs) = contents fs" "outcomes (fs_clear fs) = outcomes fs"
  "fault_free (fs_clear fs) = fault_free fs"
  by (simp_all add: fs_clear_def fault_free_def)

lemma fs_write_ok:
  "good (fs_write off bs fs) \<Longrightarrow>
     good fs \<and> 0 \<le> off \<and> contents (fs_write off bs fs) = write_bytes (nat off) bs (contents fs)"
  by (auto simp: fs_write_def split: if_splits list.splits io_event.splits)

lemma fs_write_fault_free:
  assumes "fault_free fs" "good fs" "0 \<le> off"
  shows "good (fs_write off bs fs)" and "fault_free (fs_write off bs fs)"
  using assms by (auto simp: fs_write_def fault_free_def split: list.split io_event.split)

text \<open>A write that fails has still put some prefix of the bytes into the file.\<close>

lemma fs_write_contents:
  "0 \<le> off \<Longrightarrow> \<exists>n. contents (fs_write off bs fs) = write_bytes (nat off) (take n bs) (contents fs)"
proof (cases "good fs")
  case False
  then have "contents (fs_write off bs fs) = write_bytes (nat off) (take 0 bs) (contents fs)"
    by (simp add: fs_write_def write_bytes_def)
  then show ?thesis ..
next
  case True
  assume "0 \<le> off"
  have "contents (fs_write off bs fs) = write_bytes (nat off) (take (length bs) bs) (contents fs)"
    if "outcomes fs = [] \<or> hd (outcomes fs) = IoOk"
    using True \<open>0 \<le> off\<close> that by (auto simp: fs_write_def split: list.splits io_event.splits)
  moreover have "contents (fs_write off bs fs) = write_bytes (nat off) (take n bs) (contents fs)"
    if "outcomes fs = IoFail n # es" for n es
    using True \<open>0 \<le> off\<close> that by (simp add: fs_write_def)
  ultimately show ?thesis
    by (metis io_event.exhaust list.exhaust list.sel(1))
qed

lemma fs_read_contents [simp]: "contents (snd (fs_read off n fs)) = contents fs"
  by (simp add: fs_read_def Let_def split: list.split io_event.split)

lemma fs_read_ok:
  "length (fst (fs_read off n fs)) = n \<Longrightarrow> 0 < n \<Longrightarrow> fst (fs_read off n fs) = segment (nat off) n (contents fs)"
  by (auto simp: fs_read_def Let_def split: if_splits list.splits io_event.splits)

lemma fs_read_fault_free:
  assumes "fault_free fs" "good fs" "0 \<le> off" "nat off + n \<le> length (contents fs)"
  shows "fst (fs_read off n fs) = segment (nat off) n (contents fs)"
    and "good (snd (fs_read off n fs))" and "fault_free (snd (fs_read off n fs))"
  using assms by (auto simp: fs_read_def fault_free_def Let_def split: list.split io_event.split)

lemma fs_flush_simps [simp]: "contents (fs_flush fs) = contents fs"
  by (simp add: fs_flush_def split: list.split io_event.split)

lemma fs_flush_good: "good (fs_flush fs) \<Longrightarrow> good fs"
  by (auto simp: fs_flush_def split: if_splits)

lemma fs_flush_fault_free:
  "fault_free fs \<Longrightarrow> good (fs_flush fs) = good fs \<and> fault_free (fs_flush fs)"
  by (auto simp: fs_flush_def fault_free_def split: list.split io_event.split)

section \<open>What a write leaves of the file\<close>

lemma length_write_bytes [simp]:
  "bs \<noteq> [] \<Longrightarrow> length (write_bytes off bs f) = max (length f) (off + length bs)"
  by (simp add: write_bytes_def)

lemma length_write_bytes_le: "length f \<le> length (write_bytes off bs f)"
  by (cases "bs = []") (auto simp: write_bytes_def)

lemma segment_write_same:
  "bs \<noteq> [] \<Longrightarrow> segment off (length bs) (write_bytes off bs f) = bs"
  by (simp add: write_bytes_def)

lemma segment_write_other:
  assumes "q + n \<le> length f" and "q + n \<le> off \<or> off + length bs \<le> q"
  shows "segment q n (write_bytes off bs f) = segment q n f"
proof (cases "bs = []")
  case True
  then show ?thesis by (simp add: write_bytes_def)
next
  case False
  have "segment q n (splice_at off bs (f @ replicate (off + length bs - length f) 0)) =
        segment q n (f @ replicate (off + length bs - length f) 0)"
    using assms by (intro segment_splice_other) auto
  with assms False show ?thesis
    by (simp add: write_bytes_def segment_append_left)
qed

text \<open>
  A partial write over a region: the written prefix, then what was there. It is what a torn page
  looks like.
\<close>

lemma segment_write_torn:
  assumes "off + length bs \<le> length f"
  shows "segment off (length bs) (write_bytes off (take n bs) f) =
         take n bs @ drop n (segment off (length bs) f)"
proof (cases "take n bs = []")
  case True
  then show ?thesis by (auto simp: write_bytes_def segment_def)
next
  case False
  with assms show ?thesis
    by (auto simp: write_bytes_def splice_at_def segment_def drop_take add.commute min_def)
qed

lemma write_bytes_append: "off = length f \<Longrightarrow> write_bytes off bs f = f @ bs"
  by (auto simp: write_bytes_def splice_at_def)

end
