(* ===== verification/PageManager.thy ===== *)
theory PageManager
  imports Streams
begin

text \<open>
  \<^verbatim>\<open>include/ddb/storage/page.h\<close>, \<^verbatim>\<open>include/ddb/storage/page_manager.h\<close>, \<^verbatim>\<open>src/storage/page_manager.cpp\<close>:
  fixed pages with a versioned envelope in one database file, behind an allocation catalog that
  occupies the file's first page. Every function of \<^verbatim>\<open>page_manager.cpp\<close> is a definition here, with
  the stream calls it makes in their order.
\<close>

unbundle bit_operations_syntax

section \<open>Pages\<close>

definition kPageSize :: nat where "kPageSize = 4096"
definition kPageHeaderSize :: nat where "kPageHeaderSize = 32"
definition kPagePayloadSize :: nat where "kPagePayloadSize = kPageSize - kPageHeaderSize"
definition kPageFormatVersion :: uint16 where "kPageFormatVersion = 1"

definition kInvalidValue :: PageId where "kInvalidValue = 0xFFFFFFFFFFFFFFFF"

definition is_valid :: "PageId \<Rightarrow> bool" where
  "is_valid i \<longleftrightarrow> i \<noteq> kInvalidValue"

record page =
  pg_id :: PageId
  pg_lsn :: uint64
  pg_payload :: "byte list"

text \<open>\<^verbatim>\<open>explicit Page(PageId id={})\<close>: a default page is invalid, has LSN zero and a cleared payload.\<close>

definition new_page :: "PageId \<Rightarrow> page" where
  "new_page i = \<lparr>pg_id = i, pg_lsn = 0, pg_payload = replicate kPagePayloadSize 0\<rparr>"

definition page_clear :: "page \<Rightarrow> page" where
  "page_clear p = p\<lparr>pg_payload := replicate (length (pg_payload p)) 0\<rparr>"

text \<open>The payload is a \<^verbatim>\<open>std::array\<close> of \<open>kPagePayloadSize\<close> bytes.\<close>

definition page_ok :: "page \<Rightarrow> bool" where
  "page_ok p \<longleftrightarrow> length (pg_payload p) = kPagePayloadSize"

lemmas size_defs = kPageSize_def kPageHeaderSize_def kPagePayloadSize_def

section \<open>The manager's state\<close>

definition kMagic :: "byte list" where "kMagic = [0x44, 0x44, 0x42, 0x50]"
definition kCatalogMagic :: "byte list" where "kCatalogMagic = [0x44, 0x44, 0x42, 0x41]"
definition kCatalogVersion :: uint16 where "kCatalogVersion = 1"
definition kCatalogHeader :: nat where "kCatalogHeader = 24"
definition kCatalogBits :: nat where "kCatalogBits = (kPageSize - kCatalogHeader) * 8"

lemmas catalog_defs = kCatalogHeader_def kCatalogBits_def size_defs

record page_manager =
  pm_file :: fstream
  pm_page_count :: uint64
  pm_bitmap :: "byte list"
  pm_allocated :: uint64

definition pm_io :: "(fstream \<Rightarrow> 'a \<times> fstream) \<Rightarrow> (page_manager, 'a) op" where
  "pm_io f = (\<lambda>pm. case f (pm_file pm) of (x, fs) \<Rightarrow> (Inr x, pm\<lparr>pm_file := fs\<rparr>))"

definition ensure_stream_good :: "(page_manager, unit) op" where
  "ensure_stream_good =
     bindE (gets (\<lambda>pm. good (pm_file pm))) (\<lambda>g. require g (StorageError Stream_not_good))"

section \<open>Byte images\<close>

text \<open>The image \<^verbatim>\<open>write_page\<close> and \<^verbatim>\<open>reserve_page\<close> build in their array \<^verbatim>\<open>raw\<close>.\<close>

definition page_header :: "PageId \<Rightarrow> uint64 \<Rightarrow> byte list" where
  "page_header i l =
     put64_at 16 l (put64_at 8 i (put16_at 6 (of_nat kPageHeaderSize)
       (put16_at 4 kPageFormatVersion (splice_at 0 kMagic (replicate kPageSize 0)))))"

definition page_image :: "PageId \<Rightarrow> page \<Rightarrow> byte list" where
  "page_image i p = splice_at kPageHeaderSize (pg_payload p) (page_header i (pg_lsn p))"

definition catalog_image :: "page_manager \<Rightarrow> byte list" where
  "catalog_image pm =
     splice_at kCatalogHeader (pm_bitmap pm)
       (put64_at 16 (pm_allocated pm) (put64_at 8 (pm_page_count pm)
         (put16_at 4 kCatalogVersion (splice_at 0 kCatalogMagic (replicate kPageSize 0)))))"

section \<open>Operations\<close>

text \<open>
  \<^verbatim>\<open>offset_for\<close>: the arithmetic is on \<^verbatim>\<open>uint64_t\<close> and the result is cast to the signed \<^verbatim>\<open>streamoff\<close>.
\<close>

definition kMaxOffset :: uint64 where "kMaxOffset = 0x7FFFFFFFFFFFFFFF"

definition offset_for :: "PageId \<Rightarrow> error + int" where
  "offset_for i =
     (if \<not> is_valid i then Inl (StorageError Invalid_page_id)
      else if i > kMaxOffset div of_nat kPageSize then Inl (StorageError Offset_not_representable)
      else Inr (sint ((i + 1) * of_nat kPageSize)))"

definition bit_set :: "byte list \<Rightarrow> PageId \<Rightarrow> bool" where
  "bit_set bm i \<longleftrightarrow> bm ! (unat (i div 8)) AND push_bit (unat (i mod 8)) 1 \<noteq> 0"

definition is_page_allocated :: "PageId \<Rightarrow> page_manager \<Rightarrow> bool" where
  "is_page_allocated i pm \<longleftrightarrow> is_valid i \<and> i < pm_page_count pm \<and> bit_set (pm_bitmap pm) i"

definition validate_allocated :: "PageId \<Rightarrow> (page_manager, unit) op" where
  "validate_allocated i =
     bindE (lift_result (offset_for i)) (\<lambda>_.
     bindE (gets pm_page_count) (\<lambda>n. require (\<not> i \<ge> n) (StorageError Beyond_allocated_file)))"

definition validate_logically_allocated :: "PageId \<Rightarrow> (page_manager, unit) op" where
  "validate_logically_allocated i =
     bindE (validate_allocated i) (\<lambda>_.
     bindE (gets (is_page_allocated i)) (\<lambda>a. require a (StorageError Logically_unallocated)))"

definition write_allocation_catalog :: "(page_manager, unit) op" where
  "write_allocation_catalog =
     bindE (gets catalog_image) (\<lambda>raw.
     bindE (pm_io (\<lambda>fs. ((), fs_write 0 raw (fs_clear fs)))) (\<lambda>_.
     ensure_stream_good))"

definition reserve_page :: "(page_manager, PageId) op" where
  "reserve_page =
     bindE (gets pm_page_count) (\<lambda>n.
     bindE (require (\<not> n \<ge> of_nat kCatalogBits) (StorageError Catalog_capacity_exhausted)) (\<lambda>_.
     bindE (lift_result (offset_for n)) (\<lambda>_.
     bindE (modify (\<lambda>pm. pm\<lparr>pm_page_count := pm_page_count pm + 1\<rparr>)) (\<lambda>_.
     bindE (on_error
       (bindE (lift_result (offset_for n)) (\<lambda>off.
        bindE (pm_io (\<lambda>fs. ((), fs_write off (page_header n 0) (fs_clear fs)))) (\<lambda>_.
        bindE ensure_stream_good (\<lambda>_.
        write_allocation_catalog))))
       (\<lambda>pm. pm\<lparr>pm_page_count := pm_page_count pm - 1\<rparr>)) (\<lambda>_.
     ret n)))))"

definition activate_reserved_page :: "PageId \<Rightarrow> (page_manager, unit) op" where
  "activate_reserved_page i =
     bindE (validate_allocated i) (\<lambda>_.
     bindE (gets (is_page_allocated i)) (\<lambda>a.
     bindE (require (\<not> a) (StorageError Already_allocated)) (\<lambda>_.
     bindE (modify (\<lambda>pm. pm\<lparr>pm_bitmap := (pm_bitmap pm)[unat (i div 8) :=
         pm_bitmap pm ! (unat (i div 8)) OR push_bit (unat (i mod 8)) 1],
       pm_allocated := pm_allocated pm + 1\<rparr>)) (\<lambda>_.
     write_allocation_catalog))))"

definition allocate_page :: "(page_manager, PageId) op" where
  "allocate_page =
     bindE reserve_page (\<lambda>i. bindE (activate_reserved_page i) (\<lambda>_. ret i))"

definition deallocate_page :: "PageId \<Rightarrow> (page_manager, unit) op" where
  "deallocate_page i =
     bindE (validate_logically_allocated i) (\<lambda>_.
     bindE (modify (\<lambda>pm. pm\<lparr>pm_bitmap := (pm_bitmap pm)[unat (i div 8) :=
         pm_bitmap pm ! (unat (i div 8)) AND NOT (push_bit (unat (i mod 8)) 1)],
       pm_allocated := pm_allocated pm - 1\<rparr>)) (\<lambda>_.
     write_allocation_catalog))"

definition envelope_format_ok :: "byte list \<Rightarrow> bool" where
  "envelope_format_ok raw \<longleftrightarrow>
     take 4 raw = kMagic \<and> get16_at 4 raw = kPageFormatVersion \<and> get16_at 6 raw = of_nat kPageHeaderSize"

definition validate_physical_page_for_recovery :: "PageId \<Rightarrow> (page_manager, unit) op" where
  "validate_physical_page_for_recovery i =
     bindE (validate_allocated i) (\<lambda>_.
     bindE (lift_result (offset_for i)) (\<lambda>off.
     bindE (pm_io (\<lambda>fs. fs_read off kPageSize (fs_clear fs))) (\<lambda>raw.
     bindE (require (length raw = kPageSize) (StorageError Short_recovery_read)) (\<lambda>_.
     bindE ensure_stream_good (\<lambda>_.
     require (envelope_format_ok raw \<and> get64_at 8 raw = i) (StorageError Invalid_physical_recovery_page))))))"

definition materialize_page_for_recovery :: "PageId \<Rightarrow> (page_manager, unit) op" where
  "materialize_page_for_recovery i =
     bindE (require (is_valid i) (StorageError Invalid_recovery_page_id)) (\<lambda>_.
     bindE (gets pm_page_count) (\<lambda>n.
     bindE (require (\<not> i < n) (StorageError Recovery_page_exists)) (\<lambda>_.
     bindE (require (\<not> i > n) (StorageError Recovery_physical_gap)) (\<lambda>_.
     bindE reserve_page (\<lambda>m.
     require (m = i) (StorageError Unexpected_materialized_id))))))"

definition read_page :: "PageId \<Rightarrow> (page_manager, page) op" where
  "read_page i =
     bindE (validate_logically_allocated i) (\<lambda>_.
     bindE (lift_result (offset_for i)) (\<lambda>off.
     bindE (pm_io (\<lambda>fs. fs_read off kPageSize (fs_clear fs))) (\<lambda>raw.
     bindE (require (length raw = kPageSize) (StorageError Short_read)) (\<lambda>_.
     bindE ensure_stream_good (\<lambda>_.
     bindE (require (envelope_format_ok raw) (StorageError Unsupported_page_format)) (\<lambda>_.
     bindE (require (get64_at 8 raw = i) (StorageError Header_identifier_mismatch)) (\<lambda>_.
     ret \<lparr>pg_id = i, pg_lsn = get64_at 16 raw, pg_payload = segment kPageHeaderSize kPagePayloadSize raw\<rparr>)))))))"

definition write_page :: "PageId \<Rightarrow> page \<Rightarrow> (page_manager, unit) op" where
  "write_page i p =
     bindE (validate_logically_allocated i) (\<lambda>_.
     bindE (require (pg_id p = i) (StorageError Write_target_mismatch)) (\<lambda>_.
     bindE (lift_result (offset_for i)) (\<lambda>off.
     bindE (pm_io (\<lambda>fs. ((), fs_write off (page_image i p) (fs_clear fs)))) (\<lambda>_.
     ensure_stream_good))))"

definition pm_flush :: "(page_manager, unit) op" where
  "pm_flush = bindE (pm_io (\<lambda>fs. ((), fs_flush fs))) (\<lambda>_. ensure_stream_good)"

text \<open>
  The constructor. \<open>fault\<close> names the file-system call that fails, if one does; \<open>existing\<close> is the
  file found at the path, if any; \<open>outs\<close> is what the environment has in store for the stream.
\<close>

datatype fs_fault = Fs_inspect | Fs_create | Fs_size | Fs_open

definition count_allocated :: "page_manager \<Rightarrow> uint64" where
  "count_allocated pm =
     fold (\<lambda>i n. if is_page_allocated (of_nat i) pm then n + 1 else n) [0..<unat (pm_page_count pm)] 0"

definition load_catalog :: "nat \<Rightarrow> (page_manager, unit) op" where
  "load_catalog len =
     bindE (pm_io (\<lambda>fs. fs_read 0 kPageSize fs)) (\<lambda>catalog.
     bindE (require (length catalog = kPageSize \<and> take 4 catalog = kCatalogMagic
                     \<and> get16_at 4 catalog = kCatalogVersion) (StorageError Legacy_or_corrupt_catalog)) (\<lambda>_.
     bindE (modify (\<lambda>pm. pm\<lparr>pm_page_count := of_nat (len div kPageSize) - 1\<rparr>)) (\<lambda>_.
     bindE (gets pm_page_count) (\<lambda>n.
     bindE (require (\<not> (get64_at 8 catalog \<noteq> n \<or> n > of_nat kCatalogBits))
                    (StorageError Invalid_catalog_bounds)) (\<lambda>_.
     bindE (modify (\<lambda>pm. pm\<lparr>pm_bitmap := segment kCatalogHeader (kPageSize - kCatalogHeader) catalog\<rparr>)) (\<lambda>_.
     bindE (modify (\<lambda>pm. pm\<lparr>pm_allocated := count_allocated pm\<rparr>)) (\<lambda>_.
     bindE (gets pm_allocated) (\<lambda>a.
     require (a = get64_at 16 catalog) (StorageError Invalid_catalog_count)))))))))"

definition open_page_manager ::
  "fs_fault option \<Rightarrow> byte list option \<Rightarrow> io_event list \<Rightarrow> (error + unit) \<times> page_manager" where
  "open_page_manager fault existing outs =
     (let file = (case existing of None \<Rightarrow> [] | Some f \<Rightarrow> f);
          pm0 = \<lparr>pm_file = \<lparr>contents = file, good = True, outcomes = outs\<rparr>, pm_page_count = 0,
                 pm_bitmap = replicate (kPageSize - kCatalogHeader) 0, pm_allocated = 0\<rparr>
      in bindE (require (fault \<noteq> Some Fs_inspect) (StorageError Cannot_inspect_database)) (\<lambda>_.
         bindE (require (\<not> (existing = None \<and> fault = Some Fs_create)) (StorageError Cannot_create_database)) (\<lambda>_.
         bindE (require (fault \<noteq> Some Fs_size) (StorageError Cannot_determine_size)) (\<lambda>_.
         bindE (require (length file mod kPageSize = 0) (StorageError Not_page_aligned)) (\<lambda>_.
         bindE (require (fault \<noteq> Some Fs_open) (StorageError Cannot_open_database)) (\<lambda>_.
         if length file = 0
         then bindE write_allocation_catalog (\<lambda>_. pm_io (\<lambda>fs. ((), fs_flush fs)))
         else load_catalog (length file)))))) pm0)"

end
