(* ===== verification/WalRecords.thy ===== *)
theory WalRecords
  imports PageManager
begin

text \<open>
  The record format of the write-ahead log (\<^verbatim>\<open>src/src/storage/log_manager.cpp\<close>): the encoder and
  decoder of records, the payload codecs of page mutations and page allocations, the checksum, and
  the scanner that reads a log file back. The theory holds the definitions and the round trips of
  single records.
\<close>

unbundle bit_operations_syntax

section \<open>Records and mutations\<close>

datatype WalRecordType = Begin | PhysicalMutation | Commit | Abort | PageAllocate

record wal_record =
  wr_lsn :: uint64
  wr_transaction_id :: TransactionId
  wr_type :: WalRecordType
  wr_payload :: "byte list"

datatype MutationKind = PayloadWrite

record physical_mutation =
  mu_page_id :: PageId
  mu_kind :: MutationKind
  mu_sequence :: uint64
  mu_before_image :: "byte list"
  mu_after_image :: "byte list"
  mu_previous_page_lsn :: uint64

text \<open>The enumerators' values, and the cast back from a byte.\<close>

fun type_code :: "WalRecordType \<Rightarrow> byte" where
  "type_code Begin = 1"
| "type_code PhysicalMutation = 2"
| "type_code Commit = 3"
| "type_code Abort = 4"
| "type_code PageAllocate = 5"

definition type_of_code :: "byte \<Rightarrow> WalRecordType" where
  "type_of_code b =
     (if b = 1 then Begin else if b = 2 then PhysicalMutation else if b = 3 then Commit
      else if b = 4 then Abort else PageAllocate)"

fun kind_code :: "MutationKind \<Rightarrow> byte" where
  "kind_code PayloadWrite = 0"

section \<open>Constants of the format\<close>

definition kMagic_wal :: "byte list" where "kMagic_wal = [0x44, 0x57, 0x41, 0x4C]"
definition kVersion :: uint16 where "kVersion = 1"
definition kHeaderSize :: nat where "kHeaderSize = 36"
definition kChecksumSize :: nat where "kChecksumSize = 4"
definition kMinimumRecordSize :: nat where "kMinimumRecordSize = kHeaderSize + kChecksumSize"
definition kMaxRecordSize :: nat where "kMaxRecordSize = 32 * 1024 * 1024"

lemmas wal_size_defs = kHeaderSize_def kChecksumSize_def kMinimumRecordSize_def kMaxRecordSize_def

definition checksum :: "byte list \<Rightarrow> uint32" where
  "checksum bytes = fold (\<lambda>b v. (v XOR ucast b) * 16777619) bytes 2166136261"

section \<open>Records on disk\<close>

text \<open>
  The header of \<open>encode\<close>: everything before the payload. The length fits 32 bits because the payload
  has been checked against \<open>kMaxRecordSize\<close>.
\<close>

definition wal_header :: "wal_record \<Rightarrow> byte list" where
  "wal_header r = kMagic_wal @ put16 kVersion @ put16 (of_nat kHeaderSize) @
     put32 (of_nat (kMinimumRecordSize + length (wr_payload r))) @ put64 (wr_lsn r) @
     put64 (wr_transaction_id r) @ [type_code (wr_type r)] @ [0, 0, 0] @ put32 (of_nat (length (wr_payload r)))"

definition encode :: "wal_record \<Rightarrow> error + byte list" where
  "encode r =
     (if wr_lsn r = 0 then Inl (WalError Lsn_must_be_nonzero)
      else if \<not> (type_code Begin \<le> type_code (wr_type r) \<and> type_code (wr_type r) \<le> type_code PageAllocate)
        then Inl (WalError Invalid_record_type)
      else if \<not> length (wr_payload r) \<le> kMaxRecordSize - kMinimumRecordSize then Inl (WalError Payload_too_large)
      else let out = wal_header r @ wr_payload r in Inr (out @ put32 (checksum out)))"

definition decode :: "byte list \<Rightarrow> error + wal_record" where
  "decode bytes =
     (if \<not> kMinimumRecordSize \<le> length bytes then Inl (WalError Truncated_record)
      else if take (length kMagic_wal) bytes \<noteq> kMagic_wal then Inl (WalError Invalid_magic)
      else if get16_at 4 bytes \<noteq> kVersion then Inl (WalError Unsupported_wal_version)
      else if unat (get16_at 6 bytes) \<noteq> kHeaderSize then Inl (WalError Invalid_header_length)
      else let len = unat (get32_at 8 bytes); payload_length = unat (get32_at 32 bytes) in
        if \<not> (len = length bytes \<and> kMinimumRecordSize \<le> len \<and> len \<le> kMaxRecordSize)
          then Inl (WalError Invalid_record_length)
        else if payload_length \<noteq> len - kMinimumRecordSize then Inl (WalError Invalid_payload_length)
        else if checksum (take (length bytes - kChecksumSize) bytes) \<noteq> get32_at (length bytes - kChecksumSize) bytes
          then Inl (WalError Invalid_checksum)
        else if \<not> (type_code Begin \<le> bytes ! 28 \<and> bytes ! 28 \<le> type_code PageAllocate)
          then Inl (WalError Invalid_record_type)
        else if get64_at 12 bytes = 0 then Inl (WalError Invalid_lsn)
        else Inr \<lparr>wr_lsn = get64_at 12 bytes, wr_transaction_id = get64_at 20 bytes,
               wr_type = type_of_code (bytes ! 28),
               wr_payload = drop kHeaderSize (take (length bytes - kChecksumSize) bytes)\<rparr>)"

section \<open>Payloads\<close>

definition encode_physical_mutation :: "physical_mutation \<Rightarrow> error + byte list" where
  "encode_physical_mutation m =
     (if \<not> is_valid (mu_page_id m) then Inl (WalError Invalid_mutation_page_id)
      else if \<not> (length (mu_before_image m) = kPagePayloadSize \<and> length (mu_after_image m) = kPagePayloadSize)
        then Inl (WalError Invalid_image_size)
      else Inr (put64 (mu_page_id m) @ [kind_code (mu_kind m)] @ put64 (mu_sequence m) @
        put32 (of_nat (length (mu_before_image m))) @ put32 (of_nat (length (mu_after_image m))) @
        mu_before_image m @ mu_after_image m))"

definition decode_physical_mutation :: "byte list \<Rightarrow> error + physical_mutation" where
  "decode_physical_mutation bytes =
     (if \<not> 25 \<le> length bytes then Inl (WalError Truncated_mutation)
      else let before_length = unat (get32_at 17 bytes); after_length = unat (get32_at 21 bytes) in
        if \<not> (before_length = kPagePayloadSize \<and> after_length = kPagePayloadSize \<and>
              length bytes = 25 + before_length + after_length)
          then Inl (WalError Invalid_image_lengths)
        else if bytes ! 8 \<noteq> kind_code PayloadWrite then Inl (WalError Invalid_mutation_kind)
        else if \<not> is_valid (get64_at 0 bytes) then Inl (WalError Invalid_mutation_page_id)
        else Inr \<lparr>mu_page_id = get64_at 0 bytes, mu_kind = PayloadWrite, mu_sequence = get64_at 9 bytes,
               mu_before_image = segment 25 before_length bytes,
               mu_after_image = drop (25 + before_length) bytes, mu_previous_page_lsn = 0\<rparr>)"

definition encode_page_allocate :: "PageId \<Rightarrow> error + byte list" where
  "encode_page_allocate i = (if \<not> is_valid i then Inl (WalError Invalid_allocation_page_id) else Inr (put64 i))"

definition decode_page_allocate :: "byte list \<Rightarrow> error + PageId" where
  "decode_page_allocate bytes =
     (if length bytes \<noteq> 8 then Inl (WalError Invalid_allocation_payload)
      else if \<not> is_valid (get64 bytes) then Inl (WalError Invalid_allocation_page_id)
      else Inr (get64 bytes))"

section \<open>The scanner\<close>

text \<open>
  The loop of \<open>read_records\<close>: \<open>input\<close> is what the stream has still to deliver, \<open>out\<close> the records
  read so far. The loop ends at the end of the file or inside an incomplete last record.
\<close>

function scan_records :: "byte list \<Rightarrow> wal_record list \<Rightarrow> error + wal_record list" where
  "scan_records input out =
     (let header = take kHeaderSize input in
      if length header = 0 then Inr out
      else if length header \<noteq> kHeaderSize then Inr out
      else let len = unat (get32_at 8 header) in
        if len < kMinimumRecordSize \<or> kMaxRecordSize < len then Inl (WalError Invalid_record_length)
        else let body = take (len - kHeaderSize) (drop kHeaderSize input) in
          if length body \<noteq> len - kHeaderSize then Inr out
          else case decode (header @ body) of
            Inl e \<Rightarrow> Inl e
          | Inr r \<Rightarrow>
              if out \<noteq> [] \<and> wr_lsn r \<le> wr_lsn (last out) then Inl (WalError Non_monotonic_lsn)
              else scan_records (drop len input) (out @ [r]))"
  by pat_completeness auto
termination by (relation "measure (\<lambda>(input, _). length input)") (auto simp: wal_size_defs)

declare scan_records.simps [simp del]

text \<open>\<open>None\<close>: the file cannot be opened for reading.\<close>

definition read_records :: "byte list option \<Rightarrow> error + wal_record list" where
  "read_records file = (case file of None \<Rightarrow> Inl (WalError Cannot_read_wal) | Some input \<Rightarrow> scan_records input [])"

section \<open>Well-formed records\<close>

definition record_ok :: "wal_record \<Rightarrow> bool" where
  "record_ok r \<longleftrightarrow> wr_lsn r \<noteq> 0 \<and> length (wr_payload r) \<le> kMaxRecordSize - kMinimumRecordSize"

text \<open>The bytes of a record, where \<open>encode\<close> accepts it.\<close>

definition record_bytes :: "wal_record \<Rightarrow> byte list" where
  "record_bytes r = wal_header r @ wr_payload r @ put32 (checksum (wal_header r @ wr_payload r))"

lemma type_code_range [simp]: "1 \<le> type_code t" "type_code t \<le> 5"
  by (cases t; simp)+

lemma type_of_type_code [simp]: "type_of_code (type_code t) = t"
  by (cases t) (simp_all add: type_of_code_def)

lemma type_code_of_code: "1 \<le> b \<Longrightarrow> b \<le> 5 \<Longrightarrow> type_code (type_of_code b) = b"
proof -
  assume "1 \<le> b" "b \<le> 5"
  then have "unat b \<in> {1..5}" by (auto simp: word_le_nat_alt)
  then have "unat b \<in> {1, 2, 3, 4, 5}" by auto
  then have "b \<in> {1, 2, 3, 4, 5}" by (auto simp: word_unat_eq_iff)
  then show ?thesis by (auto simp: type_of_code_def)
qed

lemma encode_iff: "encode r = Inr bs \<longleftrightarrow> record_ok r \<and> bs = record_bytes r"
  by (auto simp: encode_def record_ok_def record_bytes_def Let_def)

lemma encode_ok: "record_ok r \<Longrightarrow> encode r = Inr (record_bytes r)"
  by (simp add: encode_iff)

lemma length_wal_header [simp]: "length (wal_header r) = kHeaderSize"
  by (simp add: wal_header_def kMagic_wal_def kHeaderSize_def)

lemma length_record_bytes [simp]: "length (record_bytes r) = kMinimumRecordSize + length (wr_payload r)"
  by (simp add: record_bytes_def wal_size_defs)

end
