(* ===== verification/WalScan.thy ===== *)
theory WalScan
  imports WalRecords
begin

text \<open>
  Round trips of the log format: single records and payloads, detection of damaged records by the
  checksum, and the scanner on a log that ends with an incomplete record.
\<close>

unbundle bit_operations_syntax

section \<open>Fields of an encoded record\<close>

lemma wal_header_fields:
  "take 4 (wal_header r @ z) = kMagic_wal"
  "get16_at 4 (wal_header r @ z) = kVersion"
  "get16_at 6 (wal_header r @ z) = of_nat kHeaderSize"
  "get32_at 8 (wal_header r @ z) = of_nat (kMinimumRecordSize + length (wr_payload r))"
  "get64_at 12 (wal_header r @ z) = wr_lsn r"
  "get64_at 20 (wal_header r @ z) = wr_transaction_id r"
  "(wal_header r @ z) ! 28 = type_code (wr_type r)"
  "get32_at 32 (wal_header r @ z) = of_nat (length (wr_payload r))"
  by (simp_all add: wal_header_def kMagic_wal_def get16_at_def get32_at_def get64_at_def nth_append)

lemma record_lengths:
  assumes "record_ok r"
  shows "unat (of_nat (kMinimumRecordSize + length (wr_payload r)) :: uint32) = kMinimumRecordSize + length (wr_payload r)"
    "unat (of_nat (length (wr_payload r)) :: uint32) = length (wr_payload r)"
  using assms unfolding record_ok_def
  by (auto simp: unat_of_nat take_bit_nat_eq_self wal_size_defs simp del: of_nat_add)

lemma decode_record_bytes:
  assumes "record_ok r"
  shows "decode (record_bytes r) = Inr r"
proof -
  define out where "out = wal_header r @ wr_payload r"
  have bytes: "record_bytes r = wal_header r @ (wr_payload r @ put32 (checksum out))"
    by (simp add: record_bytes_def out_def)
  have out: "take (length (record_bytes r) - kChecksumSize) (record_bytes r) = out"
    and sum: "get32_at (length (record_bytes r) - kChecksumSize) (record_bytes r) = checksum out"
    by (simp_all add: record_bytes_def out_def get32_at_def wal_size_defs)
  have "drop kHeaderSize out = wr_payload r" by (simp add: out_def)
  moreover have "kMinimumRecordSize + length (wr_payload r) \<le> kMaxRecordSize" "wr_lsn r \<noteq> 0"
    using assms by (auto simp: record_ok_def wal_size_defs)
  moreover have "unat (of_nat kHeaderSize :: uint16) = kHeaderSize" by (simp add: kHeaderSize_def)
  moreover have "length kMagic_wal = 4" by (simp add: kMagic_wal_def)
  ultimately show ?thesis
    unfolding decode_def out sum Let_def
    by (simp only: bytes wal_header_fields) (simp add: record_lengths [OF assms] del: of_nat_add flip: bytes)
qed

section \<open>Damage\<close>

text \<open>
  One step of the checksum is injective in the running value and in the byte, so two inputs that
  differ in one byte have different checksums.
\<close>

lemma xor_cancel: "v XOR a = w XOR a \<longleftrightarrow> v = w" "a XOR v = a XOR w \<longleftrightarrow> v = w" for v w a :: "'a::len word"
  by (auto simp: bit_eq_iff bit_xor_iff)

lemma fnv_step_inject:
  fixes v w :: uint32
  assumes "(v XOR a) * 16777619 = (w XOR b) * 16777619"
  shows "v XOR a = w XOR b"
proof -
  have "(16777619 :: uint32) * 899433627 = 1" by (simp add: word_unat_eq_iff)
  then have "x * 16777619 * 899433627 = x" for x :: uint32 by (simp only: mult.assoc mult_1_right)
  then show ?thesis using assms by metis
qed

lemma fnv_fold_inject:
  fixes v w :: uint32
  assumes "fold (\<lambda>b v. (v XOR ucast b) * 16777619) bs v = fold (\<lambda>b v. (v XOR ucast b) * 16777619) bs w"
  shows "v = w"
  using assms
proof (induction bs arbitrary: v w)
  case Nil
  then show ?case by (simp only: fold_simps)
next
  case (Cons b bs)
  have "(v XOR ucast b) * 16777619 = (w XOR ucast b) * 16777619"
    using Cons.prems unfolding fold_simps by (rule Cons.IH)
  then have "v XOR ucast b = w XOR ucast b" by (rule fnv_step_inject)
  then show ?case by (simp only: xor_cancel)
qed

lemma ucast_byte_inject:
  assumes "(ucast (a :: byte) :: uint32) = ucast (b :: byte)"
  shows "a = b"
proof (rule bit_word_eqI)
  show "bit a n = bit b n" if "n < LENGTH(8)" for n
    using arg_cong [OF assms, of "\<lambda>x. bit x n"] that by (simp add: bit_simps)
qed

lemma checksum_one_byte:
  assumes "checksum (xs @ a # ys) = checksum (xs @ b # ys)"
  shows "a = b"
proof -
  define v where "v = fold (\<lambda>b v. (v XOR ucast b) * 16777619) xs (2166136261 :: uint32)"
  have "(v XOR ucast a) * 16777619 = (v XOR ucast b) * 16777619"
    using assms unfolding checksum_def fold_append fold_simps comp_def v_def by (rule fnv_fold_inject)
  then have "v XOR ucast a = v XOR (ucast b :: uint32)" by (rule fnv_step_inject)
  then have "(ucast a :: uint32) = ucast b" by (simp only: xor_cancel)
  then show ?thesis by (rule ucast_byte_inject)
qed

lemma checksum_update:
  assumes "i < length xs" "checksum (xs[i := b]) = checksum xs"
  shows "xs ! i = b"
proof (rule checksum_one_byte)
  show "checksum (take i xs @ xs ! i # drop (Suc i) xs) = checksum (take i xs @ b # drop (Suc i) xs)"
    using assms(2) unfolding upd_conv_take_nth_drop [OF assms(1)] id_take_nth_drop [OF assms(1), symmetric]
    by (rule sym)
qed

text \<open>What \<open>decode\<close> has checked of a record it accepts.\<close>

lemma decode_checks:
  assumes "decode bs = Inr r"
  shows "kMinimumRecordSize \<le> length bs" "length bs \<le> kMaxRecordSize" "take 4 bs = kMagic_wal"
    "get16_at 4 bs = kVersion" "unat (get16_at 6 bs) = kHeaderSize"
    "unat (get32_at 8 bs) = length bs" "unat (get32_at 32 bs) = length bs - kMinimumRecordSize"
    "checksum (take (length bs - 4) bs) = get32_at (length bs - 4) bs"
    "1 \<le> bs ! 28" "bs ! 28 \<le> 5" "get64_at 12 bs \<noteq> 0"
    "r = \<lparr>wr_lsn = get64_at 12 bs, wr_transaction_id = get64_at 20 bs, wr_type = type_of_code (bs ! 28),
          wr_payload = drop kHeaderSize (take (length bs - 4) bs)\<rparr>"
proof -
  have "length kMagic_wal = 4" by (simp add: kMagic_wal_def)
  with assms show "kMinimumRecordSize \<le> length bs" "length bs \<le> kMaxRecordSize" "take 4 bs = kMagic_wal"
    "get16_at 4 bs = kVersion" "unat (get16_at 6 bs) = kHeaderSize"
    "unat (get32_at 8 bs) = length bs" "unat (get32_at 32 bs) = length bs - kMinimumRecordSize"
    "checksum (take (length bs - 4) bs) = get32_at (length bs - 4) bs"
    "1 \<le> bs ! 28" "bs ! 28 \<le> 5" "get64_at 12 bs \<noteq> 0"
    "r = \<lparr>wr_lsn = get64_at 12 bs, wr_transaction_id = get64_at 20 bs, wr_type = type_of_code (bs ! 28),
          wr_payload = drop kHeaderSize (take (length bs - 4) bs)\<rparr>"
    by (simp_all add: decode_def Let_def kChecksumSize_def split: if_splits)
qed

lemma decode_record_ok: "decode bs = Inr r \<Longrightarrow> record_ok r"
  using decode_checks [of bs r] by (auto simp: record_ok_def wal_size_defs)

lemma decode_length: "decode bs = Inr r \<Longrightarrow> length (record_bytes r) = length bs"
  using decode_checks [of bs r] by (auto simp: wal_size_defs)

lemma get32_inject:
  assumes "length xs = 4" "length ys = 4" "get32 xs = get32 ys"
  shows "xs = ys"
proof -
  have "put32 (get32 xs) = xs" "put32 (get32 ys) = ys"
    using le32.put_get [of xs] le32.put_get [of ys] assms(1,2) by simp_all
  with assms(3) show ?thesis by metis
qed

lemma get32_at_update_tail:
  assumes "p \<le> i" "i < p + 4" "p + 4 = length bs" "get32_at p (bs[i := b]) = get32_at p bs"
  shows "bs ! i = b"
proof -
  have "drop p (bs[i := b]) = drop p bs"
    using assms(3,4) by (intro get32_inject) (auto simp: get32_at_def)
  then have "drop p (bs[i := b]) ! (i - p) = drop p bs ! (i - p)" by (rule arg_cong)
  with assms(1-3) show ?thesis by simp
qed

lemma decode_one_byte:
  assumes "decode bs = Inr r" "decode (bs[i := b]) = Inr r'" "i < length bs"
  shows "bs ! i = b"
proof -
  note c = decode_checks(1,8) [OF assms(1)] and c' = decode_checks(8) [OF assms(2)]
  define n where "n = length bs - 4"
  have n: "n + 4 = length bs" using c(1) by (simp add: n_def wal_size_defs)
  show ?thesis
  proof (cases "i < n")
    case True
    have "get32_at n (bs[i := b]) = get32_at n bs" using True by (simp add: get32_at_def)
    with c c' True have "checksum ((take n bs)[i := b]) = checksum (take n bs)"
      by (simp add: n_def take_update_swap)
    with True show ?thesis using checksum_update [of i "take n bs" b] n by simp
  next
    case False
    then have "take n (bs[i := b]) = take n bs" by simp
    with c c' have "get32_at n (bs[i := b]) = get32_at n bs" by (simp add: n_def)
    with False assms(3) n show ?thesis by (intro get32_at_update_tail) simp_all
  qed
qed

section \<open>Scanning\<close>

text \<open>The bytes of a log that holds the records \<open>rs\<close>, and what the sequence numbers of a log satisfy.\<close>

definition log_bytes :: "wal_record list \<Rightarrow> byte list" where
  "log_bytes rs = concat (map record_bytes rs)"

definition increasing :: "wal_record list \<Rightarrow> bool" where
  "increasing rs \<longleftrightarrow> sorted_wrt (\<lambda>a b. wr_lsn a < wr_lsn b) rs"

definition log_ok :: "wal_record list \<Rightarrow> bool" where
  "log_ok rs \<longleftrightarrow> (\<forall>r \<in> set rs. record_ok r) \<and> increasing rs"

lemma log_bytes_simps [simp]:
  "log_bytes [] = []" "log_bytes (r # rs) = record_bytes r @ log_bytes rs"
  "log_bytes (rs @ rs') = log_bytes rs @ log_bytes rs'"
  by (simp_all add: log_bytes_def)

lemma log_ok_Nil [simp]: "log_ok []"
  by (simp add: log_ok_def increasing_def)

lemma log_ok_snoc:
  "log_ok (rs @ [r]) \<longleftrightarrow> log_ok rs \<and> record_ok r \<and> (rs = [] \<or> wr_lsn (last rs) < wr_lsn r)"
proof (cases rs rule: rev_cases)
  case (snoc qs q)
  have "\<forall>x \<in> set qs. wr_lsn x < wr_lsn r" if "wr_lsn q < wr_lsn r" "\<forall>x \<in> set qs. wr_lsn x < wr_lsn q"
    using that by (meson less_trans)
  then show ?thesis by (auto simp: snoc log_ok_def increasing_def sorted_wrt_append)
qed (auto simp: log_ok_def increasing_def)

lemma log_ok_last: "log_ok rs \<Longrightarrow> r \<in> set rs \<Longrightarrow> wr_lsn r \<le> wr_lsn (last rs)"
  by (cases rs rule: rev_cases) (auto simp: log_ok_def increasing_def sorted_wrt_append)

lemma record_bytes_split:
  assumes "record_ok r"
  shows "take kHeaderSize (record_bytes r @ z) = wal_header r"
    "unat (get32_at 8 (wal_header r)) = length (record_bytes r)"
    "take (length (record_bytes r) - kHeaderSize) (drop kHeaderSize (record_bytes r @ z)) = drop kHeaderSize (record_bytes r)"
    "wal_header r @ drop kHeaderSize (record_bytes r) = record_bytes r"
    "kMinimumRecordSize \<le> length (record_bytes r)" "length (record_bytes r) \<le> kMaxRecordSize"
proof -
  show "unat (get32_at 8 (wal_header r)) = length (record_bytes r)"
    using wal_header_fields(4) [of r "[]"] record_lengths(1) [OF assms] by simp
qed (use assms in \<open>simp_all add: record_bytes_def record_ok_def wal_size_defs\<close>)

lemma kHeaderSize_pos [simp]: "0 < kHeaderSize" "kHeaderSize \<noteq> 0"
  by (simp_all add: kHeaderSize_def)

lemma scan_step:
  assumes "header = take kHeaderSize input" "length header = kHeaderSize" "len = unat (get32_at 8 header)"
    "kMinimumRecordSize \<le> len" "len \<le> kMaxRecordSize"
    "body = take (len - kHeaderSize) (drop kHeaderSize input)"
  shows "scan_records input out =
    (if length body \<noteq> len - kHeaderSize then Inr out
     else case decode (header @ body) of
       Inl e \<Rightarrow> Inl e
     | Inr r \<Rightarrow> if out \<noteq> [] \<and> wr_lsn r \<le> wr_lsn (last out) then Inl (WalError Non_monotonic_lsn)
               else scan_records (drop len input) (out @ [r]))"
proof -
  have "length header \<noteq> 0" "\<not> (len < kMinimumRecordSize \<or> kMaxRecordSize < len)"
    using assms(2,4,5) kHeaderSize_pos by linarith+
  with assms(2) show ?thesis
    unfolding scan_records.simps [of input out] Let_def assms(1) [symmetric] assms(3) [symmetric] assms(6) [symmetric]
    by simp
qed

lemma scan_record:
  assumes "record_ok r" "out = [] \<or> wr_lsn (last out) < wr_lsn r"
  shows "scan_records (record_bytes r @ rest) out = scan_records rest (out @ [r])"
proof -
  note b = record_bytes_split [OF assms(1)]
  have "drop (length (record_bytes r)) (record_bytes r @ rest) = rest" by simp
  then show ?thesis
    using scan_step [OF b(1) [symmetric] length_wal_header b(2) [symmetric] b(5,6) b(3) [symmetric], of rest out]
      decode_record_bytes [OF assms(1)] assms(2) b(4)
    by (auto simp: not_le simp del: length_record_bytes drop_append)
qed

lemma scan_torn:
  assumes "record_ok r" "n < length (record_bytes r)"
  shows "scan_records (take n (record_bytes r)) out = Inr out"
proof (cases "n < kHeaderSize")
  case True
  then have "length (take kHeaderSize (take n (record_bytes r))) \<noteq> kHeaderSize" by simp
  then show ?thesis by (subst scan_records.simps) (simp only: Let_def if_True not_False_eq_True if_cancel split: if_split)
next
  case False
  note b = record_bytes_split [OF assms(1)]
  have h: "take kHeaderSize (take n (record_bytes r)) = wal_header r"
    using b(1) [of "[]"] False by (simp add: min_def)
  have "length (take (length (record_bytes r) - kHeaderSize) (drop kHeaderSize (take n (record_bytes r)))) \<noteq>
      length (record_bytes r) - kHeaderSize"
    using assms(2) False by simp
  then show ?thesis
    unfolding scan_step [OF h [symmetric] length_wal_header b(2) [symmetric] b(5,6) refl, of out] by (rule if_P)
qed

lemma scan_log:
  "log_ok (out @ rs) \<Longrightarrow> scan_records (log_bytes rs @ tail) out = scan_records tail (out @ rs)"
proof (induction rs arbitrary: out)
  case (Cons r rs)
  have ok: "log_ok ((out @ [r]) @ rs)" using Cons.prems by simp
  then have "log_ok (out @ [r])" by (auto simp: log_ok_def increasing_def sorted_wrt_append)
  then have "scan_records (record_bytes r @ log_bytes rs @ tail) out = scan_records (log_bytes rs @ tail) (out @ [r])"
    by (intro scan_record) (simp_all add: log_ok_snoc)
  with Cons.IH [OF ok] show ?case by simp
qed simp

lemma scan_end [simp]: "scan_records [] out = Inr out"
  by (subst scan_records.simps) simp

lemma read_records_torn:
  assumes "log_ok rs" "record_ok r" "n < length (record_bytes r)"
  shows "read_records (Some (log_bytes rs @ take n (record_bytes r))) = Inr rs"
  using scan_log [of "[]" rs] assms scan_torn [OF assms(2,3)] by (simp add: read_records_def)

lemma read_records_log: "log_ok rs \<Longrightarrow> read_records (Some (log_bytes rs)) = Inr rs"
  using scan_log [of "[]" rs "[]"] by (simp add: read_records_def)

text \<open>
  Whatever bytes the file holds, a scan that returns has read well-formed records with increasing
  sequence numbers from a prefix of the file of the length the records encode to, and reads the same
  records from that prefix alone.
\<close>

lemma scan_sound:
  "scan_records input out = Inr rs \<Longrightarrow> log_ok out \<Longrightarrow>
     log_ok rs \<and> (\<exists>n \<le> length input. length (log_bytes rs) = length (log_bytes out) + n \<and>
       scan_records (take n input) out = Inr rs)"
proof (induction input out rule: scan_records.induct)
  case (1 input out)
  define header where "header = take kHeaderSize input"
  define len where "len = unat (get32_at 8 header)"
  define body where "body = take (len - kHeaderSize) (drop kHeaderSize input)"
  note unfold = scan_records.simps [of input out, folded header_def, unfolded Let_def, folded header_def, folded len_def, folded body_def]
  show ?case
  proof (cases "rs = out")
    case True
    then show ?thesis using "1.prems"(2) by (intro conjI exI [of _ 0]) simp_all
  next
    case False
    with "1.prems"(1) obtain r where guards: "length header = kHeaderSize"
        "\<not> (len < kMinimumRecordSize \<or> kMaxRecordSize < len)" "length body = len - kHeaderSize"
      and r: "decode (header @ body) = Inr r" "\<not> (out \<noteq> [] \<and> wr_lsn r \<le> wr_lsn (last out))"
      and rec: "scan_records (drop len input) (out @ [r]) = Inr rs"
      unfolding unfold by (auto split: if_splits sum.splits)
    have ok: "log_ok (out @ [r])" using "1.prems"(2) decode_record_ok [OF r(1)] r(2) by (auto simp: log_ok_snoc)
    have hb: "header @ body = take len input"
      using guards by (simp add: header_def body_def wal_size_defs flip: take_add)
    have len: "len \<le> length input" "length (record_bytes r) = len"
      using guards decode_length [OF r(1)] by (auto simp: hb header_def body_def wal_size_defs)
    have "log_ok rs \<and> (\<exists>n \<le> length (drop len input). length (log_bytes rs) = length (log_bytes (out @ [r])) + n \<and>
        scan_records (take n (drop len input)) (out @ [r]) = Inr rs)"
      using "1.IH" [OF header_def _ _ len_def _ body_def _ r] guards rec ok by auto
    then obtain n where n: "log_ok rs" "n \<le> length (drop len input)"
      "length (log_bytes rs) = length (log_bytes (out @ [r])) + n"
      "scan_records (take n (drop len input)) (out @ [r]) = Inr rs" by blast
    have "scan_records (take (len + n) input) out = Inr rs"
    proof -
      have "take kHeaderSize (take (len + n) input) = header"
        "take (len - kHeaderSize) (drop kHeaderSize (take (len + n) input)) = body"
        "drop len (take (len + n) input) = take n (drop len input)"
        using guards by (simp_all add: header_def body_def wal_size_defs drop_take min_def)
      with guards r n(4) show ?thesis
        using scan_step [of header "take (len + n) input" len body out] by (simp add: len_def)
    qed
    with n len show ?thesis by (intro conjI exI [of _ "len + n"]) (simp_all del: length_record_bytes)
  qed
qed

end
