(* ===== verification/LogManager.thy ===== *)
theory LogManager
  imports WalScan Streams
begin

text \<open>
  The log manager (\<^verbatim>\<open>src/src/storage/log_manager.cpp\<close>): its state and every operation, from the
  constructor that scans the file and discards a torn tail to the appends and the flush. The
  methods take a mutex for their whole duration, so they are modelled as atomic steps. On systems
  other than Windows \<^verbatim>\<open>flush\<close> only flushes the stream; that is the modelled branch, and a record
  counts as stored once the stream has accepted it.
\<close>

section \<open>State\<close>

record log_manager =
  lm_file :: fstream
  lm_next_lsn :: uint64
  lm_durable_lsn :: uint64
  lm_fail_next_flush :: bool

definition lm_io :: "(fstream \<Rightarrow> fstream) \<Rightarrow> (log_manager, unit) op" where
  "lm_io f = modify (\<lambda>lm. lm\<lparr>lm_file := f (lm_file lm)\<rparr>)"

section \<open>Appending and flushing\<close>

text \<open>The sequence number is consumed before the record is encoded, so a throw leaves a gap.\<close>

definition append_wal :: "WalRecordType \<Rightarrow> TransactionId \<Rightarrow> byte list \<Rightarrow> (log_manager, uint64) op" where
  "append_wal t tid payload =
     bindE (gets lm_next_lsn) (\<lambda>lsn.
     bindE (modify (\<lambda>lm. lm\<lparr>lm_next_lsn := lsn + 1\<rparr>)) (\<lambda>_.
     bindE (lift_result (encode \<lparr>wr_lsn = lsn, wr_transaction_id = tid, wr_type = t, wr_payload = payload\<rparr>)) (\<lambda>encoded.
     bindE (lm_io (\<lambda>fs. fs_flush (fs_write (int (length (contents fs))) encoded (fs_clear fs)))) (\<lambda>_.
     bindE (gets (\<lambda>lm. good (lm_file lm))) (\<lambda>ok.
     bindE (require ok (WalError Append_failed)) (\<lambda>_.
     ret lsn))))))"

definition append_begin :: "TransactionId \<Rightarrow> (log_manager, uint64) op" where
  "append_begin tid = append_wal Begin tid []"

definition append_physical_mutation :: "TransactionId \<Rightarrow> physical_mutation \<Rightarrow> (log_manager, uint64) op" where
  "append_physical_mutation tid m =
     bindE (lift_result (encode_physical_mutation m)) (\<lambda>payload. append_wal PhysicalMutation tid payload)"

definition append_commit :: "TransactionId \<Rightarrow> (log_manager, uint64) op" where
  "append_commit tid = append_wal Commit tid []"

definition append_abort :: "TransactionId \<Rightarrow> (log_manager, uint64) op" where
  "append_abort tid = append_wal Abort tid []"

definition append_page_allocate :: "TransactionId \<Rightarrow> PageId \<Rightarrow> (log_manager, uint64) op" where
  "append_page_allocate tid i =
     bindE (lift_result (encode_page_allocate i)) (\<lambda>payload. append_wal PageAllocate tid payload)"

definition log_begin :: "TransactionId \<Rightarrow> (log_manager, unit) op" where
  "log_begin tid = bindE (append_begin tid) (\<lambda>_. ret ())"

definition log_physical_mutation :: "TransactionId \<Rightarrow> physical_mutation \<Rightarrow> (log_manager, uint64) op" where
  "log_physical_mutation tid m = append_physical_mutation tid m"

definition wal_flush :: "(log_manager, unit) op" where
  "wal_flush =
     bindE (gets lm_fail_next_flush) (\<lambda>fail.
     if fail then
       bindE (modify (\<lambda>lm. lm\<lparr>lm_fail_next_flush := False\<rparr>)) (\<lambda>_. throw (WalError Forced_flush_failure))
     else
       bindE (lm_io fs_flush) (\<lambda>_.
       bindE (gets (\<lambda>lm. good (lm_file lm))) (\<lambda>ok.
       bindE (require ok (WalError Flush_failed)) (\<lambda>_.
       modify (\<lambda>lm. lm\<lparr>lm_durable_lsn := lm_next_lsn lm - 1\<rparr>)))))"

definition fail_next_flush_for_testing :: "(log_manager, unit) op" where
  "fail_next_flush_for_testing = modify (\<lambda>lm. lm\<lparr>lm_fail_next_flush := True\<rparr>)"

definition close_log_manager :: "log_manager \<Rightarrow> log_manager" where
  "close_log_manager lm = snd (wal_flush lm)"

section \<open>Opening\<close>

text \<open>The failures the file system may report while the log is opened, one per call.\<close>

datatype wal_fault = Wal_inspect | Wal_create | Wal_open | Wal_read | Wal_size | Wal_discard | Wal_reopen | Wal_seek

definition records :: "bool \<Rightarrow> (log_manager, wal_record list) op" where
  "records readable =
     bindE (gets (\<lambda>lm. contents (lm_file lm))) (\<lambda>c.
     lift_result (read_records (if readable then Some c else None)))"

fun valid_bytes :: "wal_record list \<Rightarrow> error + nat" where
  "valid_bytes [] = Inr 0"
| "valid_bytes (r # rs) =
     (case encode r of Inl e \<Rightarrow> Inl e
      | Inr bs \<Rightarrow> (case valid_bytes rs of Inl e \<Rightarrow> Inl e | Inr n \<Rightarrow> Inr (length bs + n)))"

definition resize_file :: "nat \<Rightarrow> byte list \<Rightarrow> byte list" where
  "resize_file n c = take n c @ replicate (n - length c) 0"

text \<open>
  \<open>missing\<close>: the file does not exist. If \<^verbatim>\<open>exists\<close> itself fails it answers false, so the code goes on
  to open the file for output, which truncates it, and only then looks at the error.
\<close>

definition open_and_scan :: "wal_fault option \<Rightarrow> bool \<Rightarrow> (log_manager, unit) op" where
  "open_and_scan fault missing =
     bindE (require (\<not> (missing \<and> fault = Some Wal_create)) (WalError Cannot_create_wal)) (\<lambda>_.
     bindE (lm_io (\<lambda>fs. if fault = Some Wal_inspect then fs\<lparr>contents := []\<rparr> else fs)) (\<lambda>_.
     bindE (require (fault \<noteq> Some Wal_inspect) (WalError Cannot_inspect_wal)) (\<lambda>_.
     bindE (require (fault \<noteq> Some Wal_open) (WalError Cannot_open_wal)) (\<lambda>_.
     bindE (records (fault \<noteq> Some Wal_read)) (\<lambda>rs.
     bindE (modify (\<lambda>lm. lm\<lparr>lm_next_lsn := (if rs \<noteq> [] then wr_lsn (last rs) + 1 else lm_next_lsn lm),
       lm_durable_lsn := (if rs = [] then 0 else wr_lsn (last rs))\<rparr>)) (\<lambda>_.
     bindE (lift_result (valid_bytes rs)) (\<lambda>valid.
     bindE (require (fault \<noteq> Some Wal_size) (WalError Cannot_determine_wal_size)) (\<lambda>_.
     bindE (gets (\<lambda>lm. length (contents (lm_file lm)))) (\<lambda>actual.
     bindE (if actual \<noteq> valid then
         bindE (require (fault \<noteq> Some Wal_discard) (WalError Cannot_discard_tail)) (\<lambda>_.
         bindE (lm_io (\<lambda>fs. fs\<lparr>contents := resize_file valid (contents fs)\<rparr>)) (\<lambda>_.
         require (fault \<noteq> Some Wal_reopen) (WalError Cannot_reopen_wal)))
       else ret ()) (\<lambda>_.
     bindE (lm_io fs_clear) (\<lambda>_.
     require (fault \<noteq> Some Wal_seek) (WalError Cannot_seek_append))))))))))))"

text \<open>The constructor, on a path that holds \<open>existing\<close>, in an environment with the given outcomes.\<close>

definition open_log_manager ::
  "wal_fault option \<Rightarrow> byte list option \<Rightarrow> io_event list \<Rightarrow> (error + unit) \<times> log_manager" where
  "open_log_manager fault existing outs =
     open_and_scan fault (existing = None)
       \<lparr>lm_file = \<lparr>contents = (case existing of None \<Rightarrow> [] | Some c \<Rightarrow> c), good = True, outcomes = outs\<rparr>,
        lm_next_lsn = 1, lm_durable_lsn = 0, lm_fail_next_flush = False\<rparr>"

section \<open>The invariant\<close>

text \<open>
  \<open>wf_log lm rs\<close>: the file holds exactly the records \<open>rs\<close>, in increasing order, all numbered below
  the next sequence number, and the durable number is below it as well.
\<close>

definition wf_log :: "log_manager \<Rightarrow> wal_record list \<Rightarrow> bool" where
  "wf_log lm rs \<longleftrightarrow> contents (lm_file lm) = log_bytes rs \<and> log_ok rs \<and>
     (\<forall>r \<in> set rs. wr_lsn r < lm_next_lsn lm) \<and> lm_durable_lsn lm < lm_next_lsn lm"

text \<open>\<open>torn_log c rs\<close>: \<open>c\<close> is a log with the records \<open>rs\<close> and possibly an incomplete record after them.\<close>

definition torn_log :: "byte list \<Rightarrow> wal_record list \<Rightarrow> bool" where
  "torn_log c rs \<longleftrightarrow> log_ok rs \<and>
     (\<exists>r n. record_ok r \<and> n < length (record_bytes r) \<and> c = log_bytes rs @ take n (record_bytes r))"

section \<open>Specifications\<close>

lemma wf_log_torn: "wf_log lm rs \<Longrightarrow> torn_log (contents (lm_file lm)) rs"
proof -
  assume w: "wf_log lm rs"
  define r where "r = \<lparr>wr_lsn = 1, wr_transaction_id = 0, wr_type = Begin, wr_payload = []\<rparr>"
  have "record_ok r" "0 < length (record_bytes r)" by (simp_all add: r_def record_ok_def wal_size_defs)
  with w show ?thesis unfolding torn_log_def wf_log_def by (intro conjI exI [of _ r] exI [of _ 0]) simp_all
qed

lemma read_torn_log: "torn_log c rs \<Longrightarrow> read_records (Some c) = Inr rs"
  by (auto simp: torn_log_def read_records_torn)

lemma append_wal_spec:
  fixes tid t payload
  defines "r lm \<equiv> \<lparr>wr_lsn = lm_next_lsn lm, wr_transaction_id = tid, wr_type = t, wr_payload = payload\<rparr>"
  assumes w: "wf_log lm rs" and room: "lm_next_lsn lm + 1 \<noteq> 0"
  shows "wp (append_wal t tid payload)
     (\<lambda>lsn lm'. lsn = lm_next_lsn lm \<and> wf_log lm' (rs @ [r lm]) \<and> lm_next_lsn lm' = lsn + 1 \<and>
        lm_durable_lsn lm' = lm_durable_lsn lm \<and> lm_fail_next_flush lm' = lm_fail_next_flush lm \<and>
        good (lm_file lm') \<and> (fault_free (lm_file lm) \<longrightarrow> fault_free (lm_file lm')))
     (\<lambda>_ lm'. lm_durable_lsn lm' = lm_durable_lsn lm \<and> lm_next_lsn lm' = lm_next_lsn lm + 1 \<and>
        (torn_log (contents (lm_file lm')) rs \<or> wf_log lm' (rs @ [r lm])) \<and>
        (fault_free (lm_file lm) \<longrightarrow> \<not> record_ok (r lm) \<and> wf_log lm' rs)) lm"
proof (cases "record_ok (r lm)")
  case False
  then obtain e where e: "encode (r lm) = Inl e" by (cases "encode (r lm)") (auto simp: encode_iff)
  have "wf_log (lm\<lparr>lm_next_lsn := lm_next_lsn lm + 1\<rparr>) rs"
    using w word_less_add_one(1) [OF room] by (auto simp: wf_log_def intro: less_trans)
  then show ?thesis
    using e w wf_log_torn [OF w] False unfolding append_wal_def by (simp add: wp_simps r_def [symmetric])
next
  case True
  define fs where "fs = fs_write (int (length (contents (lm_file lm)))) (record_bytes (r lm)) (fs_clear (lm_file lm))"
  define lm' where "lm' = lm\<lparr>lm_next_lsn := lm_next_lsn lm + 1, lm_file := fs_flush fs\<rparr>"
  have lt: "lm_next_lsn lm < lm_next_lsn lm + 1" using room by (rule word_less_add_one)
  have "rs = [] \<or> wr_lsn (last rs) < lm_next_lsn lm" using w unfolding wf_log_def by (metis last_in_set)
  then have snoc: "log_ok (rs @ [r lm])" using w True by (auto simp: log_ok_snoc wf_log_def r_def)
  have wf: "wf_log lm' (rs @ [r lm])" if "contents fs = contents (lm_file lm) @ record_bytes (r lm)"
    using w that snoc lt unfolding wf_log_def lm'_def by (auto simp: r_def intro: less_trans)
  obtain n where n: "contents fs = contents (lm_file lm) @ take n (record_bytes (r lm))"
    using fs_write_contents [of "int (length (contents (lm_file lm)))" "record_bytes (r lm)" "fs_clear (lm_file lm)"]
    by (auto simp: fs_def write_bytes_append)
  have bad: "torn_log (contents (lm_file lm')) rs \<or> wf_log lm' (rs @ [r lm])"
  proof (cases "n < length (record_bytes (r lm))")
    case True
    with n w \<open>record_ok (r lm)\<close> show ?thesis unfolding torn_log_def wf_log_def lm'_def by auto
  next
    case False
    then show ?thesis using wf n by simp
  qed
  have fine: "contents fs = contents (lm_file lm) @ record_bytes (r lm)" if "good (fs_flush fs)"
    using fs_write_ok [OF fs_flush_good [OF that, unfolded fs_def]] by (simp add: fs_def write_bytes_append)
  have ff: "good (fs_flush fs) \<and> fault_free (fs_flush fs)" if "fault_free (lm_file lm)"
    using that fs_write_fault_free [of "fs_clear (lm_file lm)"] fs_flush_fault_free by (simp add: fs_def)
  have run: "append_wal t tid payload lm =
      (if good (fs_flush fs) then (Inr (lm_next_lsn lm), lm') else (Inl (WalError Append_failed), lm'))"
    unfolding append_wal_def
    by (simp add: bindE_def gets_def modify_def lift_result_def lm_io_def require_def ret_def throw_def
        encode_ok [OF True] r_def [symmetric] fs_def [symmetric] lm'_def)
  show ?thesis
    using bad wf fine ff unfolding wp_def run by (auto simp: lm'_def)
qed

lemma wal_flush_spec:
  assumes "wf_log lm rs"
  shows "wp wal_flush
     (\<lambda>_ lm'. wf_log lm' rs \<and> lm_durable_lsn lm' = lm_next_lsn lm - 1 \<and> lm_next_lsn lm' = lm_next_lsn lm \<and>
        good (lm_file lm') \<and> (fault_free (lm_file lm) \<longrightarrow> fault_free (lm_file lm')))
     (\<lambda>_ lm'. wf_log lm' rs \<and> lm_durable_lsn lm' = lm_durable_lsn lm \<and> lm_next_lsn lm' = lm_next_lsn lm \<and>
        lm_fail_next_flush lm' = False \<and>
        (fault_free (lm_file lm) \<and> good (lm_file lm) \<longrightarrow> lm_fail_next_flush lm)) lm"
proof -
  have "lm_next_lsn lm \<noteq> 0" using assms by (auto simp: wf_log_def)
  then have "lm_next_lsn lm - 1 < lm_next_lsn lm" using word_less_add_one(1) [of "lm_next_lsn lm - 1"] by simp
  then show ?thesis
    using assms fs_flush_fault_free [of "lm_file lm"]
    unfolding wal_flush_def lm_io_def by (auto simp: wp_simps wf_log_def)
qed

lemma valid_bytes_ok: "\<forall>r \<in> set rs. record_ok r \<Longrightarrow> valid_bytes rs = Inr (length (log_bytes rs))"
  by (induction rs) (simp_all add: encode_ok)

lemma open_log_manager_scanned:
  assumes "read_records (Some (case existing of None \<Rightarrow> [] | Some c \<Rightarrow> c)) = Inr rs"
  shows "open_log_manager None existing outs =
    (Inr (), \<lparr>lm_file = \<lparr>contents = take (length (log_bytes rs)) (case existing of None \<Rightarrow> [] | Some c \<Rightarrow> c),
        good = True, outcomes = outs\<rparr>,
      lm_next_lsn = (if rs = [] then 1 else wr_lsn (last rs) + 1),
      lm_durable_lsn = (if rs = [] then 0 else wr_lsn (last rs)), lm_fail_next_flush = False\<rparr>)"
proof -
  define c where "c = (case existing of None \<Rightarrow> [] | Some c \<Rightarrow> c)"
  have "log_ok rs" and le: "length (log_bytes rs) \<le> length c"
    using scan_sound [of c "[]" rs] assms by (auto simp: read_records_def c_def [symmetric])
  then have v: "valid_bytes rs = Inr (length (log_bytes rs))" by (intro valid_bytes_ok) (simp add: log_ok_def)
  from le assms v show ?thesis
    unfolding open_log_manager_def open_and_scan_def records_def c_def [symmetric]
    by (auto simp: bindE_def require_def ret_def lm_io_def modify_def gets_def lift_result_def resize_file_def
        fs_clear_def)
qed

lemma open_torn_log:
  assumes "torn_log c rs" "rs = [] \<or> wr_lsn (last rs) + 1 \<noteq> 0"
  obtains lm where "open_log_manager None (Some c) outs = (Inr (), lm)" "wf_log lm rs"
    "contents (lm_file lm) = log_bytes rs" "good (lm_file lm)"
    "lm_next_lsn lm = (if rs = [] then 1 else wr_lsn (last rs) + 1)"
    "lm_durable_lsn lm = (if rs = [] then 0 else wr_lsn (last rs))"
proof -
  define lm where "lm = \<lparr>lm_file = \<lparr>contents = take (length (log_bytes rs)) c, good = True, outcomes = outs\<rparr>,
      lm_next_lsn = (if rs = [] then 1 else wr_lsn (last rs) + 1),
      lm_durable_lsn = (if rs = [] then 0 else wr_lsn (last rs)), lm_fail_next_flush = False\<rparr>"
  have o: "open_log_manager None (Some c) outs = (Inr (), lm)"
    using open_log_manager_scanned [of "Some c" rs outs] read_torn_log [OF assms(1)] by (simp add: lm_def)
  have c: "take (length (log_bytes rs)) c = log_bytes rs" and ok: "log_ok rs"
    using assms(1) by (auto simp: torn_log_def)
  have "wf_log lm rs"
  proof (cases "rs = []")
    case False
    then have "wr_lsn (last rs) < wr_lsn (last rs) + 1" using assms(2) by (intro word_less_add_one) simp
    then show ?thesis using False log_ok_last [OF ok] c ok by (auto simp: wf_log_def lm_def intro: le_less_trans)
  qed (simp add: wf_log_def lm_def)
  with o c show thesis by (intro that [of lm]) (simp_all add: lm_def)
qed

end
