(* ===== verification/PageStore.thy ===== *)
theory PageStore
  imports PageManager
begin

text \<open>
  Facts about the page manager: the byte layout of pages and of the catalog, the invariant
  \<open>wf_pm\<close> that every operation keeps even when the file fails under it, and the contract
  \<open>page_store\<close> the buffer pool is proved against.
\<close>

unbundle bit_operations_syntax

section \<open>Page numbers and file offsets\<close>

definition slot :: "PageId \<Rightarrow> nat" where
  "slot i = (unat i + 1) * kPageSize"

lemma offset_for_cases:
  "offset_for i =
     (if i = kInvalidValue then Inl (StorageError Invalid_page_id)
      else if unat i \<ge> 2 ^ 51 then Inl (StorageError Offset_not_representable)
      else if unat i = 2 ^ 51 - 1 then Inr (- (2 ^ 63))
      else Inr (int (slot i)))"
proof -
  have d: "kMaxOffset div of_nat kPageSize = (0x7FFFFFFFFFFFF :: uint64)"
    by (simp add: kMaxOffset_def kPageSize_def)
  have "i > kMaxOffset div of_nat kPageSize \<longleftrightarrow> unat i \<ge> 2 ^ 51"
    unfolding d by (simp add: word_less_nat_alt not_le [symmetric]) linarith
  moreover have "sint ((i + 1) * of_nat kPageSize) =
      (if unat i = 2 ^ 51 - 1 then - (2 ^ 63) else int (slot i))" if "unat i < 2 ^ 51"
  proof -
    have "unat (i + 1) = unat i + 1"
      using that by (subst unat_add_lem [THEN iffD1]) auto
    then have "unat ((i + 1) * of_nat kPageSize) = (unat i + 1) * kPageSize"
      using that by (subst unat_mult_lem [THEN iffD1]) (auto simp: kPageSize_def)
    then have u: "uint ((i + 1) * of_nat kPageSize) = int (slot i)"
      unfolding slot_def uint_nat by (rule arg_cong)
    show ?thesis
    proof (cases "unat i = 2 ^ 51 - 1")
      case True
      then have "int (slot i) = 9223372036854775808"
        by (simp only: slot_def kPageSize_def) simp
      with True show ?thesis by (simp add: sint_uint u)
    next
      case False
      with that have "slot i < 2 ^ 63" by (simp add: slot_def kPageSize_def)
      then have "int (slot i) < 2 ^ 63" by simp
      then have "signed_take_bit 63 (int (slot i)) = int (slot i)"
        by (intro signed_take_bit_int_eq_self) auto
      with False show ?thesis by (simp add: sint_uint u)
    qed
  qed
  ultimately show ?thesis
    by (auto simp: offset_for_def is_valid_def)
qed


lemma unat_of_nat_uint64 [simp]: "n < 2 ^ 64 \<Longrightarrow> unat (of_nat n :: uint64) = n"
  by (simp add: unat_of_nat take_bit_nat_eq_self)

lemma offset_for_small:
  assumes "unat i < kCatalogBits"
  shows "offset_for i = Inr (int (slot i))"
proof -
  have "unat i < 32576" using assms by (simp add: catalog_defs)
  then show ?thesis by (auto simp: offset_for_cases kInvalidValue_def)
qed

lemma valid_small: "unat i < kCatalogBits \<Longrightarrow> is_valid i"
  by (auto simp: is_valid_def kInvalidValue_def catalog_defs)

lemma slot_disjoint: "i \<noteq> j \<Longrightarrow> slot i + kPageSize \<le> slot j \<or> slot j + kPageSize \<le> slot i"
proof -
  assume "i \<noteq> j"
  then have "unat i \<noteq> unat j" by (simp add: word_unat_eq_iff)
  then show ?thesis by (auto simp: slot_def kPageSize_def)
qed

lemma slot_after_catalog: "kPageSize \<le> slot i"
  by (simp add: slot_def)

lemma slot_bound: "unat i < n \<Longrightarrow> slot i + kPageSize \<le> (n + 1) * kPageSize"
  by (simp add: slot_def kPageSize_def)

section \<open>The allocation bitmap\<close>

lemma and_shifted_one: "w AND 2 ^ k \<noteq> 0 \<longleftrightarrow> bit w k" for w :: "'a::len word"
  by (simp add: and_exp_eq_0_iff_not_bit)

lemma bit_set_iff: "bit_set bm i \<longleftrightarrow> bit (bm ! (unat i div 8)) (unat i mod 8)"
  by (simp add: bit_set_def and_shifted_one unat_div_distrib unat_mod_distrib)

lemma div_mod8_eq: "a div 8 = b div 8 \<Longrightarrow> a mod 8 = b mod 8 \<Longrightarrow> a = b" for a b :: nat
  by (metis div_mult_mod_eq)

lemma bit_set_activate:
  assumes "unat i div 8 < length bm"
  shows "bit_set (bm[unat (i div 8) := bm ! (unat (i div 8)) OR push_bit (unat (i mod 8)) 1]) j \<longleftrightarrow>
         j = i \<or> bit_set bm j"
proof (cases "unat j div 8 = unat i div 8")
  case True
  then have "unat j mod 8 = unat i mod 8 \<longleftrightarrow> j = i"
    using div_mod8_eq [of "unat j" "unat i"] by (auto simp: word_unat_eq_iff)
  with True assms show ?thesis
    by (auto simp: bit_set_iff unat_div_distrib unat_mod_distrib bit_simps)
next
  case False
  then show ?thesis
    by (auto simp: bit_set_iff unat_div_distrib)
qed

lemma bit_set_deactivate:
  assumes "unat i div 8 < length bm"
  shows "bit_set (bm[unat (i div 8) := bm ! (unat (i div 8)) AND NOT (push_bit (unat (i mod 8)) 1)]) j \<longleftrightarrow>
         j \<noteq> i \<and> bit_set bm j"
proof (cases "unat j div 8 = unat i div 8")
  case True
  then have "unat j mod 8 = unat i mod 8 \<longleftrightarrow> j = i"
    using div_mod8_eq [of "unat j" "unat i"] by (auto simp: word_unat_eq_iff)
  with True assms show ?thesis
    by (auto simp: bit_set_iff unat_div_distrib unat_mod_distrib bit_simps)
next
  case False
  then show ?thesis
    by (auto simp: bit_set_iff unat_div_distrib)
qed

text \<open>The number of allocated pages, as the constructor counts it.\<close>

definition allocated_ids :: "byte list \<Rightarrow> nat \<Rightarrow> nat list" where
  "allocated_ids bm n = filter (\<lambda>k. bit_set bm (of_nat k)) [0..<n]"

lemma count_fold: "fold (\<lambda>i n. if P i then n + 1 else n) xs c = c + of_nat (length (filter P xs))"
  for c :: "'a::len word"
  by (induction xs arbitrary: c) (auto simp: algebra_simps)

lemma set_allocated_ids: "k \<in> set (allocated_ids bm n) \<longleftrightarrow> k < n \<and> bit_set bm (of_nat k)"
  by (auto simp: allocated_ids_def)

lemma length_allocated_insert:
  assumes "i < n" "\<not> bit_set bm (of_nat i)" "\<And>k. k < n \<Longrightarrow> bit_set bm' (of_nat k) \<longleftrightarrow> k = i \<or> bit_set bm (of_nat k)"
  shows "length (allocated_ids bm' n) = Suc (length (allocated_ids bm n))"
proof -
  have "set (allocated_ids bm' n) = insert i (set (allocated_ids bm n))"
    using assms(1,3) by (auto simp: set_allocated_ids)
  moreover have "i \<notin> set (allocated_ids bm n)"
    using assms(2) by (simp add: set_allocated_ids)
  ultimately have "card (set (allocated_ids bm' n)) = Suc (card (set (allocated_ids bm n)))"
    by simp
  then show ?thesis
    by (subst (asm) (1 2) distinct_card) (simp_all add: allocated_ids_def)
qed

section \<open>Byte layout\<close>

lemma page_header_layout:
  "page_header i l = kMagic @ put16 kPageFormatVersion @ put16 32 @ put64 i @ put64 l @ replicate 4072 0"
proof -
  have r: "replicate 4096 (0::byte) = replicate 4 0 @ replicate 2 0 @ replicate 2 0 @ replicate 8 0 @ replicate 8 0 @ replicate 4072 0"
    by (simp flip: replicate_add)
  show ?thesis
    unfolding page_header_def kPageSize_def kPageHeaderSize_def r
    by (simp add: put64_at_splice put16_at_splice splice_at_def kMagic_def)
qed

lemma page_image_layout:
  "page_image i p = kMagic @ put16 kPageFormatVersion @ put16 32 @ put64 i @ put64 (pg_lsn p) @
     replicate 8 0 @ pg_payload p @ drop (length (pg_payload p)) (replicate 4064 0)"
proof -
  let ?h = "kMagic @ put16 kPageFormatVersion @ put16 32 @ put64 i @ put64 (pg_lsn p) @ replicate 8 0"
  have "page_header i (pg_lsn p) = ?h @ replicate 4064 0"
    by (simp add: page_header_layout flip: replicate_add)
  then have "page_image i p = splice_at 32 (pg_payload p) (?h @ replicate 4064 0)"
    by (simp only: page_image_def kPageHeaderSize_def)
  also have "\<dots> = ?h @ pg_payload p @ drop (length (pg_payload p)) (replicate 4064 0)"
    by (rule splice_at_append) (simp add: kMagic_def)
  finally show ?thesis by simp
qed

lemma catalog_image_layout:
  assumes "length (pm_bitmap pm) = kPageSize - kCatalogHeader"
  shows "catalog_image pm = kCatalogMagic @ put16 kCatalogVersion @ replicate 2 0 @
           put64 (pm_page_count pm) @ put64 (pm_allocated pm) @ pm_bitmap pm"
proof -
  have r: "replicate 4096 (0::byte) = replicate 4 0 @ replicate 2 0 @ replicate 2 0 @ replicate 8 0 @ replicate 8 0 @ replicate 4072 0"
    by (simp flip: replicate_add)
  show ?thesis
    using assms unfolding catalog_image_def kPageSize_def kCatalogHeader_def r
    by (simp add: put64_at_splice put16_at_splice splice_at_def kCatalogMagic_def)
qed

text \<open>Reading the fields of an image back.\<close>

definition decode_page :: "PageId \<Rightarrow> byte list \<Rightarrow> page" where
  "decode_page i raw =
     \<lparr>pg_id = i, pg_lsn = get64_at 16 raw, pg_payload = segment kPageHeaderSize kPagePayloadSize raw\<rparr>"

definition envelope_ok :: "PageId \<Rightarrow> byte list \<Rightarrow> bool" where
  "envelope_ok i raw \<longleftrightarrow> envelope_format_ok raw \<and> get64_at 8 raw = i"

lemma page_header_length [simp]: "length (page_header i l) = kPageSize"
  by (simp add: page_header_layout kMagic_def kPageSize_def)

lemma page_image_length [simp]: "page_ok p \<Longrightarrow> length (page_image i p) = kPageSize"
  by (simp add: page_image_layout page_ok_def kMagic_def size_defs)

lemma catalog_image_length [simp]:
  "length (pm_bitmap pm) = kPageSize - kCatalogHeader \<Longrightarrow> length (catalog_image pm) = kPageSize"
  by (simp add: catalog_image_layout kCatalogMagic_def catalog_defs)

lemma envelope_prefix_ok: "envelope_ok i (kMagic @ put16 kPageFormatVersion @ put16 32 @ put64 i @ r)"
  by (simp add: envelope_ok_def envelope_format_ok_def get16_at_def get64_at_def kMagic_def kPageHeaderSize_def)

lemma envelope_header [simp]: "envelope_ok i (page_header i l)"
  by (simp add: page_header_layout envelope_prefix_ok)

lemma envelope_image [simp]: "envelope_ok i (page_image i p)"
  by (simp add: page_image_layout envelope_prefix_ok)

lemma decode_image: "page_ok p \<Longrightarrow> pg_id p = i \<Longrightarrow> decode_page i (page_image i p) = p"
  by (cases p) (simp add: page_image_layout decode_page_def get64_at_def kMagic_def page_ok_def size_defs segment_def)

lemma decode_header: "decode_page i (page_header i 0) = new_page i"
proof -
  have r: "replicate 4072 (0::byte) = replicate 8 0 @ replicate 4064 0"
    by (simp flip: replicate_add)
  show ?thesis
    unfolding page_header_layout r
    by (simp add: decode_page_def new_page_def get64_at_def kMagic_def size_defs segment_def)
qed

lemma decode_page_ok: "length raw = kPageSize \<Longrightarrow> page_ok (decode_page i raw)"
  by (simp add: decode_page_def page_ok_def size_defs)

lemma decode_page_id [simp]: "pg_id (decode_page i raw) = i"
  by (simp add: decode_page_def)


section \<open>The invariant\<close>

text \<open>
  \<open>wf_pm\<close>: the bitmap has its fixed size, the page count is within the catalog's capacity, the
  count of allocated pages is the number of bits set, no bit is set beyond the page count, and
  every page slot lies inside the file and carries its envelope. Nothing is said about the
  catalog page of the file, which a failed write can leave torn; \<open>synced\<close> adds that the file is
  exactly what a reopening expects.
\<close>

definition wf_pm :: "page_manager \<Rightarrow> bool" where
  "wf_pm pm \<longleftrightarrow>
     length (pm_bitmap pm) = kPageSize - kCatalogHeader \<and>
     unat (pm_page_count pm) \<le> kCatalogBits \<and>
     pm_allocated pm = of_nat (length (allocated_ids (pm_bitmap pm) (unat (pm_page_count pm)))) \<and>
     (\<forall>k < kCatalogBits. unat (pm_page_count pm) \<le> k \<longrightarrow> \<not> bit_set (pm_bitmap pm) (of_nat k)) \<and>
     (unat (pm_page_count pm) + 1) * kPageSize \<le> length (contents (pm_file pm)) \<and>
     (\<forall>k < unat (pm_page_count pm).
        envelope_ok (of_nat k) (segment (slot (of_nat k)) kPageSize (contents (pm_file pm))))"

definition synced :: "page_manager \<Rightarrow> bool" where
  "synced pm \<longleftrightarrow>
     length (contents (pm_file pm)) = (unat (pm_page_count pm) + 1) * kPageSize \<and>
     segment 0 kPageSize (contents (pm_file pm)) = catalog_image pm"

text \<open>The abstract content: the allocated pages, each as it stands in the file.\<close>

definition pm_pages :: "page_manager \<Rightarrow> PageId \<rightharpoonup> page" where
  "pm_pages pm i =
     (if is_page_allocated i pm
      then Some (decode_page i (segment (slot i) kPageSize (contents (pm_file pm)))) else None)"

lemma wf_pm_bitmap: "wf_pm pm \<Longrightarrow> length (pm_bitmap pm) = kPageSize - kCatalogHeader"
  by (simp add: wf_pm_def)

lemma wf_pm_count: "wf_pm pm \<Longrightarrow> unat (pm_page_count pm) \<le> kCatalogBits"
  by (simp add: wf_pm_def)

lemma wf_pm_count_valid: "wf_pm pm \<Longrightarrow> is_valid (pm_page_count pm)"
  using wf_pm_count [of pm] by (auto simp: is_valid_def kInvalidValue_def catalog_defs)

lemma wf_pm_small: "wf_pm pm \<Longrightarrow> i < pm_page_count pm \<Longrightarrow> unat i < kCatalogBits"
  by (metis wf_pm_count order.strict_trans2 word_less_nat_alt)

lemma wf_pm_offset: "wf_pm pm \<Longrightarrow> i < pm_page_count pm \<Longrightarrow> offset_for i = Inr (int (slot i))"
  by (simp add: offset_for_small wf_pm_small)

lemma wf_pm_slot:
  "wf_pm pm \<Longrightarrow> i < pm_page_count pm \<Longrightarrow> slot i + kPageSize \<le> length (contents (pm_file pm))"
  using slot_bound [of i "unat (pm_page_count pm)"] by (simp add: wf_pm_def word_less_nat_alt)

lemma wf_pm_envelope:
  assumes "wf_pm pm" "i < pm_page_count pm"
  shows "envelope_ok i (segment (slot i) kPageSize (contents (pm_file pm)))"
proof -
  have "unat i < unat (pm_page_count pm)" using assms(2) by (simp add: word_less_nat_alt)
  with assms(1) have "envelope_ok (of_nat (unat i)) (segment (slot (of_nat (unat i))) kPageSize (contents (pm_file pm)))"
    unfolding wf_pm_def by blast
  then show ?thesis by simp
qed

lemma is_page_allocated_iff:
  "wf_pm pm \<Longrightarrow> is_page_allocated i pm \<longleftrightarrow> i < pm_page_count pm \<and> bit_set (pm_bitmap pm) i"
  by (auto simp: is_page_allocated_def valid_small wf_pm_small)

lemma is_page_allocated_file [simp]:
  "is_page_allocated i (pm\<lparr>pm_file := fs\<rparr>) = is_page_allocated i pm"
  by (simp add: is_page_allocated_def)

lemma is_page_allocated_count: "is_page_allocated i pm \<Longrightarrow> i < pm_page_count pm"
  by (simp add: is_page_allocated_def)

text \<open>What every operation on the file alone leaves as it was.\<close>

definition same_meta :: "page_manager \<Rightarrow> page_manager \<Rightarrow> bool" where
  "same_meta pm pm' \<longleftrightarrow>
     pm_page_count pm' = pm_page_count pm \<and> pm_bitmap pm' = pm_bitmap pm \<and> pm_allocated pm' = pm_allocated pm"

lemma same_meta_file [simp]: "same_meta pm pm" "same_meta pm (pm\<lparr>pm_file := fs\<rparr>)"
  by (simp_all add: same_meta_def)

lemma same_metaD:
  "same_meta pm pm' \<Longrightarrow> pm_page_count pm' = pm_page_count pm \<and> catalog_image pm' = catalog_image pm \<and>
     (\<forall>i. is_page_allocated i pm' = is_page_allocated i pm)"
  by (simp add: same_meta_def catalog_image_def is_page_allocated_def)

text \<open>A change of the file keeps the invariant when it leaves every slot with an envelope.\<close>

lemma wf_pm_file:
  assumes "wf_pm pm" and "length (contents (pm_file pm)) \<le> length (contents fs)"
    and "\<And>i. i < pm_page_count pm \<Longrightarrow> envelope_ok i (segment (slot i) kPageSize (contents fs))"
  shows "wf_pm (pm\<lparr>pm_file := fs\<rparr>)"
proof -
  have "envelope_ok (of_nat k) (segment (slot (of_nat k)) kPageSize (contents fs))"
    if "k < unat (pm_page_count pm)" for k
  proof -
    have "k < 2 ^ 64" using that wf_pm_count [OF assms(1)] by (simp add: catalog_defs)
    then have "of_nat k < pm_page_count pm" using that by (simp add: word_less_nat_alt)
    then show ?thesis by (rule assms(3))
  qed
  with assms(1,2) show ?thesis by (auto simp: wf_pm_def)
qed

lemma wf_pm_same_slots:
  assumes "wf_pm pm" and "length (contents (pm_file pm)) \<le> length (contents fs)"
    and "\<And>i. i < pm_page_count pm \<Longrightarrow>
           segment (slot i) kPageSize (contents fs) = segment (slot i) kPageSize (contents (pm_file pm))"
  shows "wf_pm (pm\<lparr>pm_file := fs\<rparr>)" and "pm_pages (pm\<lparr>pm_file := fs\<rparr>) = pm_pages pm"
proof -
  show "wf_pm (pm\<lparr>pm_file := fs\<rparr>)"
    using assms by (intro wf_pm_file) (simp_all add: wf_pm_envelope)
  show "pm_pages (pm\<lparr>pm_file := fs\<rparr>) = pm_pages pm"
    using assms(3) by (auto simp: pm_pages_def fun_eq_iff dest: is_page_allocated_count)
qed

lemma wf_pm_same_contents:
  "wf_pm pm \<Longrightarrow> contents fs = contents (pm_file pm) \<Longrightarrow>
     wf_pm (pm\<lparr>pm_file := fs\<rparr>) \<and> pm_pages (pm\<lparr>pm_file := fs\<rparr>) = pm_pages pm"
  using wf_pm_same_slots [of pm fs] by simp

section \<open>Torn pages\<close>

text \<open>
  The first sixteen bytes of a slot never change once it is written: an interrupted write of a
  page leaves the envelope intact.
\<close>

definition envelope_prefix :: "PageId \<Rightarrow> byte list" where
  "envelope_prefix i = kMagic @ put16 kPageFormatVersion @ put16 32 @ put64 i"

lemma envelope_prefix_length [simp]: "length (envelope_prefix i) = 16"
  by (simp add: envelope_prefix_def kMagic_def)

lemma envelope_ok_iff:
  assumes "16 \<le> length raw"
  shows "envelope_ok i raw \<longleftrightarrow> take 16 raw = envelope_prefix i"
proof
  assume "take 16 raw = envelope_prefix i"
  then have "raw = envelope_prefix i @ drop 16 raw"
    by (metis append_take_drop_id)
  then show "envelope_ok i raw"
    by (metis append.assoc envelope_prefix_def envelope_prefix_ok)
next
  assume e: "envelope_ok i raw"
  have s: "take 16 raw = take 4 raw @ take 2 (drop 4 raw) @ take 2 (drop 6 raw) @ take 8 (drop 8 raw)"
    using take_add [of 4 12 raw] take_add [of 2 10 "drop 4 raw"] take_add [of 2 8 "drop 6 raw"] by simp
  have "take 2 (drop 4 raw) = put16 kPageFormatVersion" "take 2 (drop 6 raw) = put16 32"
    "take 8 (drop 8 raw) = put64 i" "take 4 raw = kMagic"
    using e assms
    by (simp_all add: envelope_ok_def envelope_format_ok_def get16_at_def get64_at_def
          kPageHeaderSize_def flip: le16.put_get le64.put_get)
  with s show "take 16 raw = envelope_prefix i"
    by (simp add: envelope_prefix_def)
qed

lemma envelope_ok_torn:
  assumes "envelope_ok i new" "envelope_ok i old" "length new = kPageSize" "length old = kPageSize"
  shows "envelope_ok i (take n new @ drop n old)"
proof -
  have "take 16 (take n new @ drop n old) = take 16 new" if "16 \<le> n"
    using that assms(3) by (simp add: min_def kPageSize_def)
  moreover have "take 16 (take n new @ drop n old) = take n (take 16 new) @ drop n (take 16 old)" if "n < 16"
    using that assms(3,4) by (simp add: min_def take_drop kPageSize_def)
  moreover have "take 16 new = envelope_prefix i" "take 16 old = envelope_prefix i"
    using assms by (simp_all add: envelope_ok_iff kPageSize_def)
  moreover have "take n (envelope_prefix i) @ drop n (envelope_prefix i) = envelope_prefix i"
    by simp
  ultimately have "take 16 (take n new @ drop n old) = envelope_prefix i"
    by (cases "16 \<le> n") auto
  with assms show ?thesis
    by (simp add: envelope_ok_iff kPageSize_def)
qed


section \<open>Running the operations\<close>

lemma wp_pm_io [wp_simps]:
  "wp (pm_io f) Q E pm = Q (fst (f (pm_file pm))) (pm\<lparr>pm_file := snd (f (pm_file pm))\<rparr>)"
  by (simp add: wp_def pm_io_def split: prod.split)

lemma wp_ensure_stream_good [wp_simps]:
  "wp ensure_stream_good Q E pm =
     (if good (pm_file pm) then Q () pm else E (StorageError Stream_not_good) pm)"
  by (simp add: ensure_stream_good_def wp_simps)

lemma wp_validate_allocated [wp_simps]:
  "wp (validate_allocated i) Q E pm =
     (case offset_for i of Inl e \<Rightarrow> E e pm
      | Inr _ \<Rightarrow> if i < pm_page_count pm then Q () pm else E (StorageError Beyond_allocated_file) pm)"
  by (simp add: validate_allocated_def wp_simps not_le split: sum.split)

lemma wp_validate_logically_allocated:
  assumes "wf_pm pm" and "is_page_allocated i pm \<Longrightarrow> Q () pm"
    and "\<And>e. \<not> is_page_allocated i pm \<Longrightarrow> E e pm"
  shows "wp (validate_logically_allocated i) Q E pm"
  using assms
  by (auto simp: validate_logically_allocated_def wp_simps is_page_allocated_iff wf_pm_offset split: sum.split)

subsection \<open>The catalog\<close>

lemma wf_pm_front:
  assumes "wf_pm pm" "length bs \<le> kPageSize" "contents fs = write_bytes 0 bs (contents (pm_file pm))"
  shows "wf_pm (pm\<lparr>pm_file := fs\<rparr>)" and "pm_pages (pm\<lparr>pm_file := fs\<rparr>) = pm_pages pm"
proof -
  have "segment (slot i) kPageSize (contents fs) = segment (slot i) kPageSize (contents (pm_file pm))"
    if "i < pm_page_count pm" for i
    unfolding assms(3) using assms that slot_after_catalog [of i]
    by (intro segment_write_other) (simp_all add: wf_pm_slot)
  with wf_pm_same_slots [OF assms(1), of fs]
  show "wf_pm (pm\<lparr>pm_file := fs\<rparr>)" "pm_pages (pm\<lparr>pm_file := fs\<rparr>) = pm_pages pm"
    by (simp_all add: assms(3) length_write_bytes_le)
qed

lemma write_allocation_catalog_spec:
  assumes "wf_pm pm"
  shows "wp write_allocation_catalog
     (\<lambda>_ pm'. wf_pm pm' \<and> pm_pages pm' = pm_pages pm \<and> same_meta pm pm' \<and>
        contents (pm_file pm') = write_bytes 0 (catalog_image pm) (contents (pm_file pm)) \<and>
        (fault_free (pm_file pm) \<longrightarrow> fault_free (pm_file pm') \<and> good (pm_file pm')))
     (\<lambda>_ pm'. wf_pm pm' \<and> pm_pages pm' = pm_pages pm \<and> same_meta pm pm' \<and>
        \<not> fault_free (pm_file pm)) pm"
proof -
  let ?fs = "fs_write 0 (catalog_image pm) (fs_clear (pm_file pm))"
  obtain n where n: "contents ?fs = write_bytes 0 (take n (catalog_image pm)) (contents (pm_file pm))"
    using fs_write_contents [of 0 "catalog_image pm" "fs_clear (pm_file pm)"] by auto
  have "wf_pm (pm\<lparr>pm_file := ?fs\<rparr>) \<and> pm_pages (pm\<lparr>pm_file := ?fs\<rparr>) = pm_pages pm"
    using wf_pm_front [OF assms _ n] assms by (simp add: wf_pm_bitmap)
  then show ?thesis
    using fs_write_ok [of 0 "catalog_image pm" "fs_clear (pm_file pm)"]
      fs_write_fault_free [of "fs_clear (pm_file pm)" 0 "catalog_image pm"]
    by (auto simp: write_allocation_catalog_def wp_simps)
qed

text \<open>Writing the catalog over a file of the right length makes the two agree.\<close>

lemma synced_after_catalog:
  assumes "wf_pm pm" and "contents (pm_file pm) = write_bytes 0 (catalog_image pm) f"
    and "length f = (unat (pm_page_count pm) + 1) * kPageSize"
  shows "synced pm"
proof -
  have ne: "catalog_image pm \<noteq> []"
    using wf_pm_bitmap [OF assms(1)] by (simp add: catalog_image_layout kCatalogMagic_def)
  have "segment 0 kPageSize (write_bytes 0 (catalog_image pm) f) = catalog_image pm"
    using segment_write_same [OF ne, of 0 f] wf_pm_bitmap [OF assms(1)] by simp
  then show ?thesis
    using assms ne wf_pm_bitmap [OF assms(1)] by (simp add: synced_def)
qed

subsection \<open>Reading and writing pages\<close>

lemma read_page_spec:
  assumes "wf_pm pm"
  shows "wp (read_page i)
     (\<lambda>p pm'. wf_pm pm' \<and> pm_pages pm' = pm_pages pm \<and> same_meta pm pm' \<and>
        contents (pm_file pm') = contents (pm_file pm) \<and> pm_pages pm i = Some p \<and>
        (fault_free (pm_file pm) \<longrightarrow> fault_free (pm_file pm')))
     (\<lambda>_ pm'. wf_pm pm' \<and> pm_pages pm' = pm_pages pm \<and> same_meta pm pm' \<and>
        contents (pm_file pm') = contents (pm_file pm) \<and>
        (fault_free (pm_file pm) \<longrightarrow> pm_pages pm i = None \<and> fault_free (pm_file pm'))) pm"
proof (cases "is_page_allocated i pm")
  case False
  then show ?thesis
    unfolding read_page_def wp_bindE
    using assms by (intro wp_validate_logically_allocated) (simp_all add: pm_pages_def)
next
  case True
  let ?r = "fs_read (int (slot i)) kPageSize (fs_clear (pm_file pm))"
  have i: "i < pm_page_count pm" using True by (rule is_page_allocated_count)
  have keep: "wf_pm (pm\<lparr>pm_file := snd ?r\<rparr>) \<and> pm_pages (pm\<lparr>pm_file := snd ?r\<rparr>) = pm_pages pm"
    using assms by (intro wf_pm_same_contents) simp_all
  have full: "fst ?r = segment (slot i) kPageSize (contents (pm_file pm))" if "length (fst ?r) = kPageSize"
    using fs_read_ok [OF that] by (simp add: kPageSize_def)
  have ff: "length (fst ?r) = kPageSize \<and> good (snd ?r) \<and> fault_free (snd ?r)" if "fault_free (pm_file pm)"
    using that fs_read_fault_free [of "fs_clear (pm_file pm)" "int (slot i)" kPageSize] wf_pm_slot [OF assms i]
    by simp
  have env: "envelope_ok i (segment (slot i) kPageSize (contents (pm_file pm)))"
    using assms i by (rule wf_pm_envelope)
  show ?thesis
    unfolding read_page_def wp_bindE
    using assms True env
    by (intro wp_validate_logically_allocated)
       (auto simp: wp_simps wf_pm_offset [OF assms i] keep full envelope_ok_def pm_pages_def decode_page_def dest!: ff)
qed


lemma page_write_file:
  assumes "wf_pm pm" "i < pm_page_count pm" "page_ok p"
    and "contents fs = write_bytes (slot i) (take n (page_image i p)) (contents (pm_file pm))"
  shows "wf_pm (pm\<lparr>pm_file := fs\<rparr>)"
    and "j \<noteq> i \<Longrightarrow> pm_pages (pm\<lparr>pm_file := fs\<rparr>) j = pm_pages pm j"
proof -
  let ?f = "contents (pm_file pm)"
  have other: "segment (slot j) kPageSize (contents fs) = segment (slot j) kPageSize ?f"
    if "j < pm_page_count pm" "j \<noteq> i" for j
    unfolding assms(4) using slot_disjoint [OF that(2)] assms that
    by (intro segment_write_other) (auto simp: wf_pm_slot)
  have "segment (slot i) kPageSize (contents fs) =
      take n (page_image i p) @ drop n (segment (slot i) kPageSize ?f)"
    using segment_write_torn [of "slot i" "page_image i p" ?f n] assms wf_pm_slot [OF assms(1,2)] by simp
  then have "envelope_ok i (segment (slot i) kPageSize (contents fs))"
    using envelope_ok_torn [OF envelope_image [of i p] wf_pm_envelope [OF assms(1,2)], of n]
      assms(3) wf_pm_slot [OF assms(1,2)] by simp
  then have "envelope_ok j (segment (slot j) kPageSize (contents fs))" if "j < pm_page_count pm" for j
    using that other wf_pm_envelope [OF assms(1) that] by (cases "j = i") simp_all
  then show "wf_pm (pm\<lparr>pm_file := fs\<rparr>)"
    using assms(1) by (intro wf_pm_file) (simp_all add: assms(4) length_write_bytes_le)
  show "pm_pages (pm\<lparr>pm_file := fs\<rparr>) j = pm_pages pm j" if "j \<noteq> i"
    using other [OF _ that] by (auto simp: pm_pages_def dest: is_page_allocated_count)
qed

lemma write_page_spec:
  assumes "wf_pm pm" "page_ok p"
  shows "wp (write_page i p)
     (\<lambda>_ pm'. wf_pm pm' \<and> pm_pages pm' = (pm_pages pm)(i \<mapsto> p) \<and> same_meta pm pm' \<and>
        pm_pages pm i \<noteq> None \<and> pg_id p = i \<and>
        contents (pm_file pm') = write_bytes (slot i) (page_image i p) (contents (pm_file pm)) \<and>
        (fault_free (pm_file pm) \<longrightarrow> fault_free (pm_file pm') \<and> good (pm_file pm')))
     (\<lambda>_ pm'. wf_pm pm' \<and> (\<forall>j. j \<noteq> i \<longrightarrow> pm_pages pm' j = pm_pages pm j) \<and> same_meta pm pm' \<and>
        (pm_pages pm i = None \<or> pg_id p \<noteq> i \<longrightarrow> pm' = pm) \<and>
        (fault_free (pm_file pm) \<longrightarrow> pm_pages pm i = None \<or> pg_id p \<noteq> i)) pm"
proof (cases "is_page_allocated i pm \<and> pg_id p = i")
  case False
  then show ?thesis
    unfolding write_page_def wp_bindE
    using assms by (intro wp_validate_logically_allocated) (auto simp: wp_simps pm_pages_def)
next
  case True
  let ?fs = "fs_write (int (slot i)) (page_image i p) (fs_clear (pm_file pm))"
  have i: "i < pm_page_count pm" using True is_page_allocated_count by blast
  obtain n where n: "contents ?fs = write_bytes (slot i) (take n (page_image i p)) (contents (pm_file pm))"
    using fs_write_contents [of "int (slot i)" "page_image i p" "fs_clear (pm_file pm)"] by auto
  note keep = page_write_file [OF assms(1) i assms(2) n]
  have full: "pm_pages (pm\<lparr>pm_file := ?fs\<rparr>) = (pm_pages pm)(i \<mapsto> p)"
    if "contents ?fs = write_bytes (slot i) (page_image i p) (contents (pm_file pm))"
  proof -
    have "page_image i p \<noteq> []" by (simp add: page_image_layout kMagic_def)
    from segment_write_same [OF this, of "slot i"] have
      "segment (slot i) kPageSize (contents ?fs) = page_image i p"
      using that assms(2) by simp
    then have "pm_pages (pm\<lparr>pm_file := ?fs\<rparr>) i = Some p"
      using True assms(2) by (simp add: pm_pages_def decode_image)
    with keep(2) show ?thesis by (auto simp: fun_eq_iff)
  qed
  show ?thesis
    unfolding write_page_def wp_bindE
    using assms True keep full
      fs_write_ok [of "int (slot i)" "page_image i p" "fs_clear (pm_file pm)"]
      fs_write_fault_free [of "fs_clear (pm_file pm)" "int (slot i)" "page_image i p"]
    by (intro wp_validate_logically_allocated)
       (auto simp: wp_simps wf_pm_offset [OF assms(1) i] pm_pages_def)
qed

lemma pm_flush_spec:
  assumes "wf_pm pm"
  shows "wp pm_flush
     (\<lambda>_ pm'. wf_pm pm' \<and> pm_pages pm' = pm_pages pm \<and> same_meta pm pm' \<and>
        contents (pm_file pm') = contents (pm_file pm) \<and>
        (fault_free (pm_file pm) \<longrightarrow> fault_free (pm_file pm')))
     (\<lambda>_ pm'. wf_pm pm' \<and> pm_pages pm' = pm_pages pm \<and> same_meta pm pm' \<and>
        contents (pm_file pm') = contents (pm_file pm) \<and> \<not> (fault_free (pm_file pm) \<and> good (pm_file pm)) \<and>
        (fault_free (pm_file pm) \<longrightarrow> fault_free (pm_file pm'))) pm"
  using wf_pm_same_contents [OF assms, of "fs_flush (pm_file pm)"] fs_flush_fault_free [of "pm_file pm"]
  by (auto simp: pm_flush_def wp_simps)


subsection \<open>Reserving and allocating pages\<close>

lemma wf_pm_extend:
  assumes "wf_pm pm" "unat (pm_page_count pm) < kCatalogBits"
    and "contents fs = write_bytes (slot (pm_page_count pm)) (page_header (pm_page_count pm) 0) (contents (pm_file pm))"
  defines "pm' \<equiv> pm\<lparr>pm_page_count := pm_page_count pm + 1, pm_file := fs\<rparr>"
  shows "wf_pm pm'" and "pm_pages pm' = pm_pages pm" and "\<not> is_page_allocated (pm_page_count pm) pm'"
    and "decode_page (pm_page_count pm) (segment (slot (pm_page_count pm)) kPageSize (contents fs)) =
         new_page (pm_page_count pm)"
proof -
  let ?n = "pm_page_count pm" and ?f = "contents (pm_file pm)"
  have n1: "unat (?n + 1) = unat ?n + 1"
    using assms(2) by (subst unat_add_lem [THEN iffD1]) (auto simp: catalog_defs)
  have "page_header ?n 0 \<noteq> []" by (simp add: page_header_layout kMagic_def)
  from segment_write_same [OF this, of "slot ?n" ?f] length_write_bytes [OF this, of "slot ?n" ?f]
  have new: "segment (slot ?n) kPageSize (contents fs) = page_header ?n 0"
    and len: "length (contents fs) = max (length ?f) (slot ?n + kPageSize)"
    by (simp_all add: assms(3))
  have old: "segment (slot i) kPageSize (contents fs) = segment (slot i) kPageSize ?f" if "i < ?n" for i
    unfolding assms(3) using slot_disjoint [of i ?n] that assms(1)
    by (intro segment_write_other) (auto simp: wf_pm_slot)
  have free: "\<not> bit_set (pm_bitmap pm) ?n"
    using assms(1,2) by (auto simp: wf_pm_def dest!: spec [of _ "unat ?n"])
  have bits: "allocated_ids (pm_bitmap pm) (Suc (unat ?n)) = allocated_ids (pm_bitmap pm) (unat ?n)"
    using free by (simp add: allocated_ids_def)
  have "envelope_ok (of_nat k) (segment (slot (of_nat k)) kPageSize (contents fs))" if "k < Suc (unat ?n)" for k
  proof (cases "k = unat ?n")
    case True
    with new show ?thesis by simp
  next
    case False
    with that assms(2) have "of_nat k < ?n" by (simp add: word_less_nat_alt catalog_defs)
    with old wf_pm_envelope [OF assms(1)] show ?thesis by simp
  qed
  moreover have "slot ?n + kPageSize = (Suc (unat ?n) + 1) * kPageSize"
    by (simp add: slot_def)
  ultimately show "wf_pm pm'"
    using assms(1,2) bits len by (auto simp: wf_pm_def pm'_def n1)
  have lt: "j < ?n + 1 \<longleftrightarrow> j < ?n \<or> j = ?n" for j
    by (auto simp: word_less_nat_alt n1 word_unat_eq_iff)
  show notall: "\<not> is_page_allocated ?n pm'"
    using free by (simp add: is_page_allocated_def pm'_def)
  show "pm_pages pm' = pm_pages pm"
  proof
    fix j show "pm_pages pm' j = pm_pages pm j"
      using notall old [of j] free
      by (auto simp: pm_pages_def pm'_def is_page_allocated_def lt)
  qed
  show "decode_page ?n (segment (slot ?n) kPageSize (contents fs)) = new_page ?n"
    by (simp add: new decode_header)
qed

text \<open>A failed write beyond the last page is invisible.\<close>

lemma wf_pm_beyond:
  assumes "wf_pm pm" and "contents fs = write_bytes (slot (pm_page_count pm)) bs (contents (pm_file pm))"
  shows "wf_pm (pm\<lparr>pm_file := fs\<rparr>)" and "pm_pages (pm\<lparr>pm_file := fs\<rparr>) = pm_pages pm"
proof -
  have "segment (slot i) kPageSize (contents fs) = segment (slot i) kPageSize (contents (pm_file pm))"
    if "i < pm_page_count pm" for i
    unfolding assms(2) using that wf_pm_slot [OF assms(1) that]
    by (intro segment_write_other) (auto simp: slot_def kPageSize_def word_less_nat_alt)
  with wf_pm_same_slots [OF assms(1), of fs]
  show "wf_pm (pm\<lparr>pm_file := fs\<rparr>)" "pm_pages (pm\<lparr>pm_file := fs\<rparr>) = pm_pages pm"
    by (simp_all add: assms(2) length_write_bytes_le)
qed


lemma catalog_image_file [simp]: "catalog_image (pm\<lparr>pm_file := fs\<rparr>) = catalog_image pm"
  by (simp add: catalog_image_def)

lemma reserve_page_spec:
  assumes "wf_pm pm"
  shows "wp reserve_page
     (\<lambda>i pm'. wf_pm pm' \<and> pm_pages pm' = pm_pages pm \<and> i = pm_page_count pm \<and> unat i < kCatalogBits \<and>
        same_meta (pm\<lparr>pm_page_count := i + 1\<rparr>) pm' \<and> \<not> is_page_allocated i pm' \<and>
        decode_page i (segment (slot i) kPageSize (contents (pm_file pm'))) = new_page i \<and>
        contents (pm_file pm') =
          write_bytes 0 (catalog_image pm') (write_bytes (slot i) (page_header i 0) (contents (pm_file pm))) \<and>
        (fault_free (pm_file pm) \<longrightarrow> fault_free (pm_file pm') \<and> good (pm_file pm')))
     (\<lambda>_ pm'. wf_pm pm' \<and> pm_pages pm' = pm_pages pm \<and> same_meta pm pm' \<and>
        (fault_free (pm_file pm) \<longrightarrow> unat (pm_page_count pm) = kCatalogBits \<and> pm' = pm)) pm"
proof (cases "unat (pm_page_count pm) < kCatalogBits")
  case False
  then have "pm_page_count pm \<ge> of_nat kCatalogBits" and "unat (pm_page_count pm) = kCatalogBits"
    using wf_pm_count [OF assms] by (simp_all add: word_le_nat_alt catalog_defs)
  then show ?thesis
    using assms by (simp add: reserve_page_def wp_simps)
next
  case True
  let ?n = "pm_page_count pm"
  let ?pm1 = "pm\<lparr>pm_page_count := ?n + 1\<rparr>"
  let ?fs1 = "fs_write (int (slot ?n)) (page_header ?n 0) (fs_clear (pm_file pm))"
  let ?fs2 = "fs_write 0 (catalog_image ?pm1) (fs_clear ?fs1)"
  have cap: "\<not> ?n \<ge> of_nat kCatalogBits" and off: "offset_for ?n = Inr (int (slot ?n))"
    using True by (simp_all add: word_le_nat_alt catalog_defs offset_for_small)
  obtain m where c1: "contents ?fs1 = write_bytes (slot ?n) (take m (page_header ?n 0)) (contents (pm_file pm))"
    using fs_write_contents [of "int (slot ?n)" "page_header ?n 0" "fs_clear (pm_file pm)"] by auto
  obtain k where c2: "contents ?fs2 = write_bytes 0 (take k (catalog_image ?pm1)) (contents ?fs1)"
    using fs_write_contents [of 0 "catalog_image ?pm1" "fs_clear ?fs1"] by auto
  have bl: "length (take k (catalog_image ?pm1)) \<le> kPageSize" for k
    using wf_pm_bitmap [OF assms] by simp
  note w1 = wf_pm_beyond [OF assms c1]
  have w2: "wf_pm (pm\<lparr>pm_file := ?fs2\<rparr>)" "pm_pages (pm\<lparr>pm_file := ?fs2\<rparr>) = pm_pages pm"
    using wf_pm_front [OF w1(1) bl, of ?fs2 k] c2 w1(2) by simp_all
  have fin: "wf_pm (?pm1\<lparr>pm_file := ?fs2\<rparr>)" "pm_pages (?pm1\<lparr>pm_file := ?fs2\<rparr>) = pm_pages pm"
    "\<not> is_page_allocated ?n ?pm1"
    "decode_page ?n (segment (slot ?n) kPageSize (contents ?fs2)) = new_page ?n"
    if g1: "good ?fs1" and g2: "good ?fs2"
  proof -
    have f1: "contents ?fs1 = write_bytes (slot ?n) (page_header ?n 0) (contents (pm_file pm))"
      using fs_write_ok [OF g1] by simp
    have f2: "contents ?fs2 = write_bytes 0 (catalog_image ?pm1) (contents ?fs1)"
      using fs_write_ok [OF g2] by simp
    note e = wf_pm_extend [OF assms True f1]
    note f = wf_pm_front [of "?pm1\<lparr>pm_file := ?fs1\<rparr>" "catalog_image ?pm1" ?fs2]
    show "wf_pm (?pm1\<lparr>pm_file := ?fs2\<rparr>)" "pm_pages (?pm1\<lparr>pm_file := ?fs2\<rparr>) = pm_pages pm"
      using f e f2 wf_pm_bitmap [OF assms] by simp_all
    show "\<not> is_page_allocated ?n ?pm1" using e(3) by simp
    have "segment (slot ?n) kPageSize (contents ?fs2) = segment (slot ?n) kPageSize (contents ?fs1)"
      unfolding f2 using wf_pm_bitmap [OF assms] slot_after_catalog [of ?n] wf_pm_slot [OF e(1), of ?n] True
      by (intro segment_write_other) (auto simp: word_less_nat_alt catalog_defs unat_word_ariths)
    with e(4) show "decode_page ?n (segment (slot ?n) kPageSize (contents ?fs2)) = new_page ?n"
      by simp
  qed
  show ?thesis
    using w1 w2 fin True
      fs_write_ok [of "int (slot ?n)" "page_header ?n 0" "fs_clear (pm_file pm)"]
      fs_write_ok [of 0 "catalog_image ?pm1" "fs_clear ?fs1"]
      fs_write_fault_free [of "fs_clear (pm_file pm)" "int (slot ?n)" "page_header ?n 0"]
      fs_write_fault_free [of "fs_clear ?fs1" 0 "catalog_image ?pm1"]
    by (auto simp: reserve_page_def write_allocation_catalog_def wp_simps cap off)
qed


subsection \<open>Allocation bits\<close>

lemma of_nat_eq_uint64: "k < 2 ^ 64 \<Longrightarrow> (of_nat k = (i :: uint64)) \<longleftrightarrow> k = unat i"
  by (auto simp: word_unat_eq_iff)

text \<open>Changing one bit below the page count, with the count kept in step.\<close>

lemma wf_pm_set_bit:
  assumes "wf_pm pm" "i < pm_page_count pm" "\<not> bit_set (pm_bitmap pm) i"
    and "length bm = length (pm_bitmap pm)" "\<And>j. bit_set bm j \<longleftrightarrow> j = i \<or> bit_set (pm_bitmap pm) j"
  shows "wf_pm (pm\<lparr>pm_bitmap := bm, pm_allocated := pm_allocated pm + 1\<rparr>)"
proof -
  have n: "unat i < unat (pm_page_count pm)" using assms(2) by (simp add: word_less_nat_alt)
  have big: "k < 2 ^ 64" if "k < kCatalogBits" for k using that by (simp add: catalog_defs)
  have "length (allocated_ids bm (unat (pm_page_count pm))) =
        Suc (length (allocated_ids (pm_bitmap pm) (unat (pm_page_count pm))))"
  proof (rule length_allocated_insert [OF n])
    show "\<not> bit_set (pm_bitmap pm) (of_nat (unat i))" using assms(3) by simp
    show "bit_set bm (of_nat k) \<longleftrightarrow> k = unat i \<or> bit_set (pm_bitmap pm) (of_nat k)"
      if "k < unat (pm_page_count pm)" for k
      using that big [of k] wf_pm_count [OF assms(1)] by (simp add: assms(5) of_nat_eq_uint64)
  qed
  moreover have "\<not> bit_set bm (of_nat k)" if "k < kCatalogBits" "unat (pm_page_count pm) \<le> k" for k
    using that n assms(1) big [of k] by (auto simp: assms(5) of_nat_eq_uint64 wf_pm_def)
  ultimately show ?thesis
    using assms(1,4) by (auto simp: wf_pm_def)
qed

lemma wf_pm_clear_bit:
  assumes "wf_pm pm" "i < pm_page_count pm" "bit_set (pm_bitmap pm) i"
    and "length bm = length (pm_bitmap pm)" "\<And>j. bit_set bm j \<longleftrightarrow> j \<noteq> i \<and> bit_set (pm_bitmap pm) j"
  shows "wf_pm (pm\<lparr>pm_bitmap := bm, pm_allocated := pm_allocated pm - 1\<rparr>)"
proof -
  have n: "unat i < unat (pm_page_count pm)" using assms(2) by (simp add: word_less_nat_alt)
  have big: "k < 2 ^ 64" if "k < kCatalogBits" for k using that by (simp add: catalog_defs)
  have "length (allocated_ids (pm_bitmap pm) (unat (pm_page_count pm))) =
        Suc (length (allocated_ids bm (unat (pm_page_count pm))))"
  proof (rule length_allocated_insert [OF n])
    show "\<not> bit_set bm (of_nat (unat i))" by (simp add: assms(5))
    show "bit_set (pm_bitmap pm) (of_nat k) \<longleftrightarrow> k = unat i \<or> bit_set bm (of_nat k)"
      if "k < unat (pm_page_count pm)" for k
      using that big [of k] wf_pm_count [OF assms(1)] assms(3) by (auto simp: assms(5) of_nat_eq_uint64)
  qed
  then show ?thesis
    using assms(1,4) by (auto simp: wf_pm_def assms(5))
qed

lemma wf_pm_index: "wf_pm pm \<Longrightarrow> i < pm_page_count pm \<Longrightarrow> unat i div 8 < length (pm_bitmap pm)"
  using wf_pm_small [of pm i] by (simp add: wf_pm_bitmap catalog_defs)

lemma activate_reserved_page_spec:
  assumes "wf_pm pm"
  shows "wp (activate_reserved_page i)
     (\<lambda>_ pm'. wf_pm pm' \<and> i < pm_page_count pm \<and> pm_pages pm i = None \<and>
        pm_pages pm' = (pm_pages pm)(i \<mapsto> decode_page i (segment (slot i) kPageSize (contents (pm_file pm)))) \<and>
        pm_page_count pm' = pm_page_count pm \<and>
        contents (pm_file pm') = write_bytes 0 (catalog_image pm') (contents (pm_file pm)) \<and>
        (fault_free (pm_file pm) \<longrightarrow> fault_free (pm_file pm') \<and> good (pm_file pm')))
     (\<lambda>_ pm'. wf_pm pm' \<and> pm_page_count pm' = pm_page_count pm \<and>
        (if i < pm_page_count pm \<and> pm_pages pm i = None
         then \<not> fault_free (pm_file pm) \<and>
           pm_pages pm' = (pm_pages pm)(i \<mapsto> decode_page i (segment (slot i) kPageSize (contents (pm_file pm))))
         else pm' = pm)) pm"
proof (cases "i < pm_page_count pm \<and> \<not> is_page_allocated i pm")
  case False
  then show ?thesis
    using assms
    by (auto simp: activate_reserved_page_def wp_simps pm_pages_def split: sum.split dest: is_page_allocated_count)
next
  case True
  define bm where "bm = (pm_bitmap pm)[unat (i div 8) := pm_bitmap pm ! (unat (i div 8)) OR push_bit (unat (i mod 8)) 1]"
  define pm1 where "pm1 = pm\<lparr>pm_bitmap := bm, pm_allocated := pm_allocated pm + 1\<rparr>"
  have bits: "bit_set bm j \<longleftrightarrow> j = i \<or> bit_set (pm_bitmap pm) j" for j
    unfolding bm_def using True wf_pm_index [OF assms] by (intro bit_set_activate) simp
  have wf: "wf_pm pm1"
    unfolding pm1_def using True assms bits
    by (intro wf_pm_set_bit [where i = i]) (simp_all add: is_page_allocated_iff bm_def)
  have pages: "pm_pages pm1 = (pm_pages pm)(i \<mapsto> decode_page i (segment (slot i) kPageSize (contents (pm_file pm))))"
    using True wf assms bits
    by (auto simp: fun_eq_iff pm_pages_def is_page_allocated_iff pm1_def)
  have none: "pm_pages pm i = None" using True by (simp add: pm_pages_def)
  have run: "wp (activate_reserved_page i) Q E pm = wp write_allocation_catalog Q E pm1" for Q E
    using True by (simp add: activate_reserved_page_def wp_simps wf_pm_offset [OF assms] pm1_def bm_def)
  have pm1: "pm_file pm1 = pm_file pm" "pm_page_count pm1 = pm_page_count pm" by (simp_all add: pm1_def)
  show ?thesis
    unfolding run using True
    by (intro wp_mono [OF write_allocation_catalog_spec [OF wf]])
       (auto simp: pages none pm1 dest: same_metaD)
qed

lemma deallocate_page_spec:
  assumes "wf_pm pm"
  shows "wp (deallocate_page i)
     (\<lambda>_ pm'. wf_pm pm' \<and> pm_pages pm i \<noteq> None \<and> pm_pages pm' = (pm_pages pm)(i := None) \<and>
        pm_page_count pm' = pm_page_count pm \<and>
        contents (pm_file pm') = write_bytes 0 (catalog_image pm') (contents (pm_file pm)) \<and>
        (fault_free (pm_file pm) \<longrightarrow> fault_free (pm_file pm') \<and> good (pm_file pm')))
     (\<lambda>_ pm'. wf_pm pm' \<and> pm_page_count pm' = pm_page_count pm \<and>
        (if pm_pages pm i = None then pm' = pm
         else \<not> fault_free (pm_file pm) \<and> pm_pages pm' = (pm_pages pm)(i := None))) pm"
proof (cases "is_page_allocated i pm")
  case False
  then show ?thesis
    unfolding deallocate_page_def wp_bindE
    using assms by (intro wp_validate_logically_allocated) (simp_all add: pm_pages_def)
next
  case True
  define bm where "bm = (pm_bitmap pm)[unat (i div 8) := pm_bitmap pm ! (unat (i div 8)) AND NOT (push_bit (unat (i mod 8)) 1)]"
  define pm1 where "pm1 = pm\<lparr>pm_bitmap := bm, pm_allocated := pm_allocated pm - 1\<rparr>"
  have i: "i < pm_page_count pm" using True by (rule is_page_allocated_count)
  have bits: "bit_set bm j \<longleftrightarrow> j \<noteq> i \<and> bit_set (pm_bitmap pm) j" for j
    unfolding bm_def using i wf_pm_index [OF assms] by (intro bit_set_deactivate) simp
  have wf: "wf_pm pm1"
    unfolding pm1_def using True i assms bits
    by (intro wf_pm_clear_bit [where i = i]) (simp_all add: is_page_allocated_iff bm_def)
  have pages: "pm_pages pm1 = (pm_pages pm)(i := None)"
    using wf assms bits by (auto simp: fun_eq_iff pm_pages_def is_page_allocated_iff pm1_def)
  have some: "pm_pages pm i \<noteq> None" using True by (simp add: pm_pages_def)
  have run: "wp (deallocate_page i) Q E pm = wp write_allocation_catalog Q E pm1" for Q E
    using True i by (simp add: deallocate_page_def validate_logically_allocated_def wp_simps
        wf_pm_offset [OF assms] pm1_def bm_def)
  have pm1: "pm_file pm1 = pm_file pm" "pm_page_count pm1 = pm_page_count pm" by (simp_all add: pm1_def)
  show ?thesis
    unfolding run using some
    by (intro wp_mono [OF write_allocation_catalog_spec [OF wf]])
       (auto simp: pages pm1 dest: same_metaD)
qed

lemma validate_physical_page_spec:
  assumes "wf_pm pm"
  shows "wp (validate_physical_page_for_recovery i)
     (\<lambda>_ pm'. wf_pm pm' \<and> pm_pages pm' = pm_pages pm \<and> same_meta pm pm' \<and>
        contents (pm_file pm') = contents (pm_file pm) \<and> i < pm_page_count pm \<and>
        (fault_free (pm_file pm) \<longrightarrow> fault_free (pm_file pm')))
     (\<lambda>_ pm'. wf_pm pm' \<and> pm_pages pm' = pm_pages pm \<and> same_meta pm pm' \<and>
        contents (pm_file pm') = contents (pm_file pm) \<and>
        (fault_free (pm_file pm) \<longrightarrow> \<not> i < pm_page_count pm)) pm"
proof (cases "i < pm_page_count pm")
  case False
  then show ?thesis
    using assms by (simp add: validate_physical_page_for_recovery_def wp_simps split: sum.split)
next
  case True
  let ?r = "fs_read (int (slot i)) kPageSize (fs_clear (pm_file pm))"
  have keep: "wf_pm (pm\<lparr>pm_file := snd ?r\<rparr>) \<and> pm_pages (pm\<lparr>pm_file := snd ?r\<rparr>) = pm_pages pm"
    using assms by (intro wf_pm_same_contents) simp_all
  have full: "fst ?r = segment (slot i) kPageSize (contents (pm_file pm))" if "length (fst ?r) = kPageSize"
    using fs_read_ok [OF that] by (simp add: kPageSize_def)
  have ff: "length (fst ?r) = kPageSize \<and> good (snd ?r) \<and> fault_free (snd ?r)" if "fault_free (pm_file pm)"
    using that fs_read_fault_free [of "fs_clear (pm_file pm)" "int (slot i)" kPageSize] wf_pm_slot [OF assms True]
    by simp
  show ?thesis
    using True wf_pm_envelope [OF assms True]
    by (auto simp: validate_physical_page_for_recovery_def wp_simps wf_pm_offset [OF assms] keep full
          envelope_ok_def dest!: ff)
qed

lemma materialize_page_spec:
  assumes "wf_pm pm"
  shows "wp (materialize_page_for_recovery i)
     (\<lambda>_ pm'. wf_pm pm' \<and> pm_pages pm' = pm_pages pm \<and> i = pm_page_count pm \<and> unat i < kCatalogBits \<and>
        same_meta (pm\<lparr>pm_page_count := i + 1\<rparr>) pm' \<and> \<not> is_page_allocated i pm' \<and>
        decode_page i (segment (slot i) kPageSize (contents (pm_file pm'))) = new_page i \<and>
        reserve_page pm = (Inr i, pm') \<and> (fault_free (pm_file pm) \<longrightarrow> fault_free (pm_file pm')))
     (\<lambda>_ pm'. wf_pm pm' \<and> pm_pages pm' = pm_pages pm \<and> same_meta pm pm' \<and>
        (fault_free (pm_file pm) \<longrightarrow> (i \<noteq> pm_page_count pm \<or> unat i = kCatalogBits) \<and> pm' = pm)) pm"
proof (cases "is_valid i \<and> i = pm_page_count pm")
  case False
  then show ?thesis
    using assms wf_pm_count_valid [OF assms] by (auto simp: materialize_page_for_recovery_def wp_simps)
next
  case True
  then have run: "wp (materialize_page_for_recovery i) Q E pm =
      wp reserve_page (\<lambda>m. wp (require (m = i) (StorageError Unexpected_materialized_id)) Q E) E pm" for Q E
    by (auto simp: materialize_page_for_recovery_def wp_simps)
  show ?thesis
    unfolding run using True wp_conj [OF reserve_page_spec [OF assms] wp_self [of reserve_page]]
    by (auto simp: wp_simps elim!: wp_mono)
qed


section \<open>Persistence\<close>

text \<open>As long as the file does not fail, every operation leaves a file that reopens to the same state.\<close>

lemma synced_reserve:
  assumes "wf_pm pm" "synced pm" "reserve_page pm = (Inr i, pm')"
  shows "synced pm'"
proof -
  note r = wp_InrD [OF reserve_page_spec [OF assms(1)] assms(3)]
  let ?f = "write_bytes (slot i) (page_header i 0) (contents (pm_file pm))"
  have i: "i = pm_page_count pm" and n: "unat i < kCatalogBits"
    and c: "pm_page_count pm' = i + 1"
    using r by (auto simp: same_meta_def)
  have "unat (i + 1) = unat i + 1"
    using n by (subst unat_add_lem [THEN iffD1]) (auto simp: catalog_defs)
  moreover have "page_header i 0 \<noteq> []" by (simp add: page_header_layout kMagic_def)
  ultimately have "length ?f = (unat (pm_page_count pm') + 1) * kPageSize"
    using assms(2) i c by (simp add: synced_def slot_def)
  with r show ?thesis by (intro synced_after_catalog [where f = ?f]) auto
qed

lemma synced_activate:
  assumes "wf_pm pm" "synced pm" "activate_reserved_page i pm = (Inr (), pm')"
  shows "synced pm'"
  using wp_InrD [OF activate_reserved_page_spec [OF assms(1)] assms(3)] assms(2)
  by (intro synced_after_catalog [where f = "contents (pm_file pm)"]) (auto simp: synced_def)

lemma synced_deallocate:
  assumes "wf_pm pm" "synced pm" "deallocate_page i pm = (Inr (), pm')"
  shows "synced pm'"
  using wp_InrD [OF deallocate_page_spec [OF assms(1)] assms(3)] assms(2)
  by (intro synced_after_catalog [where f = "contents (pm_file pm)"]) (auto simp: synced_def)

lemma synced_write:
  assumes "wf_pm pm" "synced pm" "page_ok p" "write_page i p pm = (Inr (), pm')"
  shows "synced pm'"
proof -
  note w = wp_InrD [OF write_page_spec [OF assms(1,3)] assms(4)]
  let ?f = "contents (pm_file pm)"
  have "i < pm_page_count pm" using w by (auto simp: pm_pages_def dest: is_page_allocated_count split: if_splits)
  then have b: "slot i + kPageSize \<le> length ?f" by (rule wf_pm_slot [OF assms(1)])
  have ne: "page_image i p \<noteq> []" by (simp add: page_image_layout kMagic_def)
  have "segment 0 kPageSize (write_bytes (slot i) (page_image i p) ?f) = segment 0 kPageSize ?f"
    using b slot_after_catalog [of i] by (intro segment_write_other) auto
  moreover have "length (write_bytes (slot i) (page_image i p) ?f) = length ?f"
    using b assms(3) ne by simp
  ultimately show ?thesis
    using w assms(2) same_metaD [of pm pm'] by (auto simp: synced_def)
qed

text \<open>The catalog loader reads back the state the image was made from.\<close>

lemma catalog_fields:
  assumes "length (pm_bitmap pm) = kPageSize - kCatalogHeader"
  shows "take 4 (catalog_image pm) = kCatalogMagic" "get16_at 4 (catalog_image pm) = kCatalogVersion"
    "get64_at 8 (catalog_image pm) = pm_page_count pm" "get64_at 16 (catalog_image pm) = pm_allocated pm"
    "segment kCatalogHeader (kPageSize - kCatalogHeader) (catalog_image pm) = pm_bitmap pm"
  unfolding catalog_image_layout [OF assms] using assms
  by (simp_all add: kCatalogMagic_def get16_at_def get64_at_def segment_def catalog_defs)

lemma count_allocated_ids:
  assumes "unat (pm_page_count pm) \<le> kCatalogBits"
  shows "count_allocated pm = of_nat (length (allocated_ids (pm_bitmap pm) (unat (pm_page_count pm))))"
proof -
  have "is_page_allocated (of_nat k) pm = bit_set (pm_bitmap pm) (of_nat k)" if "k < unat (pm_page_count pm)" for k
    using that assms valid_small [of "of_nat k"]
    by (simp add: is_page_allocated_def word_less_nat_alt catalog_defs)
  then have "filter (\<lambda>k. is_page_allocated (of_nat k) pm) [0..<unat (pm_page_count pm)] =
      allocated_ids (pm_bitmap pm) (unat (pm_page_count pm))"
    unfolding allocated_ids_def by (intro filter_cong) auto
  then show ?thesis
    by (simp add: count_allocated_def count_fold)
qed

lemma load_catalog_synced:
  assumes "wf_pm pm" "synced pm" "contents (pm_file pm0) = contents (pm_file pm)"
    and "good (pm_file pm0)" "outcomes (pm_file pm0) = []"
  shows "load_catalog (length (contents (pm_file pm))) pm0 = (Inr (), pm\<lparr>pm_file := pm_file pm0\<rparr>)"
proof -
  let ?n = "pm_page_count pm"
  have r: "fs_read 0 kPageSize (pm_file pm0) = (catalog_image pm, pm_file pm0)"
    using assms wf_pm_bitmap [OF assms(1)] by (simp add: fs_read_def synced_def Let_def)
  have n: "of_nat (length (contents (pm_file pm)) div kPageSize) - 1 = ?n"
    using assms(2) by (simp add: synced_def kPageSize_def)
  have le: "\<not> ?n > of_nat kCatalogBits"
    using wf_pm_count [OF assms(1)] by (simp add: word_less_nat_alt catalog_defs)
  have cnt: "count_allocated (pm0\<lparr>pm_file := pm_file pm0, pm_page_count := ?n, pm_bitmap := pm_bitmap pm\<rparr>) = pm_allocated pm"
    using assms(1) by (subst count_allocated_ids) (simp_all add: wf_pm_def)
  show ?thesis
    using wf_pm_bitmap [OF assms(1)] catalog_fields [of pm] le cnt
    by (simp add: load_catalog_def bindE_def pm_io_def require_def ret_def modify_def gets_def r n)
qed


section \<open>The contract of the page store\<close>

text \<open>
  What a cache in front of the page manager relies on: reading gives the stored page, a successful
  write stores exactly the given page, a failed write touches no other page. The lemmas proved
  here are about a cache \<open>c\<close> laid over the store: the pages a client sees are
  \<open>pages s ++ c\<close>.
\<close>

locale page_store =
  fixes inv :: "'s \<Rightarrow> bool" and pages :: "'s \<Rightarrow> PageId \<rightharpoonup> page"
    and load :: "PageId \<Rightarrow> ('s, page) op" and store :: "PageId \<Rightarrow> page \<Rightarrow> ('s, unit) op"
  assumes pages_ok: "inv s \<Longrightarrow> pages s i = Some p \<Longrightarrow> pg_id p = i \<and> page_ok p"
    and read_law: "inv s \<Longrightarrow> wp (load i) (\<lambda>p t. inv t \<and> pages t = pages s \<and> pages s i = Some p)
          (\<lambda>_ t. inv t \<and> pages t = pages s) s"
    and write_law: "inv s \<Longrightarrow> page_ok p \<Longrightarrow>
          wp (store i p) (\<lambda>_ t. inv t \<and> pages t = (pages s)(i \<mapsto> p) \<and> pages s i \<noteq> None \<and> pg_id p = i)
            (\<lambda>_ t. inv t \<and> (\<forall>j. j \<noteq> i \<longrightarrow> pages t j = pages s j)) s"
begin

lemma read_written:
  assumes "inv s" "page_ok p" "store i p s = (Inr u, t)" "load j t = (Inr q, t')"
  shows "q = (if j = i then p else the (pages s j))"
proof -
  from wp_InrD [OF write_law [OF assms(1,2)] assms(3)]
  have "inv t" and t: "pages t = (pages s)(i \<mapsto> p)" by auto
  from wp_InrD [OF read_law [OF \<open>inv t\<close>] assms(4)] t show ?thesis by auto
qed

lemma cache_load:
  assumes "inv s" "load i s = (Inr p, t)" "c i = None"
  shows "inv t" "pages t ++ c(i \<mapsto> p) = pages s ++ c" "pg_id p = i" "page_ok p"
proof -
  note r = wp_InrD [OF read_law [OF assms(1)] assms(2)]
  then show "inv t" by simp
  from r assms(3) show "pages t ++ c(i \<mapsto> p) = pages s ++ c"
    by (auto simp: map_add_def fun_eq_iff split: option.split)
  from r pages_ok [OF assms(1)] show "pg_id p = i" "page_ok p" by auto
qed

lemma cache_write_back:
  assumes "inv s" "c i = Some p" "page_ok p"
  shows "wp (store i p) (\<lambda>_ t. inv t \<and> pages t ++ c = pages s ++ c \<and> pages t ++ c(i := None) = pages s ++ c)
    (\<lambda>_ t. inv t \<and> pages t ++ c = pages s ++ c) s"
  using assms(2)
  by (intro wp_mono [OF write_law [OF assms(1,3)]])
     (auto simp: map_add_def fun_eq_iff split: option.split, metis option.distinct(1))

end

lemma pm_pages_page:
  assumes "wf_pm pm" "pm_pages pm i = Some p"
  shows "pg_id p = i \<and> page_ok p"
proof -
  have "i < pm_page_count pm"
    using assms(2) by (auto simp: pm_pages_def dest: is_page_allocated_count split: if_splits)
  from wf_pm_slot [OF assms(1) this] assms(2) show ?thesis
    by (auto simp: pm_pages_def decode_page_ok split: if_splits)
qed

interpretation disk: page_store wf_pm pm_pages read_page write_page
proof
  show "pg_id p = i \<and> page_ok p" if "wf_pm pm" "pm_pages pm i = Some p" for pm i p
    using that by (rule pm_pages_page)
  show "wp (read_page i) (\<lambda>p t. wf_pm t \<and> pm_pages t = pm_pages pm \<and> pm_pages pm i = Some p)
      (\<lambda>_ t. wf_pm t \<and> pm_pages t = pm_pages pm) pm" if "wf_pm pm" for pm i
    by (rule wp_mono [OF read_page_spec [OF that]]) auto
  show "wp (write_page i p) (\<lambda>_ t. wf_pm t \<and> pm_pages t = (pm_pages pm)(i \<mapsto> p) \<and> pm_pages pm i \<noteq> None \<and> pg_id p = i)
      (\<lambda>_ t. wf_pm t \<and> (\<forall>j. j \<noteq> i \<longrightarrow> pm_pages t j = pm_pages pm j)) pm" if "wf_pm pm" "page_ok p" for pm i p
    by (rule wp_mono [OF write_page_spec [OF that]]) auto
qed

end
