(* ===== verification/PageHistory.thy ===== *)
theory PageHistory
  imports PageStore
begin

text \<open>
  The histories of a database file: a page manager is created on an empty path, runs any sequence
  of its operations and may be closed and reopened at any point. The properties of the page
  manager are at the end of the theory.
\<close>

section \<open>Allocation as one operation\<close>

lemma allocate_page_spec:
  assumes "wf_pm pm"
  shows "wp allocate_page
     (\<lambda>i pm'. wf_pm pm' \<and> i = pm_page_count pm \<and> pm_page_count pm' = i + 1 \<and> pm_pages pm i = None \<and>
        pm_pages pm' = (pm_pages pm)(i \<mapsto> new_page i) \<and>
        (fault_free (pm_file pm) \<longrightarrow> fault_free (pm_file pm')) \<and> (synced pm \<longrightarrow> synced pm'))
     (\<lambda>_ pm'. wf_pm pm' \<and>
        (fault_free (pm_file pm) \<longrightarrow> unat (pm_page_count pm) = kCatalogBits \<and> pm' = pm)) pm"
  unfolding allocate_page_def wp_bindE
proof (rule wp_mono [OF wp_conj [OF reserve_page_spec [OF assms] wp_self]], goal_cases)
  case (1 i pm1)
  then have wf1: "wf_pm pm1" and p1: "pm_pages pm1 = pm_pages pm" and r: "reserve_page pm = (Inr i, pm1)"
    and i: "i < pm_page_count pm1" and none: "pm_pages pm1 i = None"
    and new: "decode_page i (segment (slot i) kPageSize (contents (pm_file pm1))) = new_page i"
    and c: "pm_page_count pm1 = i + 1" and n: "i = pm_page_count pm"
    and ff: "fault_free (pm_file pm) \<longrightarrow> fault_free (pm_file pm1)"
    by (auto simp: same_meta_def pm_pages_def word_less_nat_alt unat_word_ariths catalog_defs
        dest: is_page_allocated_count)
  have sync: "synced pm \<Longrightarrow> activate_reserved_page i pm1 = (Inr (), pm2) \<Longrightarrow> synced pm2" for pm2
    using synced_activate [OF wf1] synced_reserve [OF assms _ r] by blast
  show ?case
  proof (rule wp_mono [OF wp_conj [OF activate_reserved_page_spec [OF wf1, of i] wp_self]], goal_cases)
    case (1 u pm2)
    then show ?case using sync [of pm2] ff p1 none c n new by (simp add: wp_ret)
  next
    case (2 e pm2)
    then show ?case using i none ff by (simp split: if_splits)
  qed
next
  case (2 e pm1)
  then show ?case by auto
qed

lemma keeps_wf_pm [keeps_intros]:
  "keeps wf_pm reserve_page" "keeps wf_pm (activate_reserved_page i)" "keeps wf_pm allocate_page"
  "keeps wf_pm (deallocate_page i)" "keeps wf_pm (read_page i)" "keeps wf_pm pm_flush"
  "keeps wf_pm (validate_physical_page_for_recovery i)" "keeps wf_pm (materialize_page_for_recovery i)"
  by (rule keeps_spec [OF reserve_page_spec] keeps_spec [OF activate_reserved_page_spec]
        keeps_spec [OF allocate_page_spec] keeps_spec [OF deallocate_page_spec]
        keeps_spec [OF read_page_spec] keeps_spec [OF pm_flush_spec]
        keeps_spec [OF validate_physical_page_spec] keeps_spec [OF materialize_page_spec]; auto)+

lemma keeps_wf_pm_write [keeps_intros]: "page_ok p \<Longrightarrow> keeps wf_pm (write_page i p)"
  by (rule keeps_spec, erule (1) write_page_spec [rotated]) auto


section \<open>Creating and reopening a database file\<close>

lemma bit_set_zero: "unat i < kCatalogBits \<Longrightarrow> \<not> bit_set (replicate (kPageSize - kCatalogHeader) 0) i"
  by (simp add: bit_set_iff catalog_defs)

lemma open_create:
  assumes "open_page_manager None None outs = (Inr (), pm)"
  shows "wf_pm pm" "synced pm" "pm_pages pm = Map.empty" "pm_page_count pm = 0"
    "(\<forall>e \<in> set outs. e = IoOk) \<Longrightarrow> fault_free (pm_file pm)"
proof -
  define pm0 where "pm0 = \<lparr>pm_file = \<lparr>contents = [], good = True, outcomes = outs\<rparr>, pm_page_count = 0,
    pm_bitmap = replicate (kPageSize - kCatalogHeader) 0, pm_allocated = 0\<rparr>"
  let ?fs = "fs_write 0 (catalog_image pm0) (fs_clear (pm_file pm0))"
  have "(if good ?fs then (Inr (), pm0\<lparr>pm_file := fs_flush ?fs\<rparr>)
         else (Inl (StorageError Stream_not_good), pm0\<lparr>pm_file := ?fs\<rparr>)) = (Inr (), pm)"
    using assms unfolding open_page_manager_def Let_def option.case pm0_def [symmetric]
    by (simp add: bindE_def require_def ret_def throw_def write_allocation_catalog_def gets_def pm_io_def
        ensure_stream_good_def split: if_splits)
  then have g: "good ?fs" and pm: "pm = pm0\<lparr>pm_file := fs_flush ?fs\<rparr>"
    by (auto split: if_splits)
  have img: "length (catalog_image pm0) = kPageSize"
    by (simp add: pm0_def)
  have c: "contents (pm_file pm) = catalog_image pm0"
    using fs_write_ok [OF g] write_bytes_append [of 0 "[]" "catalog_image pm0"] by (simp add: pm) (simp add: pm0_def)
  have "\<not> bit_set (pm_bitmap pm) (of_nat k)" if "k < kCatalogBits" for k
    using bit_set_zero [of "of_nat k"] that by (simp add: pm pm0_def) (simp add: catalog_defs)
  then show "wf_pm pm"
    unfolding wf_pm_def c by (auto simp: pm img) (simp_all add: pm0_def allocated_ids_def)
  show n: "pm_page_count pm = 0" by (simp add: pm pm0_def)
  have "catalog_image pm = catalog_image pm0" by (simp add: pm)
  with n img show "synced pm" by (simp add: synced_def c segment_all)
  from n show "pm_pages pm = Map.empty" by (auto simp: pm_pages_def is_page_allocated_def)
  show "fault_free (pm_file pm)" if "\<forall>e \<in> set outs. e = IoOk"
  proof -
    from that have "fault_free (fs_clear (pm_file pm0))" by (simp add: fault_free_def pm0_def)
    then have "fault_free ?fs" using fs_write_fault_free(2) by simp
    then show ?thesis by (simp add: pm fs_flush_fault_free)
  qed
qed

lemma open_create_succeeds: "\<exists>pm. open_page_manager None None [] = (Inr (), pm)"
  by (simp add: open_page_manager_def bindE_def require_def ret_def write_allocation_catalog_def gets_def pm_io_def
      ensure_stream_good_def fs_write_def fs_clear_def)

lemma open_synced:
  assumes "wf_pm pm" "synced pm"
  shows "open_page_manager None (Some (contents (pm_file pm))) [] =
    (Inr (), pm\<lparr>pm_file := \<lparr>contents = contents (pm_file pm), good = True, outcomes = []\<rparr>\<rparr>)"
proof -
  have "length (contents (pm_file pm)) mod kPageSize = 0" "contents (pm_file pm) \<noteq> []"
    using assms(2) by (auto simp: synced_def kPageSize_def)
  with load_catalog_synced [OF assms] show ?thesis
    by (simp add: open_page_manager_def Let_def bindE_def require_def ret_def)
qed

text \<open>The manager's state in any history without file faults.\<close>

inductive pm_reachable :: "page_manager \<Rightarrow> bool" where
  pm_create: "open_page_manager None None outs = (Inr (), pm) \<Longrightarrow> \<forall>e \<in> set outs. e = IoOk \<Longrightarrow> pm_reachable pm"
| pm_reopen: "pm_reachable pm \<Longrightarrow>
    open_page_manager None (Some (contents (pm_file pm))) [] = (Inr (), pm') \<Longrightarrow> pm_reachable pm'"
| pm_reserve: "pm_reachable pm \<Longrightarrow> pm_reachable (snd (reserve_page pm))"
| pm_activate: "pm_reachable pm \<Longrightarrow> pm_reachable (snd (activate_reserved_page i pm))"
| pm_allocate: "pm_reachable pm \<Longrightarrow> pm_reachable (snd (allocate_page pm))"
| pm_deallocate: "pm_reachable pm \<Longrightarrow> pm_reachable (snd (deallocate_page i pm))"
| pm_read: "pm_reachable pm \<Longrightarrow> pm_reachable (snd (read_page i pm))"
| pm_write: "pm_reachable pm \<Longrightarrow> page_ok p \<Longrightarrow> pm_reachable (snd (write_page i p pm))"
| pm_flush: "pm_reachable pm \<Longrightarrow> pm_reachable (snd (pm_flush pm))"

definition pm_good :: "page_manager \<Rightarrow> bool" where
  "pm_good pm \<longleftrightarrow> wf_pm pm \<and> synced pm \<and> fault_free (pm_file pm)"

lemma pm_goodI:
  assumes "wp m (\<lambda>_. pm_good) (\<lambda>_. pm_good) pm"
  shows "pm_good (snd (m pm))"
  using assms by (rule wp_runD)

lemma synced_same:
  "synced pm \<Longrightarrow> same_meta pm pm' \<Longrightarrow> contents (pm_file pm') = contents (pm_file pm) \<Longrightarrow> synced pm'"
  by (simp add: synced_def same_metaD)

lemma pm_good_ops:
  assumes "pm_good pm"
  shows "pm_good (snd (reserve_page pm))" "pm_good (snd (activate_reserved_page i pm))"
    "pm_good (snd (allocate_page pm))" "pm_good (snd (deallocate_page i pm))"
    "pm_good (snd (read_page i pm))" "page_ok p \<Longrightarrow> pm_good (snd (write_page i p pm))"
    "pm_good (snd (pm_flush pm))"
proof -
  have g: "wf_pm pm" "synced pm" "fault_free (pm_file pm)" using assms by (simp_all add: pm_good_def)
  show "pm_good (snd (reserve_page pm))"
    by (rule pm_goodI, rule wp_mono [OF wp_conj [OF reserve_page_spec [OF g(1)] wp_self]])
       (use g synced_reserve [OF g(1,2)] in \<open>auto simp: pm_good_def\<close>)
  show "pm_good (snd (activate_reserved_page i pm))"
    by (rule pm_goodI, rule wp_mono [OF wp_conj [OF activate_reserved_page_spec [OF g(1)] wp_self]])
       (use g synced_activate [OF g(1,2)] in \<open>auto simp: pm_good_def split: if_splits\<close>)
  show "pm_good (snd (allocate_page pm))"
    by (rule pm_goodI, rule wp_mono [OF allocate_page_spec [OF g(1)]]) (use g in \<open>auto simp: pm_good_def\<close>)
  show "pm_good (snd (deallocate_page i pm))"
    by (rule pm_goodI, rule wp_mono [OF wp_conj [OF deallocate_page_spec [OF g(1)] wp_self]])
       (use g synced_deallocate [OF g(1,2)] in \<open>auto simp: pm_good_def split: if_splits\<close>)
  show "pm_good (snd (read_page i pm))"
    by (rule pm_goodI, rule wp_mono [OF read_page_spec [OF g(1)]])
       (use g synced_same [OF g(2)] in \<open>auto simp: pm_good_def\<close>)
  show "pm_good (snd (write_page i p pm))" if "page_ok p"
    by (rule pm_goodI, rule wp_mono [OF wp_conj [OF write_page_spec [OF g(1) that] wp_self]])
       (use g synced_write [OF g(1,2) that] in \<open>auto simp: pm_good_def\<close>)
  show "pm_good (snd (pm_flush pm))"
    by (rule pm_goodI, rule wp_mono [OF pm_flush_spec [OF g(1)]])
       (use g synced_same [OF g(2)] in \<open>auto simp: pm_good_def\<close>)
qed


lemma pm_reachable_good: "pm_reachable pm \<Longrightarrow> pm_good pm"
proof (induction rule: pm_reachable.induct)
  case (pm_create outs pm)
  from open_create [OF pm_create(1)] pm_create(2) show ?case by (simp add: pm_good_def)
next
  case (pm_reopen pm pm')
  then have "pm' = pm\<lparr>pm_file := \<lparr>contents = contents (pm_file pm), good = True, outcomes = []\<rparr>\<rparr>"
    using open_synced [of pm] by (simp add: pm_good_def)
  then show ?case
    using pm_reopen.IH by (auto simp: pm_good_def wf_pm_same_contents fault_free_def intro: synced_same)
qed (simp_all add: pm_good_ops)

section \<open>Runs that succeed\<close>

lemma write_page_succeeds:
  assumes "wf_pm pm" "fault_free (pm_file pm)" "page_ok p" "pm_pages pm i \<noteq> None" "pg_id p = i"
  shows "\<exists>pm'. write_page i p pm = (Inr (), pm') \<and> wf_pm pm' \<and> fault_free (pm_file pm') \<and>
    pm_pages pm' = (pm_pages pm)(i \<mapsto> p)"
  using wp_succeeds [OF write_page_spec [OF assms(1,3), of i]] assms by auto

lemma read_page_succeeds:
  assumes "wf_pm pm" "fault_free (pm_file pm)" "pm_pages pm i = Some p"
  shows "\<exists>pm'. read_page i pm = (Inr p, pm')"
  using wp_succeeds [OF read_page_spec [OF assms(1), of i]] assms by auto

lemma allocate_page_succeeds:
  assumes "wf_pm pm" "fault_free (pm_file pm)" "unat (pm_page_count pm) \<noteq> kCatalogBits"
  shows "\<exists>i pm'. allocate_page pm = (Inr i, pm')"
  using wp_succeeds [OF allocate_page_spec [OF assms(1)]] assms by auto

text \<open>A small database for the witnesses: one page, allocated in a new file.\<close>

definition one_page_database :: page_manager where
  "one_page_database = snd (allocate_page (snd (open_page_manager None None [])))"

definition example_page :: page where
  "example_page = \<lparr>pg_id = 0, pg_lsn = 7, pg_payload = replicate kPagePayloadSize 1\<rparr>"

lemma one_page_database:
  "pm_reachable one_page_database" "pm_pages one_page_database = [0 \<mapsto> new_page 0]"
  "pm_page_count one_page_database = 1"
proof -
  obtain pm where o: "open_page_manager None None [] = (Inr (), pm)" using open_create_succeeds by blast
  note c = open_create [OF o]
  from c obtain i pm' where a: "allocate_page pm = (Inr i, pm')"
    using allocate_page_succeeds [of pm] by (auto simp: catalog_defs)
  have "pm_reachable pm" using o by (intro pm_reachable.pm_create) auto
  from pm_reachable.pm_allocate [OF this] show "pm_reachable one_page_database"
    by (simp add: one_page_database_def o)
  from wp_InrD [OF allocate_page_spec [OF c(1)] a] c
  show "pm_pages one_page_database = [0 \<mapsto> new_page 0]" "pm_page_count one_page_database = 1"
    by (simp_all add: one_page_database_def o a)
qed

lemma one_page_database_good: "wf_pm one_page_database" "fault_free (pm_file one_page_database)" "synced one_page_database"
  using pm_reachable_good [OF one_page_database(1)] by (simp_all add: pm_good_def)

section \<open>Properties\<close>

text \<open>C1: Every operation of the page manager keeps its invariant, whether it returns or throws and
  whatever the file does under it: the allocated-page count is the number of catalog bits set, no
  bit is set beyond the physical page count, and every physical slot lies in the file with the
  envelope of its own page number.\<close>

theorem pm_operations_keep_wf:
  "keeps wf_pm reserve_page \<and> keeps wf_pm (activate_reserved_page i) \<and> keeps wf_pm allocate_page \<and>
   keeps wf_pm (deallocate_page i) \<and> keeps wf_pm (read_page i) \<and> keeps wf_pm pm_flush \<and>
   keeps wf_pm (validate_physical_page_for_recovery i) \<and> keeps wf_pm (materialize_page_for_recovery i) \<and>
   (page_ok p \<longrightarrow> keeps wf_pm (write_page i p))"
  by (simp add: keeps_wf_pm keeps_wf_pm_write)

theorem pm_operations_keep_wf_witness:
  "page_ok (new_page 0) \<and> keeps wf_pm (write_page 0 (new_page 0))"
  using pm_operations_keep_wf [of 0 "new_page 0"] by (simp add: page_ok_def new_page_def)

text \<open>C2: Reading back. After a successful write of a page, a successful read returns exactly that
  page for its own number, and for any other number the page that was stored there before.\<close>

theorem read_after_write:
  assumes "wf_pm pm" "page_ok p" "write_page i p pm = (Inr (), pm')" "read_page j pm' = (Inr q, pm'')"
  shows "q = (if j = i then p else the (pm_pages pm j)) \<and> pm_pages pm' = (pm_pages pm)(i \<mapsto> p)"
  using disk.read_written [OF assms] wp_InrD [OF disk.write_law [OF assms(1,2)] assms(3)] by simp

theorem read_after_write_witness:
  "\<exists>pm' pm'' q. write_page 0 example_page one_page_database = (Inr (), pm') \<and>
     read_page 0 pm' = (Inr q, pm'') \<and> q = example_page"
proof -
  have ok: "page_ok example_page" by (simp add: page_ok_def example_page_def)
  obtain pm' where w: "write_page 0 example_page one_page_database = (Inr (), pm')"
    and g: "wf_pm pm'" "fault_free (pm_file pm')" and m: "pm_pages pm' = (pm_pages one_page_database)(0 \<mapsto> example_page)"
    using write_page_succeeds [OF one_page_database_good(1,2) ok, of 0]
    by (auto simp: one_page_database example_page_def)
  obtain pm'' where r: "read_page 0 pm' = (Inr example_page, pm'')"
    using read_page_succeeds [OF g, of 0] m by auto
  from read_after_write [OF one_page_database_good(1) ok w r] w r show ?thesis by auto
qed

text \<open>C3: Persistence. In every history without file faults, closing the database and opening its file
  again succeeds and gives the same page count, allocation bitmap and allocated-page count.\<close>

theorem reopen_restores_state:
  assumes "pm_reachable pm"
  shows "open_page_manager None (Some (contents (pm_file pm))) [] =
    (Inr (), pm\<lparr>pm_file := \<lparr>contents = contents (pm_file pm), good = True, outcomes = []\<rparr>\<rparr>)"
  using pm_reachable_good [OF assms] by (simp add: pm_good_def open_synced)

theorem reopen_restores_state_witness:
  "\<exists>pm. open_page_manager None (Some (contents (pm_file one_page_database))) [] = (Inr (), pm) \<and>
     pm_page_count pm = 1"
  using reopen_restores_state [OF one_page_database(1)] by (simp add: one_page_database)

text \<open>C4: Allocation returns the next page number, which was not allocated, and makes a zero page with
  LSN zero readable there; no other page changes. Without a file fault it fails only when the
  catalog is full, and then changes nothing.\<close>

theorem allocate_page_fresh:
  assumes "wf_pm pm"
  shows "case allocate_page pm of
      (Inr i, pm') \<Rightarrow> i = pm_page_count pm \<and> pm_pages pm i = None \<and> pm_pages pm' = (pm_pages pm)(i \<mapsto> new_page i)
    | (Inl e, pm') \<Rightarrow> fault_free (pm_file pm) \<longrightarrow> unat (pm_page_count pm) = kCatalogBits \<and> pm' = pm"
  using allocate_page_spec [OF assms] by (simp add: wp_def split: prod.splits sum.splits)

theorem allocate_page_fresh_witness:
  "\<exists>pm'. allocate_page one_page_database = (Inr 1, pm') \<and> pm_pages pm' 1 = Some (new_page 1)"
  using allocate_page_fresh [OF one_page_database_good(1)] allocate_page_succeeds [OF one_page_database_good(1,2)]
  by (auto simp: one_page_database catalog_defs)

text \<open>C5: Logical deallocation makes the page unreadable and unwritable and leaves every other page as it
  is; the number is not reused: the next allocation returns a different one.\<close>

theorem deallocated_page_gone:
  assumes "wf_pm pm" "deallocate_page i pm = (Inr (), pm')"
  shows "pm_pages pm' = (pm_pages pm)(i := None) \<and>
    (\<exists>e pm''. read_page i pm' = (Inl e, pm'')) \<and> (\<exists>e. write_page i p pm' = (Inl e, pm')) \<and>
    (\<forall>j pm''. allocate_page pm' = (Inr j, pm'') \<longrightarrow> j \<noteq> i)"
proof -
  note d = wp_InrD [OF deallocate_page_spec [OF assms(1)] assms(2)]
  have na: "\<not> is_page_allocated i pm'" using d by (auto simp: pm_pages_def fun_eq_iff split: if_splits)
  then have v: "\<exists>e. validate_logically_allocated i pm' = (Inl e, pm')"
    using wp_validate_logically_allocated [of pm' i "\<lambda>_ _. False" "\<lambda>_ t. t = pm'"] d
    by (auto simp: wp_def split: prod.splits sum.splits)
  moreover have "i < pm_page_count pm"
    using d by (auto simp: pm_pages_def dest: is_page_allocated_count split: if_splits)
  ultimately show ?thesis
    using d wp_InrD [OF allocate_page_spec [of pm']]
    by (auto simp: read_page_def write_page_def bindE_def)
qed

theorem deallocated_page_gone_witness:
  "\<exists>pm'. deallocate_page 0 one_page_database = (Inr (), pm') \<and> pm_pages pm' = Map.empty"
proof -
  obtain pm' where d: "deallocate_page 0 one_page_database = (Inr (), pm')"
    using wp_succeeds [OF deallocate_page_spec [OF one_page_database_good(1), of 0]] one_page_database_good(2)
    by (auto simp: one_page_database)
  from deallocated_page_gone [OF one_page_database_good(1) d] d show ?thesis by (auto simp: one_page_database)
qed

text \<open>C36: File offsets. A page number is either rejected or mapped to the byte position just past its
  predecessors and the catalog page, with one exception: the largest number the guard accepts is mapped
  to a negative offset, because the guard does not count the catalog page the offset skips.\<close>

theorem offset_for_result:
  "offset_for i =
     (if i = kInvalidValue then Inl (StorageError Invalid_page_id)
      else if unat i \<ge> 2 ^ 51 then Inl (StorageError Offset_not_representable)
      else if unat i = 2 ^ 51 - 1 then Inr (- (2 ^ 63))
      else Inr (int ((unat i + 1) * 4096)))"
  using offset_for_cases [of i] by (simp add: slot_def kPageSize_def)

end
