(* ===== verification/LogHistory.thy ===== *)
theory LogHistory
  imports LogManager PageHistory
begin

text \<open>
  Histories of a log file through appends, flushes, failed appends and reopening, the logged page
  allocation that combines log and page manager, and the properties of the log.
\<close>

section \<open>Payload round trips\<close>

lemma decode_encode_mutation:
  assumes "encode_physical_mutation m = Inr bs"
  shows "decode_physical_mutation bs = Inr (m\<lparr>mu_previous_page_lsn := 0\<rparr>)"
proof -
  have g: "is_valid (mu_page_id m)" "length (mu_before_image m) = kPagePayloadSize"
      "length (mu_after_image m) = kPagePayloadSize"
    and bs: "bs = put64 (mu_page_id m) @ [0] @ put64 (mu_sequence m) @ put32 (of_nat kPagePayloadSize) @
      put32 (of_nat kPagePayloadSize) @ mu_before_image m @ mu_after_image m"
    using assms by (cases "mu_kind m"; auto simp: encode_physical_mutation_def split: if_splits)+
  have n: "unat (of_nat kPagePayloadSize :: uint32) = kPagePayloadSize" by (simp add: size_defs)
  have f: "length bs = 25 + kPagePayloadSize + kPagePayloadSize" "bs ! 8 = 0"
      "get32_at 17 bs = of_nat kPagePayloadSize" "get32_at 21 bs = of_nat kPagePayloadSize"
      "get64_at 0 bs = mu_page_id m" "get64_at 9 bs = mu_sequence m"
    and i: "drop 25 bs = mu_before_image m @ mu_after_image m"
    using g(2,3) by (simp_all add: bs get32_at_def get64_at_def nth_append)
  have "drop (25 + kPagePayloadSize) bs = drop kPagePayloadSize (drop 25 bs)" by (simp add: add.commute)
  with i g(2) have "segment 25 kPagePayloadSize bs = mu_before_image m" "drop (25 + kPagePayloadSize) bs = mu_after_image m"
    by (simp_all add: segment_def)
  with f show ?thesis
    using g(1) by (cases "mu_kind m") (simp add: decode_physical_mutation_def n Let_def)
qed

section \<open>Histories\<close>

text \<open>
  \<open>log_history lm rs stored\<close>: the manager \<open>lm\<close> can be reached with the log \<open>rs\<close>; \<open>stored\<close> are the
  records that were in the log at some successful flush. A failed append may leave any part of
  its record in the file, and is followed by a restart.
\<close>

inductive log_history :: "log_manager \<Rightarrow> wal_record list \<Rightarrow> wal_record set \<Rightarrow> bool" where
  lh_create: "open_log_manager None None outs = (Inr (), lm) \<Longrightarrow> log_history lm [] {}"
| lh_append: "log_history lm rs stored \<Longrightarrow> lm_next_lsn lm + 1 \<noteq> 0 \<Longrightarrow>
    append_wal t tid payload lm = (Inr lsn, lm') \<Longrightarrow>
    log_history lm' (rs @ [\<lparr>wr_lsn = lsn, wr_transaction_id = tid, wr_type = t, wr_payload = payload\<rparr>]) stored"
| lh_flush: "log_history lm rs stored \<Longrightarrow> wal_flush lm = (Inr (), lm') \<Longrightarrow> log_history lm' rs (set rs)"
| lh_flush_fails: "log_history lm rs stored \<Longrightarrow> wal_flush lm = (Inl e, lm') \<Longrightarrow> log_history lm' rs stored"
| lh_inject: "log_history lm rs stored \<Longrightarrow> fail_next_flush_for_testing lm = (Inr (), lm') \<Longrightarrow> log_history lm' rs stored"
| lh_reopen: "log_history lm rs stored \<Longrightarrow>
    open_log_manager None (Some (contents (lm_file lm))) outs = (Inr (), lm') \<Longrightarrow> log_history lm' rs stored"
| lh_crash: "log_history lm rs stored \<Longrightarrow> lm_next_lsn lm + 1 \<noteq> 0 \<Longrightarrow>
    append_wal t tid payload lm = (Inl e, lm1) \<Longrightarrow> read_records (Some (contents (lm_file lm1))) = Inr rs' \<Longrightarrow>
    open_log_manager None (Some (contents (lm_file lm1))) outs = (Inr (), lm') \<Longrightarrow> log_history lm' rs' stored"

lemma wf_log_no_wrap:
  assumes "wf_log lm rs"
  shows "rs = [] \<or> wr_lsn (last rs) + 1 \<noteq> 0"
proof (cases "rs = []")
  case False
  then have "wr_lsn (last rs) < lm_next_lsn lm" using assms by (simp add: wf_log_def)
  then show ?thesis by (auto dest: word_less_no_wrap)
qed simp

lemma open_after:
  assumes "torn_log c rs" "wf_log lm rs" "open_log_manager None (Some c) outs = (Inr (), lm')"
  shows "wf_log lm' rs"
  using open_torn_log [OF assms(1) wf_log_no_wrap [OF assms(2)], of outs] assms(3) by auto

lemma failed_append:
  assumes "wf_log lm rs" "lm_next_lsn lm + 1 \<noteq> 0" "append_wal t tid payload lm = (Inl e, lm1)"
  defines "r \<equiv> \<lparr>wr_lsn = lm_next_lsn lm, wr_transaction_id = tid, wr_type = t, wr_payload = payload\<rparr>"
  obtains rs' lm2 where "rs' = rs \<or> rs' = rs @ [r]" "torn_log (contents (lm_file lm1)) rs'"
    "open_log_manager None (Some (contents (lm_file lm1))) outs = (Inr (), lm2)" "wf_log lm2 rs'"
proof -
  have "torn_log (contents (lm_file lm1)) rs \<or> wf_log lm1 (rs @ [r])"
    using wp_InlD [OF append_wal_spec [OF assms(1,2)] assms(3)] by (simp add: r_def)
  then obtain rs' lmx where c: "rs' = rs \<or> rs' = rs @ [r]" and t: "torn_log (contents (lm_file lm1)) rs'" and w: "wf_log lmx rs'"
    using wf_log_torn assms(1) by blast
  from open_torn_log [OF t wf_log_no_wrap [OF w], of outs] c t show thesis by (metis that)
qed

lemma log_history_wf: "log_history lm rs stored \<Longrightarrow> wf_log lm rs \<and> stored \<subseteq> set rs"
proof (induction rule: log_history.induct)
  case (lh_create outs lm)
  then show ?case
    using open_log_manager_scanned [of None "[]" outs] by (auto simp: read_records_def wf_log_def)
next
  case (lh_append lm rs stored t tid payload lsn lm')
  then show ?case using wp_InrD [OF append_wal_spec lh_append(3)] by auto
next
  case (lh_flush lm rs stored lm')
  then show ?case using wp_InrD [OF wal_flush_spec lh_flush(2)] by auto
next
  case (lh_flush_fails lm rs stored e lm')
  then show ?case using wp_InlD [OF wal_flush_spec lh_flush_fails(2)] by auto
next
  case (lh_inject lm rs stored lm')
  then show ?case by (auto simp: fail_next_flush_for_testing_def modify_def wf_log_def)
next
  case (lh_reopen lm rs stored outs lm')
  then show ?case using open_after [OF wf_log_torn] by blast
next
  case (lh_crash lm rs stored t tid payload e lm1 rs' outs lm')
  then obtain rs2 lm2 where c: "rs2 = rs \<or> (\<exists>r. rs2 = rs @ [r])" "torn_log (contents (lm_file lm1)) rs2"
      "open_log_manager None (Some (contents (lm_file lm1))) outs = (Inr (), lm2)" "wf_log lm2 rs2"
    using failed_append [of lm rs t tid payload e lm1 outs] by metis
  moreover have "rs2 = rs'" using read_torn_log [OF c(2)] lh_crash(4) by simp
  ultimately show ?case using lh_crash(5) lh_crash.IH by auto
qed

lemma append_wal_succeeds:
  assumes "wf_log lm rs" "lm_next_lsn lm + 1 \<noteq> 0" "fault_free (lm_file lm)"
    and r: "r = \<lparr>wr_lsn = lm_next_lsn lm, wr_transaction_id = tid, wr_type = t, wr_payload = payload\<rparr>" "record_ok r"
  shows "\<exists>lm'. append_wal t tid payload lm = (Inr (lm_next_lsn lm), lm') \<and> wf_log lm' (rs @ [r]) \<and>
    lm_next_lsn lm' = lm_next_lsn lm + 1 \<and> lm_durable_lsn lm' = lm_durable_lsn lm \<and>
    lm_fail_next_flush lm' = lm_fail_next_flush lm \<and> good (lm_file lm') \<and> fault_free (lm_file lm')"
  using wp_succeeds [OF append_wal_spec [OF assms(1,2), of t tid payload]] assms(3) r by auto

lemma wal_flush_succeeds:
  assumes "wf_log lm rs" "fault_free (lm_file lm)" "good (lm_file lm)" "\<not> lm_fail_next_flush lm"
  shows "\<exists>lm'. wal_flush lm = (Inr (), lm') \<and> wf_log lm' rs \<and> lm_durable_lsn lm' = lm_next_lsn lm - 1"
  using wp_succeeds [OF wal_flush_spec [OF assms(1)]] assms(2-4) by auto

section \<open>Logged page allocation\<close>

definition on_pages :: "(page_manager, 'a) op \<Rightarrow> (page_manager \<times> log_manager, 'a) op" where
  "on_pages = zoom fst (\<lambda>p s. (p, snd s))"

definition on_log :: "(log_manager, 'a) op \<Rightarrow> (page_manager \<times> log_manager, 'a) op" where
  "on_log = zoom snd (\<lambda>l s. (fst s, l))"

definition allocate_transactional_page :: "TransactionId \<Rightarrow> (page_manager \<times> log_manager, PageId) op" where
  "allocate_transactional_page tid =
     bindE (on_pages reserve_page) (\<lambda>i.
     bindE (on_log (append_page_allocate tid i)) (\<lambda>_.
     bindE (on_log wal_flush) (\<lambda>_.
     bindE (on_pages (activate_reserved_page i)) (\<lambda>_.
     ret i))))"

lemma bindE_lift_Inr: "bindE (lift_result (Inr x)) f = f x"
  by (simp add: bindE_def lift_result_def)

lemma append_page_allocate_valid:
  "is_valid i \<Longrightarrow> append_page_allocate tid i = append_wal PageAllocate tid (put64 i)"
  by (simp add: append_page_allocate_def encode_page_allocate_def bindE_lift_Inr)

text \<open>The record of an allocation.\<close>

definition allocate_record :: "uint64 \<Rightarrow> TransactionId \<Rightarrow> PageId \<Rightarrow> wal_record" where
  "allocate_record lsn tid i =
     \<lparr>wr_lsn = lsn, wr_transaction_id = tid, wr_type = PageAllocate, wr_payload = put64 i\<rparr>"

lemma allocate_record_ok: "record_ok (allocate_record lsn tid i) \<longleftrightarrow> lsn \<noteq> 0"
  by (simp add: record_ok_def allocate_record_def wal_size_defs)

lemma reserved_page:
  assumes "wf_pm pm" "reserve_page pm = (Inr i, pm1)"
  shows "wf_pm pm1" "pm_pages pm1 = pm_pages pm" "i = pm_page_count pm" "is_valid i" "i < pm_page_count pm1"
    "pm_pages pm1 i = None"
    "decode_page i (segment (slot i) kPageSize (contents (pm_file pm1))) = new_page i"
    "fault_free (pm_file pm) \<Longrightarrow> fault_free (pm_file pm1)"
  using wp_InrD [OF reserve_page_spec [OF assms(1)] assms(2)]
  by (auto simp: same_meta_def pm_pages_def word_less_nat_alt unat_word_ariths catalog_defs is_valid_def
      kInvalidValue_def dest: is_page_allocated_count)

lemma allocate_transactional_page_spec:
  fixes tid :: TransactionId
  assumes "wf_pm pm" "wf_log lm rs" "lm_next_lsn lm + 1 \<noteq> 0"
  defines "logged lm' i \<equiv> wf_log lm' (rs @ [allocate_record (lm_next_lsn lm) tid i]) \<and>
    lm_durable_lsn lm' = lm_next_lsn lm"
  shows "wp (allocate_transactional_page tid)
     (\<lambda>i s. wf_pm (fst s) \<and> i = pm_page_count pm \<and> pm_pages pm i = None \<and>
        pm_pages (fst s) = (pm_pages pm)(i \<mapsto> new_page i) \<and> logged (snd s) i)
     (\<lambda>_ s. wf_pm (fst s) \<and>
        (pm_pages (fst s) = pm_pages pm \<or>
         (\<exists>i. pm_pages (fst s) = (pm_pages pm)(i \<mapsto> new_page i) \<and> logged (snd s) i)) \<and>
        (fault_free (pm_file pm) \<and> fault_free (lm_file lm) \<longrightarrow>
           unat (pm_page_count pm) = kCatalogBits \<or> lm_fail_next_flush lm)) (pm, lm)"
  unfolding allocate_transactional_page_def on_pages_def on_log_def wp_bindE wp_zoom fst_conv snd_conv
proof (rule wp_mono [OF wp_conj [OF reserve_page_spec [OF assms(1)] wp_self]], goal_cases)
  case (1 i pm1)
  then have r: "reserve_page pm = (Inr i, pm1)" by simp
  note p = reserved_page [OF assms(1) r]
  have nz: "lm_next_lsn lm \<noteq> 0" using assms(2) by (auto simp: wf_log_def)
  show ?case
    unfolding append_page_allocate_valid [OF p(4)] wp_zoom wp_bindE fst_conv snd_conv
  proof (rule wp_mono [OF append_wal_spec [OF assms(2,3)]], goal_cases)
    case (1 lsn lm1)
    then have w1: "wf_log lm1 (rs @ [allocate_record (lm_next_lsn lm) tid i])" and n1: "lm_next_lsn lm1 = lm_next_lsn lm + 1"
      and f1: "lm_fail_next_flush lm1 = lm_fail_next_flush lm" "good (lm_file lm1)"
        "fault_free (lm_file lm) \<longrightarrow> fault_free (lm_file lm1)"
      by (simp_all add: allocate_record_def)
    show ?case unfolding wp_zoom wp_bindE fst_conv snd_conv
    proof (rule wp_mono [OF wal_flush_spec [OF w1]], goal_cases)
      case (1 u lm2)
      then have l2: "logged lm2 i" by (simp add: logged_def n1)
      show ?case unfolding wp_zoom wp_bindE fst_conv snd_conv
        by (rule wp_mono [OF activate_reserved_page_spec [OF p(1), of i]])
           (use p l2 in \<open>auto simp: wp_simps split: if_splits\<close>)
    next
      case (2 e lm2)
      then show ?case using p(1,2) f1 by auto
    qed
  next
    case (2 e lm1)
    then show ?case using p(1,2) nz allocate_record_ok [of "lm_next_lsn lm" tid i]
      by (auto simp: allocate_record_def)
  qed
next
  case (2 e pm1)
  then show ?case by auto
qed

section \<open>A log for the witnesses\<close>

definition new_log :: "io_event list \<Rightarrow> log_manager" where
  "new_log outs = \<lparr>lm_file = \<lparr>contents = [], good = True, outcomes = outs\<rparr>, lm_next_lsn = 1, lm_durable_lsn = 0,
     lm_fail_next_flush = False\<rparr>"

lemma open_new_log: "open_log_manager None None outs = (Inr (), new_log outs)"
  using open_log_manager_scanned [of None "[]" outs] by (simp add: read_records_def new_log_def)

lemma new_log_wf: "wf_log (new_log outs) []" "lm_next_lsn (new_log outs) + 1 \<noteq> 0"
  by (simp_all add: new_log_def wf_log_def)

text \<open>The first append, in a file that is full after eight bytes.\<close>

lemma torn_first_append:
  "append_wal Begin 1 [] (new_log [IoFail 8]) =
     (Inl (WalError Append_failed),
      (new_log [])\<lparr>lm_next_lsn := 2,
        lm_file := \<lparr>contents = take 8 (record_bytes \<lparr>wr_lsn = 1, wr_transaction_id = 1, wr_type = Begin, wr_payload = []\<rparr>),
          good = False, outcomes = []\<rparr>\<rparr>)"
proof -
  have "record_ok \<lparr>wr_lsn = 1, wr_transaction_id = 1, wr_type = Begin, wr_payload = []\<rparr>"
    by (simp add: record_ok_def)
  from encode_ok [OF this] show ?thesis
    by (simp add: append_wal_def bindE_def gets_def modify_def lift_result_def lm_io_def require_def throw_def
        new_log_def fs_write_def fs_clear_def fs_flush_def write_bytes_append)
qed

section \<open>Properties\<close>

text \<open>C9: Whatever record the encoder accepts, the decoder gives back.\<close>

theorem wal_record_round_trip:
  assumes "encode r = Inr bs"
  shows "decode bs = Inr r \<and> length bs = 40 + length (wr_payload r)"
  using assms by (auto simp: encode_iff decode_record_bytes wal_size_defs)

definition example_record :: wal_record where
  "example_record = \<lparr>wr_lsn = 7, wr_transaction_id = 3, wr_type = Commit, wr_payload = [1, 2, 3]\<rparr>"

lemma example_record_ok: "record_ok example_record"
  by (simp add: record_ok_def example_record_def wal_size_defs)

theorem wal_record_round_trip_witness:
  "\<exists>bs. encode example_record = Inr bs \<and> decode bs = Inr example_record \<and> length bs = 43"
  using wal_record_round_trip [OF encode_ok [OF example_record_ok]] encode_ok [OF example_record_ok]
  by (simp add: example_record_def)

text \<open>C10: The payloads of mutation and allocation records survive the log: decoding gives back the page,
  the sequence number and both images of a mutation, with only the in-memory predecessor field reset,
  and the page number of an allocation.\<close>

theorem payload_round_trip:
  "(encode_physical_mutation m = Inr bs \<longrightarrow> decode_physical_mutation bs = Inr (m\<lparr>mu_previous_page_lsn := 0\<rparr>)) \<and>
   (encode_page_allocate i = Inr bs' \<longrightarrow> decode_page_allocate bs' = Inr i)"
  using decode_encode_mutation
  by (auto simp: encode_page_allocate_def decode_page_allocate_def split: if_splits)

definition example_mutation :: physical_mutation where
  "example_mutation = \<lparr>mu_page_id = 4, mu_kind = PayloadWrite, mu_sequence = 9,
     mu_before_image = replicate kPagePayloadSize 0, mu_after_image = replicate kPagePayloadSize 1,
     mu_previous_page_lsn = 5\<rparr>"

theorem payload_round_trip_witness:
  "\<exists>bs. encode_physical_mutation example_mutation = Inr bs \<and>
     decode_physical_mutation bs = Inr (example_mutation\<lparr>mu_previous_page_lsn := 0\<rparr>)"
proof -
  obtain bs where "encode_physical_mutation example_mutation = Inr bs"
    by (simp add: encode_physical_mutation_def example_mutation_def is_valid_def kInvalidValue_def)
  with payload_round_trip [of example_mutation bs] show ?thesis by blast
qed

text \<open>C11: A record with one damaged byte, at any position, is rejected.\<close>

theorem damaged_byte_rejected:
  assumes "decode bs = Inr r" "i < length bs" "b \<noteq> bs ! i"
  shows "\<exists>e. decode (bs[i := b]) = Inl e"
  using decode_one_byte [OF assms(1) _ assms(2)] assms(3) by (cases "decode (bs[i := b])") auto

theorem damaged_byte_rejected_witness:
  "\<exists>bs e. decode bs = Inr example_record \<and> decode (bs[36 := 0]) = Inl e"
proof -
  have "record_bytes example_record ! 36 = 1"
    by (simp add: record_bytes_def nth_append kHeaderSize_def) (simp add: example_record_def)
  with damaged_byte_rejected [OF decode_record_bytes [OF example_record_ok], of 36 0]
  show ?thesis using decode_record_bytes [OF example_record_ok] by (auto simp: wal_size_defs)
qed

text \<open>C12: A scan returns exactly the records of a log, also when the file ends in the middle of a record.\<close>

theorem scan_ignores_torn_tail:
  assumes "log_ok rs" "record_ok r" "n < length (record_bytes r)"
  shows "read_records (Some (log_bytes rs @ take n (record_bytes r))) = Inr rs"
  using assms by (rule read_records_torn)

theorem scan_ignores_torn_tail_witness:
  "read_records (Some (log_bytes [example_record] @ take 20 (record_bytes example_record))) = Inr [example_record]"
  using scan_ignores_torn_tail [of "[example_record]" example_record 20] example_record_ok
  by (simp add: log_ok_def increasing_def wal_size_defs)

text \<open>C6: Durability. In every history of appends, flushes, failed appends that tear the last record, and
  restarts, the file reads back as exactly the records of the history, and it contains every record
  that was in the log at some successful flush.\<close>

theorem flushed_records_survive:
  assumes "log_history lm rs stored"
  shows "read_records (Some (contents (lm_file lm))) = Inr rs \<and> stored \<subseteq> set rs \<and>
    (\<forall>r \<in> set rs. wr_lsn r < lm_next_lsn lm) \<and> increasing rs"
  using log_history_wf [OF assms] read_torn_log [OF wf_log_torn] by (auto simp: wf_log_def log_ok_def)

theorem flushed_records_survive_witness:
  "\<exists>lm r. log_history lm [r] {r} \<and> read_records (Some (contents (lm_file lm))) = Inr [r]"
proof -
  define r where "r = \<lparr>wr_lsn = 1, wr_transaction_id = 1, wr_type = Begin, wr_payload = []\<rparr>"
  have "record_ok r" by (simp add: r_def record_ok_def)
  then obtain lm1 where a: "append_wal Begin 1 [] (new_log []) = (Inr 1, lm1)" and l1: "wf_log lm1 [r]"
      "fault_free (lm_file lm1)" "good (lm_file lm1)" "\<not> lm_fail_next_flush lm1"
    using append_wal_succeeds [OF new_log_wf(1) new_log_wf(2), of "[]" r 1 Begin "[]"]
    by (auto simp: new_log_def fault_free_def r_def)
  from wal_flush_succeeds [OF l1] obtain lm2 where f: "wal_flush lm1 = (Inr (), lm2)" by blast
  have "log_history lm2 [r] {r}"
    using lh_flush [OF lh_append [OF lh_create [OF open_new_log] new_log_wf(2) a] f] by (simp add: r_def)
  from flushed_records_survive [OF this] this show ?thesis by blast
qed

text \<open>C7: A failed append is recoverable: restarting on the file it left succeeds and finds the old log,
  or the old log with the complete new record.\<close>

theorem restart_after_failed_append:
  assumes "wf_log lm rs" "lm_next_lsn lm + 1 \<noteq> 0" "append_wal t tid payload lm = (Inl e, lm1)"
  shows "\<exists>lm2 rs'. open_log_manager None (Some (contents (lm_file lm1))) outs = (Inr (), lm2) \<and> wf_log lm2 rs' \<and>
    (rs' = rs \<or>
     rs' = rs @ [\<lparr>wr_lsn = lm_next_lsn lm, wr_transaction_id = tid, wr_type = t, wr_payload = payload\<rparr>])"
  using failed_append [OF assms] by metis

theorem restart_after_failed_append_witness:
  "\<exists>e lm1 lm2 rs'. append_wal Begin 1 [] (new_log [IoFail 8]) = (Inl e, lm1) \<and>
     open_log_manager None (Some (contents (lm_file lm1))) [] = (Inr (), lm2) \<and> wf_log lm2 rs'"
  using restart_after_failed_append [OF new_log_wf torn_first_append] torn_first_append by blast

text \<open>C8: Write-ahead rule of page allocation. When the operation returns, its page is new and zeroed and
  the allocation record is in the durable log. When it throws, no page became allocated unless its
  record is in the durable log. Without file faults it throws only for a full catalog or an injected
  flush failure.\<close>

theorem allocation_is_logged_first:
  assumes "wf_pm pm" "wf_log lm rs" "lm_next_lsn lm + 1 \<noteq> 0"
  shows "case allocate_transactional_page tid (pm, lm) of
     (Inr i, pm', lm') \<Rightarrow>
       pm_pages pm i = None \<and> pm_pages pm' = (pm_pages pm)(i \<mapsto> new_page i) \<and>
       wf_log lm' (rs @ [allocate_record (lm_next_lsn lm) tid i]) \<and> lm_durable_lsn lm' = lm_next_lsn lm
   | (Inl e, pm', lm') \<Rightarrow>
       (pm_pages pm' = pm_pages pm \<or>
        (\<exists>i. pm_pages pm' = (pm_pages pm)(i \<mapsto> new_page i) \<and>
           wf_log lm' (rs @ [allocate_record (lm_next_lsn lm) tid i]) \<and> lm_durable_lsn lm' = lm_next_lsn lm)) \<and>
       (fault_free (pm_file pm) \<and> fault_free (lm_file lm) \<longrightarrow>
          unat (pm_page_count pm) = kCatalogBits \<or> lm_fail_next_flush lm)"
proof -
  obtain r pm' lm' where "allocate_transactional_page tid (pm, lm) = (r, pm', lm')" by (metis prod_cases3)
  with allocate_transactional_page_spec [OF assms, of tid] show ?thesis unfolding wp_def by (cases r) simp_all
qed

theorem allocation_is_logged_first_witness:
  "\<exists>s'. allocate_transactional_page 1 (one_page_database, new_log []) = (Inr 1, s') \<and>
     lm_durable_lsn (snd s') = 1 \<and> pm_pages (fst s') 1 = Some (new_page 1)"
proof -
  obtain i s' where a: "allocate_transactional_page 1 (one_page_database, new_log []) = (Inr i, s')" and "i = 1"
    using wp_succeeds [OF allocate_transactional_page_spec [OF one_page_database_good(1) new_log_wf(1) [of "[]"] new_log_wf(2), of 1]]
      one_page_database_good(2)
    by (auto simp: one_page_database catalog_defs new_log_def fault_free_def)
  with allocation_is_logged_first [OF one_page_database_good(1) new_log_wf, of "[]" 1]
  show ?thesis by (cases s') (auto simp: new_log_def)
qed


end
