(* ===== verification/RecoveryAnalysis.thy ===== *)
theory RecoveryAnalysis
  imports LogHistory
begin

text \<open>
  Recovery analysis (\<^verbatim>\<open>src/src/recovery/recovery_analysis.cpp\<close>): one pass over the records of the log that
  collects the allocations and the mutations and classifies every transaction.

  The result map of the analysis is a \<^verbatim>\<open>std::map\<close>; it is modelled as a list of entries ordered by key, which is
  also the order in which the engines visit it. Durations are left out of the metrics.
\<close>

section \<open>State\<close>

datatype TransactionStatus = StatusCommitted | StatusAborted | StatusIncomplete

record allocation_record =
  al_lsn :: uint64
  al_transaction_id :: uint64
  al_page_id :: PageId

record mutation_record =
  mr_lsn :: uint64
  mr_transaction_id :: uint64
  mr_mutation :: physical_mutation

record transaction_analysis =
  ta_transaction_id :: uint64
  ta_status :: TransactionStatus
  ta_began :: bool
  ta_committed :: bool
  ta_aborted :: bool
  ta_allocation_indexes :: "nat list"
  ta_mutation_indexes :: "nat list"

record recovery_metrics =
  me_wal_bytes_scanned :: nat
  me_total_records :: nat
  me_transactions_observed :: nat
  me_committed_transactions :: nat
  me_aborted_transactions :: nat
  me_incomplete_transactions :: nat
  me_page_allocates :: nat
  me_physical_mutations :: nat
  me_first_lsn :: uint64
  me_last_lsn :: uint64

record recovery_state =
  rv_records :: "wal_record list"
  rv_allocations :: "allocation_record list"
  rv_mutations :: "mutation_record list"
  rv_transactions :: "(uint64 \<times> transaction_analysis) list"
  rv_metrics :: recovery_metrics

definition empty_analysis :: transaction_analysis where
  "empty_analysis = \<lparr>ta_transaction_id = 0, ta_status = StatusIncomplete, ta_began = False, ta_committed = False, ta_aborted = False,
     ta_allocation_indexes = [], ta_mutation_indexes = []\<rparr>"

definition empty_metrics :: recovery_metrics where
  "empty_metrics = \<lparr>me_wal_bytes_scanned = 0, me_total_records = 0, me_transactions_observed = 0, me_committed_transactions = 0,
     me_aborted_transactions = 0, me_incomplete_transactions = 0, me_page_allocates = 0, me_physical_mutations = 0,
     me_first_lsn = 0, me_last_lsn = 0\<rparr>"

section \<open>The pass over the records\<close>

text \<open>\<open>transactions[k]\<close>: the entry of the key, made with default members if there is none, is changed.\<close>

fun update_entry :: "uint64 \<Rightarrow> (transaction_analysis \<Rightarrow> transaction_analysis) \<Rightarrow>
    (uint64 \<times> transaction_analysis) list \<Rightarrow> (uint64 \<times> transaction_analysis) list" where
  "update_entry k g [] = [(k, g empty_analysis)]"
| "update_entry k g ((j, ta) # ts) =
     (if k < j then (k, g empty_analysis) # (j, ta) # ts
      else if k = j then (j, g ta) # ts
      else (j, ta) # update_entry k g ts)"

definition note_transaction :: "uint64 \<Rightarrow> (transaction_analysis \<Rightarrow> transaction_analysis) \<Rightarrow> recovery_state \<Rightarrow> recovery_state" where
  "note_transaction tid g st =
     st\<lparr>rv_transactions := update_entry tid (\<lambda>ta. g (ta\<lparr>ta_transaction_id := tid\<rparr>)) (rv_transactions st)\<rparr>"

definition validate_empty_payload :: "wal_record \<Rightarrow> 'a \<Rightarrow> error + 'a" where
  "validate_empty_payload r x = (if wr_payload r \<noteq> [] then Inl (WalError Terminal_record_has_payload) else Inr x)"

definition analyze_record :: "wal_record \<Rightarrow> recovery_state \<Rightarrow> error + recovery_state" where
  "analyze_record r st =
     (let tid = wr_transaction_id r in
      case wr_type r of
        Begin \<Rightarrow> validate_empty_payload r (note_transaction tid (\<lambda>ta. ta\<lparr>ta_began := True\<rparr>) st)
      | Commit \<Rightarrow> validate_empty_payload r (note_transaction tid (\<lambda>ta. ta\<lparr>ta_committed := True\<rparr>) st)
      | Abort \<Rightarrow> validate_empty_payload r (note_transaction tid (\<lambda>ta. ta\<lparr>ta_aborted := True\<rparr>) st)
      | PageAllocate \<Rightarrow>
          (case decode_page_allocate (wr_payload r) of
             Inl e \<Rightarrow> Inl e
           | Inr page \<Rightarrow> Inr (let n = length (rv_allocations st) in
               (note_transaction tid (\<lambda>ta. ta\<lparr>ta_allocation_indexes := ta_allocation_indexes ta @ [n]\<rparr>) st)
                 \<lparr>rv_allocations := rv_allocations st @ [\<lparr>al_lsn = wr_lsn r, al_transaction_id = tid, al_page_id = page\<rparr>]\<rparr>))
      | PhysicalMutation \<Rightarrow>
          (case decode_physical_mutation (wr_payload r) of
             Inl e \<Rightarrow> Inl e
           | Inr m \<Rightarrow> Inr (let n = length (rv_mutations st) in
               (note_transaction tid (\<lambda>ta. ta\<lparr>ta_mutation_indexes := ta_mutation_indexes ta @ [n]\<rparr>) st)
                 \<lparr>rv_mutations := rv_mutations st @ [\<lparr>mr_lsn = wr_lsn r, mr_transaction_id = tid, mr_mutation = m\<rparr>]\<rparr>)))"

fun analyze_records :: "wal_record list \<Rightarrow> recovery_state \<Rightarrow> error + recovery_state" where
  "analyze_records [] st = Inr st"
| "analyze_records (r # rs) st = (case analyze_record r st of Inl e \<Rightarrow> Inl e | Inr st' \<Rightarrow> analyze_records rs st')"

section \<open>Classification\<close>

definition classify :: "transaction_analysis \<Rightarrow> transaction_analysis" where
  "classify ta = ta\<lparr>ta_status := (if ta_committed ta then StatusCommitted else if ta_aborted ta then StatusAborted else StatusIncomplete)\<rparr>"

definition count_status :: "TransactionStatus \<Rightarrow> (uint64 \<times> transaction_analysis) list \<Rightarrow> nat" where
  "count_status s ts = length (filter (\<lambda>(k, ta). ta_status ta = s) ts)"

definition finish_metrics :: "nat \<Rightarrow> recovery_state \<Rightarrow> recovery_state" where
  "finish_metrics bytes st =
     (let ts = rv_transactions st; rs = rv_records st in
      st\<lparr>rv_metrics :=
        \<lparr>me_wal_bytes_scanned = bytes, me_total_records = length rs, me_transactions_observed = length ts,
         me_committed_transactions = count_status StatusCommitted ts, me_aborted_transactions = count_status StatusAborted ts,
         me_incomplete_transactions = count_status StatusIncomplete ts, me_page_allocates = length (rv_allocations st),
         me_physical_mutations = length (rv_mutations st), me_first_lsn = (if rs = [] then 0 else wr_lsn (hd rs)),
         me_last_lsn = (if rs = [] then 0 else wr_lsn (last rs))\<rparr>\<rparr>)"

text \<open>The whole analysis of a log file (\<open>None\<close> cannot be read); \<open>no_size\<close> says that its size cannot be determined.\<close>

definition analyze :: "bool \<Rightarrow> byte list option \<Rightarrow> error + recovery_state" where
  "analyze no_size wal =
     (case read_records wal of
        Inl e \<Rightarrow> Inl e
      | Inr rs \<Rightarrow>
          if no_size then Inl (WalError Cannot_determine_wal_size)
          else
            (case analyze_records rs \<lparr>rv_records = rs, rv_allocations = [], rv_mutations = [], rv_transactions = [], rv_metrics = empty_metrics\<rparr> of
               Inl e \<Rightarrow> Inl e
             | Inr st \<Rightarrow>
                 if list_ex (\<lambda>(k, ta). ta_committed ta \<and> ta_aborted ta) (rv_transactions st) then Inl (WalError Conflicting_terminal_records)
                 else Inr (finish_metrics (length (the wal)) (st\<lparr>rv_transactions := map (\<lambda>(k, ta). (k, classify ta)) (rv_transactions st)\<rparr>))))"

section \<open>Queries\<close>

definition transaction_at :: "uint64 \<Rightarrow> recovery_state \<Rightarrow> transaction_analysis option" where
  "transaction_at tid st = map_of (rv_transactions st) tid"

definition allocations_for_page :: "PageId \<Rightarrow> recovery_state \<Rightarrow> allocation_record list" where
  "allocations_for_page i st = filter (\<lambda>a. al_page_id a = i) (rv_allocations st)"

definition mutations_for_page :: "PageId \<Rightarrow> recovery_state \<Rightarrow> mutation_record list" where
  "mutations_for_page i st = filter (\<lambda>m. mu_page_id (mr_mutation m) = i) (rv_mutations st)"

section \<open>What the analysis finds\<close>

text \<open>The contents of a log, stated without the pass: its allocations, its mutations, and the records of a transaction.\<close>

definition allocation_of :: "wal_record \<Rightarrow> allocation_record option" where
  "allocation_of r = (if wr_type r = PageAllocate then
     (case decode_page_allocate (wr_payload r) of Inl e \<Rightarrow> None
      | Inr i \<Rightarrow> Some \<lparr>al_lsn = wr_lsn r, al_transaction_id = wr_transaction_id r, al_page_id = i\<rparr>) else None)"

definition mutation_of :: "wal_record \<Rightarrow> mutation_record option" where
  "mutation_of r = (if wr_type r = PhysicalMutation then
     (case decode_physical_mutation (wr_payload r) of Inl e \<Rightarrow> None
      | Inr m \<Rightarrow> Some \<lparr>mr_lsn = wr_lsn r, mr_transaction_id = wr_transaction_id r, mr_mutation = m\<rparr>) else None)"

definition payload_fine :: "wal_record \<Rightarrow> bool" where
  "payload_fine r \<longleftrightarrow> (case wr_type r of PageAllocate \<Rightarrow> \<not> isl (decode_page_allocate (wr_payload r))
     | PhysicalMutation \<Rightarrow> \<not> isl (decode_physical_mutation (wr_payload r)) | _ \<Rightarrow> wr_payload r = [])"

abbreviation log_allocations :: "wal_record list \<Rightarrow> allocation_record list" where
  "log_allocations rs \<equiv> List.map_filter allocation_of rs"

abbreviation log_mutations :: "wal_record list \<Rightarrow> mutation_record list" where
  "log_mutations rs \<equiv> List.map_filter mutation_of rs"

definition has_record :: "wal_record list \<Rightarrow> uint64 \<Rightarrow> WalRecordType \<Rightarrow> bool" where
  "has_record rs tid t \<longleftrightarrow> (\<exists>r \<in> set rs. wr_transaction_id r = tid \<and> wr_type r = t)"

definition indexes :: "('a \<Rightarrow> bool) \<Rightarrow> 'a list \<Rightarrow> nat list" where
  "indexes P xs = filter (\<lambda>k. P (xs ! k)) [0..<length xs]"

definition summary :: "wal_record list \<Rightarrow> uint64 \<Rightarrow> transaction_analysis" where
  "summary rs tid = \<lparr>ta_transaction_id = tid, ta_status = StatusIncomplete, ta_began = has_record rs tid Begin,
     ta_committed = has_record rs tid Commit, ta_aborted = has_record rs tid Abort,
     ta_allocation_indexes = indexes (\<lambda>a. al_transaction_id a = tid) (log_allocations rs),
     ta_mutation_indexes = indexes (\<lambda>m. mr_transaction_id m = tid) (log_mutations rs)\<rparr>"

definition status_in :: "wal_record list \<Rightarrow> uint64 \<Rightarrow> TransactionStatus" where
  "status_in rs tid = (if has_record rs tid Commit then StatusCommitted else if has_record rs tid Abort then StatusAborted else StatusIncomplete)"

lemma indexes_snoc: "indexes P (xs @ [x]) = indexes P xs @ (if P x then [length xs] else [])"
proof -
  have "filter (\<lambda>k. P ((xs @ [x]) ! k)) [0..<length xs] = filter (\<lambda>k. P (xs ! k)) [0..<length xs]"
    by (rule filter_cong) (simp_all add: nth_append)
  then show ?thesis by (simp add: indexes_def)
qed

lemma map_filter_snoc: "List.map_filter f (xs @ [x]) = List.map_filter f xs @ (case f x of None \<Rightarrow> [] | Some y \<Rightarrow> [y])"
  by (simp add: List.map_filter_def split: option.split)

lemma has_record_snoc: "has_record (rs @ [r]) tid t \<longleftrightarrow> has_record rs tid t \<or> wr_transaction_id r = tid \<and> wr_type r = t"
  by (auto simp: has_record_def)

lemmas analysis_snoc = indexes_snoc map_filter_snoc has_record_snoc

text \<open>The entries stay ordered, and only the entry of the key changes.\<close>

lemma set_update_entry: "fst ` set (update_entry k g ts) = insert k (fst ` set ts)"
  by (induction k g ts rule: update_entry.induct) (simp_all add: insert_commute)

lemma sorted_update_entry:
  "sorted_wrt (<) (map fst ts) \<Longrightarrow> sorted_wrt (<) (map fst (update_entry k g ts))"
proof (induction ts)
  case (Cons a ts)
  obtain j ta where a: "a = (j, ta)" by (cases a)
  from Cons have IH: "sorted_wrt (<) (map fst (update_entry k g ts))" and le: "\<forall>x \<in> fst ` set ts. j < x" by (simp_all add: a)
  have "\<forall>x \<in> fst ` set (update_entry k g ts). j < x" if "j < k" using le that by (simp add: set_update_entry)
  then show ?case using Cons.prems IH by (auto simp: a)
qed simp

lemma map_of_update_entry:
  "sorted_wrt (<) (map fst ts) \<Longrightarrow>
     map_of (update_entry k g ts) = (map_of ts)(k \<mapsto> g (case map_of ts k of None \<Rightarrow> empty_analysis | Some ta \<Rightarrow> ta))"
proof (induction ts)
  case (Cons a ts)
  obtain j ta where a: "a = (j, ta)" by (cases a)
  from Cons.prems have le: "\<forall>x \<in> set ts. j < fst x" by (simp add: a)
  then have "map_of ts x = None" if "x \<le> j" for x using that unfolding map_of_eq_None_iff by fastforce
  with Cons show ?case by (auto simp: a fun_eq_iff split: option.split)
qed simp

definition analyzed :: "wal_record list \<Rightarrow> wal_record list \<Rightarrow> recovery_state \<Rightarrow> bool" where
  "analyzed all rs st \<longleftrightarrow> rv_records st = all \<and> rv_allocations st = log_allocations rs \<and> rv_mutations st = log_mutations rs \<and>
     sorted_wrt (<) (map fst (rv_transactions st)) \<and>
     map_of (rv_transactions st) = (\<lambda>tid. if tid \<in> wr_transaction_id ` set rs then Some (summary rs tid) else None)"

lemma summary_new: "tid \<notin> wr_transaction_id ` set rs \<Longrightarrow> summary rs tid = empty_analysis\<lparr>ta_transaction_id := tid\<rparr>"
proof -
  assume t: "tid \<notin> wr_transaction_id ` set rs"
  then have "\<not> has_record rs tid t" for t by (auto simp: has_record_def)
  moreover have "al_transaction_id a \<noteq> tid" if "a \<in> set (log_allocations rs)" for a
    using that t by (auto simp: List.map_filter_def allocation_of_def split: if_splits sum.splits)
  moreover have "mr_transaction_id m \<noteq> tid" if "m \<in> set (log_mutations rs)" for m
    using that t by (auto simp: List.map_filter_def mutation_of_def split: if_splits sum.splits)
  ultimately show ?thesis by (auto simp: summary_def empty_analysis_def indexes_def)
qed

lemma note_transaction_spec:
  assumes "analyzed all rs st" "g (summary rs (wr_transaction_id r)) = summary (rs @ [r]) (wr_transaction_id r)"
    "\<And>tid. tid \<noteq> wr_transaction_id r \<Longrightarrow> summary (rs @ [r]) tid = summary rs tid"
  shows "let ts = rv_transactions (note_transaction (wr_transaction_id r) g st) in sorted_wrt (<) (map fst ts) \<and>
     map_of ts = (\<lambda>tid. if tid \<in> wr_transaction_id ` set (rs @ [r]) then Some (summary (rs @ [r]) tid) else None)"
proof -
  let ?k = "wr_transaction_id r"
  have s: "sorted_wrt (<) (map fst (rv_transactions st))"
    and m: "map_of (rv_transactions st) = (\<lambda>tid. if tid \<in> wr_transaction_id ` set rs then Some (summary rs tid) else None)"
    using assms(1) by (simp_all add: analyzed_def)
  have "(case map_of (rv_transactions st) ?k of None \<Rightarrow> empty_analysis | Some ta \<Rightarrow> ta)\<lparr>ta_transaction_id := ?k\<rparr> = summary rs ?k"
    using summary_new [of ?k rs] by (simp add: m summary_def)
  with s m assms(2,3) show ?thesis
    by (auto simp: note_transaction_def Let_def sorted_update_entry map_of_update_entry fun_eq_iff)
qed

text \<open>The change of a transaction's entry for one record, when there are \<open>n\<close> allocations and \<open>k\<close> mutations so far.\<close>

definition noted :: "nat \<Rightarrow> nat \<Rightarrow> wal_record \<Rightarrow> transaction_analysis \<Rightarrow> transaction_analysis" where
  "noted n k r ta = (case wr_type r of Begin \<Rightarrow> ta\<lparr>ta_began := True\<rparr> | Commit \<Rightarrow> ta\<lparr>ta_committed := True\<rparr> | Abort \<Rightarrow> ta\<lparr>ta_aborted := True\<rparr>
     | PageAllocate \<Rightarrow> ta\<lparr>ta_allocation_indexes := ta_allocation_indexes ta @ [n]\<rparr>
     | PhysicalMutation \<Rightarrow> ta\<lparr>ta_mutation_indexes := ta_mutation_indexes ta @ [k]\<rparr>)"

definition opt_list :: "'a option \<Rightarrow> 'a list" where
  "opt_list v = (case v of None \<Rightarrow> [] | Some x \<Rightarrow> [x])"

lemma analyze_record_run:
  "analyze_record r st = (if payload_fine r then Inr ((note_transaction (wr_transaction_id r) (noted (length (rv_allocations st)) (length (rv_mutations st)) r) st)
     \<lparr>rv_allocations := rv_allocations st @ opt_list (allocation_of r), rv_mutations := rv_mutations st @ opt_list (mutation_of r)\<rparr>)
     else analyze_record r st) \<and> (isl (analyze_record r st) \<longleftrightarrow> \<not> payload_fine r)"
  by (cases "wr_type r")
     (auto simp: analyze_record_def payload_fine_def validate_empty_payload_def note_transaction_def noted_def allocation_of_def mutation_of_def opt_list_def
        Let_def split: sum.splits)

lemma summary_step:
  assumes "payload_fine r"
  shows "noted (length (log_allocations rs)) (length (log_mutations rs)) r (summary rs (wr_transaction_id r)) = summary (rs @ [r]) (wr_transaction_id r)"
  using assms
  by (cases "wr_type r") (auto simp: noted_def summary_def analysis_snoc allocation_of_def mutation_of_def payload_fine_def split: sum.splits)

lemma analyze_record_spec:
  assumes "analyzed all rs st"
  shows "case analyze_record r st of Inl _ \<Rightarrow> \<not> payload_fine r | Inr st' \<Rightarrow> payload_fine r \<and> analyzed all (rs @ [r]) st'"
proof (cases "payload_fine r")
  case False
  then show ?thesis using analyze_record_run [of r st] by (cases "analyze_record r st") auto
next
  case True
  have l: "rv_allocations st = log_allocations rs" "rv_mutations st = log_mutations rs" "rv_records st = all" using assms by (simp_all add: analyzed_def)
  have other: "summary (rs @ [r]) tid = summary rs tid" if "tid \<noteq> wr_transaction_id r" for tid
    using that by (auto simp: summary_def analysis_snoc allocation_of_def mutation_of_def split: sum.split)
  have "analyzed all (rs @ [r]) ((note_transaction (wr_transaction_id r) (noted (length (rv_allocations st)) (length (rv_mutations st)) r) st)
     \<lparr>rv_allocations := rv_allocations st @ opt_list (allocation_of r), rv_mutations := rv_mutations st @ opt_list (mutation_of r)\<rparr>)"
    using note_transaction_spec [where r = r and g = "noted (length (log_allocations rs)) (length (log_mutations rs)) r", OF assms summary_step [OF True] other]
    unfolding analyzed_def by (simp add: l map_filter_snoc opt_list_def Let_def) (simp add: note_transaction_def l)
  then show ?thesis using analyze_record_run [of r st] True by simp
qed

lemma analyze_records_spec:
  "analyzed all rs st \<Longrightarrow> case analyze_records rs' st of Inl _ \<Rightarrow> \<exists>r \<in> set rs'. \<not> payload_fine r
     | Inr st' \<Rightarrow> (\<forall>r \<in> set rs'. payload_fine r) \<and> analyzed all (rs @ rs') st'"
proof (induction rs' arbitrary: rs st)
  case (Cons r rs')
  note step = analyze_record_spec [OF Cons.prems, of r]
  show ?case
  proof (cases "analyze_record r st")
    case (Inl e)
    with step show ?thesis by simp
  next
    case (Inr st')
    with step have "payload_fine r" "analyzed all (rs @ [r]) st'" by simp_all
    with Cons.IH [OF this(2)] Inr show ?thesis by (simp split: sum.splits)
  qed
qed simp

text \<open>The result of the analysis, in terms of the records of the log.\<close>

definition analysis_of :: "wal_record list \<Rightarrow> recovery_state \<Rightarrow> bool" where
  "analysis_of rs st \<longleftrightarrow> rv_records st = rs \<and> rv_allocations st = log_allocations rs \<and> rv_mutations st = log_mutations rs \<and>
     sorted_wrt (<) (map fst (rv_transactions st)) \<and>
     (\<forall>tid. transaction_at tid st = (if tid \<in> wr_transaction_id ` set rs then Some ((summary rs tid)\<lparr>ta_status := status_in rs tid\<rparr>) else None))"

lemma entry_iff: "sorted_wrt (<) (map fst ts) \<Longrightarrow> (k, ta) \<in> set ts \<longleftrightarrow> map_of ts k = Some ta" for k :: uint64
  by (simp add: strict_sorted_iff)

lemma map_of_map_value: "map_of (map (\<lambda>(k, v). (k, h v)) ts) = map_option h \<circ> map_of ts"
  by (induction ts) auto

lemma fst_map_value [simp]: "fst \<circ> (\<lambda>(k, v). (k, h v)) = fst"
  by (simp add: fun_eq_iff)

lemma analyze_spec:
  assumes "read_records wal = Inr rs"
  shows "case analyze False wal of
      Inl e \<Rightarrow> (\<exists>r \<in> set rs. \<not> payload_fine r) \<or> (\<exists>tid. has_record rs tid Commit \<and> has_record rs tid Abort)
    | Inr st \<Rightarrow> (\<forall>r \<in> set rs. payload_fine r) \<and> (\<forall>tid. \<not> (has_record rs tid Commit \<and> has_record rs tid Abort)) \<and> analysis_of rs st"
proof -
  let ?st0 = "\<lparr>rv_records = rs, rv_allocations = [], rv_mutations = [], rv_transactions = [], rv_metrics = empty_metrics\<rparr>"
  have "analyzed rs [] ?st0" by (simp add: analyzed_def)
  note all = analyze_records_spec [OF this, of rs]
  show ?thesis
  proof (cases "analyze_records rs ?st0")
    case (Inl e)
    with all show ?thesis by (simp add: analyze_def assms)
  next
    case (Inr st)
    with all have fine: "\<forall>r \<in> set rs. payload_fine r" and an: "analyzed rs rs st" by simp_all
    let ?ts = "rv_transactions st"
    have srt: "sorted_wrt (<) (map fst ?ts)" and mp: "map_of ?ts = (\<lambda>tid. if tid \<in> wr_transaction_id ` set rs then Some (summary rs tid) else None)"
      using an by (simp_all add: analyzed_def)
    have "list_ex (\<lambda>(k, ta). ta_committed ta \<and> ta_aborted ta) ?ts \<longleftrightarrow> (\<exists>k ta. map_of ?ts k = Some ta \<and> ta_committed ta \<and> ta_aborted ta)"
      using entry_iff [OF srt] by (auto simp: list_ex_iff)
    also have "\<dots> \<longleftrightarrow> (\<exists>tid. has_record rs tid Commit \<and> has_record rs tid Abort)"
      unfolding mp by (auto simp: summary_def has_record_def split: if_splits)
    finally have conf: "list_ex (\<lambda>(k, ta). ta_committed ta \<and> ta_aborted ta) ?ts \<longleftrightarrow> (\<exists>tid. has_record rs tid Commit \<and> has_record rs tid Abort)" .
    have "map_option classify (map_of ?ts tid) =
        (if tid \<in> wr_transaction_id ` set rs then Some ((summary rs tid)\<lparr>ta_status := status_in rs tid\<rparr>) else None)" for tid
      by (simp add: mp classify_def status_in_def summary_def)
    then have "analysis_of rs (finish_metrics n (st\<lparr>rv_transactions := map (\<lambda>(k, ta). (k, classify ta)) ?ts\<rparr>))" for n
      using an by (simp add: analysis_of_def analyzed_def finish_metrics_def Let_def transaction_at_def map_of_map_value)
    with conf fine show ?thesis by (simp add: analyze_def assms Inr)
  qed
qed

end
