(* ===== verification/BufferPool.thy ===== *)
theory BufferPool
  imports PageHistory
begin

text \<open>
  The buffer pool (\<^verbatim>\<open>src/src/buffer/buffer_pool_manager.cpp\<close>): its state and every operation.

  The page manager is a reference member of the class and a field of the state here. A
  \<^verbatim>\<open>Page*\<close> into the pool is the number of its frame. The page table is an association list;
  \<^verbatim>\<open>lru_positions_\<close> maps a frame to its node in \<^verbatim>\<open>lru_\<close>, so it is kept as the list of its keys. The field
  \<open>bp_wal_durability\<close> is what the durability provider answers: \<open>None\<close> for a null provider, otherwise
  the value of its \<^verbatim>\<open>durable_lsn()\<close>.
\<close>

section \<open>State\<close>

record frame =
  fr_page :: page
  fr_pin_count :: uint32
  fr_dirty :: bool
  fr_occupied :: bool
  fr_pending_mutations :: uint32

record pool_stats =
  st_fetches :: uint64
  st_cache_hits :: uint64
  st_disk_reads :: uint64
  st_disk_writes :: uint64

record pool =
  bp_page_manager :: page_manager
  bp_frames :: "frame list"
  bp_page_table :: "(PageId \<times> FrameId) list"
  bp_free_frames :: "FrameId list"
  bp_lru :: "FrameId list"
  bp_lru_positions :: "FrameId list"
  bp_stats :: pool_stats
  bp_wal_durability :: "uint64 option"

definition empty_frame :: frame where
  "empty_frame = \<lparr>fr_page = new_page kInvalidValue, fr_pin_count = 0, fr_dirty = False, fr_occupied = False,
     fr_pending_mutations = 0\<rparr>"

definition new_pool :: "page_manager \<Rightarrow> nat \<Rightarrow> uint64 option \<Rightarrow> pool" where
  "new_pool pm cap wal =
     \<lparr>bp_page_manager = pm, bp_frames = replicate cap empty_frame, bp_page_table = [],
      bp_free_frames = map (\<lambda>i. cap - i - 1) [0..<cap], bp_lru = [], bp_lru_positions = [],
      bp_stats = \<lparr>st_fetches = 0, st_cache_hits = 0, st_disk_reads = 0, st_disk_writes = 0\<rparr>,
      bp_wal_durability = wal\<rparr>"

definition set_wal_durability_provider :: "uint64 option \<Rightarrow> pool \<Rightarrow> pool" where
  "set_wal_durability_provider wal bp = bp\<lparr>bp_wal_durability := wal\<rparr>"

section \<open>Access\<close>

definition on_disk :: "(page_manager, 'a) op \<Rightarrow> (pool, 'a) op" where
  "on_disk = zoom bp_page_manager (\<lambda>pm bp. bp\<lparr>bp_page_manager := pm\<rparr>)"

definition upd_frame :: "FrameId \<Rightarrow> (frame \<Rightarrow> frame) \<Rightarrow> (pool, unit) op" where
  "upd_frame f g = modify (\<lambda>bp. bp\<lparr>bp_frames := (bp_frames bp)[f := g (bp_frames bp ! f)]\<rparr>)"

definition count_stat :: "(pool_stats \<Rightarrow> pool_stats) \<Rightarrow> (pool, unit) op" where
  "count_stat g = modify (\<lambda>bp. bp\<lparr>bp_stats := g (bp_stats bp)\<rparr>)"

definition find_frame :: "PageId \<Rightarrow> pool \<Rightarrow> FrameId option" where
  "find_frame i bp = map_of (bp_page_table bp) i"

definition contains :: "PageId \<Rightarrow> pool \<Rightarrow> bool" where
  "contains i bp = (find_frame i bp \<noteq> None)"

definition pin_count :: "PageId \<Rightarrow> pool \<Rightarrow> uint32 option" where
  "pin_count i bp = map_option (\<lambda>f. fr_pin_count (bp_frames bp ! f)) (find_frame i bp)"

definition is_dirty :: "PageId \<Rightarrow> pool \<Rightarrow> bool option" where
  "is_dirty i bp = map_option (\<lambda>f. fr_dirty (bp_frames bp ! f)) (find_frame i bp)"

definition pending_mutation_count :: "PageId \<Rightarrow> pool \<Rightarrow> uint32 option" where
  "pending_mutation_count i bp = map_option (\<lambda>f. fr_pending_mutations (bp_frames bp ! f)) (find_frame i bp)"

definition capacity :: "pool \<Rightarrow> nat" where
  "capacity bp = length (bp_frames bp)"

definition cached_page_count :: "pool \<Rightarrow> nat" where
  "cached_page_count bp = length (bp_page_table bp)"

section \<open>Bookkeeping\<close>

definition remove_from_lru :: "FrameId \<Rightarrow> (pool, unit) op" where
  "remove_from_lru f = modify (\<lambda>bp.
     if f \<in> set (bp_lru_positions bp)
     then bp\<lparr>bp_lru := remove1 f (bp_lru bp), bp_lru_positions := removeAll f (bp_lru_positions bp)\<rparr>
     else bp)"

definition make_evictable :: "FrameId \<Rightarrow> (pool, unit) op" where
  "make_evictable f =
     bindE (remove_from_lru f) (\<lambda>_.
     modify (\<lambda>bp. bp\<lparr>bp_lru := bp_lru bp @ [f], bp_lru_positions := f # bp_lru_positions bp\<rparr>))"

definition reset_frame :: "FrameId \<Rightarrow> pool \<Rightarrow> pool" where
  "reset_frame f bp = bp\<lparr>bp_frames := (bp_frames bp)[f := empty_frame]\<rparr>"

definition push_free :: "FrameId \<Rightarrow> pool \<Rightarrow> pool" where
  "push_free f bp = bp\<lparr>bp_free_frames := bp_free_frames bp @ [f]\<rparr>"

definition erase_entry :: "PageId \<Rightarrow> pool \<Rightarrow> pool" where
  "erase_entry i bp = bp\<lparr>bp_page_table := filter (\<lambda>e. fst e \<noteq> i) (bp_page_table bp)\<rparr>"

section \<open>Write-back\<close>

definition require_mutations_finalized :: "frame \<Rightarrow> (pool, unit) op" where
  "require_mutations_finalized fr = require (fr_pending_mutations fr = 0) (LogicError Write_blocked_pending)"

definition require_wal_durable :: "frame \<Rightarrow> (pool, unit) op" where
  "require_wal_durable fr =
     (let required_lsn = pg_lsn (fr_page fr) in
      if required_lsn = 0 then ret ()
      else bindE (gets bp_wal_durability) (\<lambda>wal.
        case wal of
          None \<Rightarrow> throw WalDurabilityError
        | Some durable_lsn \<Rightarrow> if durable_lsn < required_lsn then throw WalDurabilityError else ret ()))"

definition write_dirty_frame :: "FrameId \<Rightarrow> (pool, unit) op" where
  "write_dirty_frame f =
     bindE (gets (\<lambda>bp. bp_frames bp ! f)) (\<lambda>fr.
     if fr_dirty fr then
       bindE (require_mutations_finalized fr) (\<lambda>_.
       bindE (require_wal_durable fr) (\<lambda>_.
       bindE (on_disk (write_page (pg_id (fr_page fr)) (fr_page fr))) (\<lambda>_.
       bindE (count_stat (\<lambda>st. st\<lparr>st_disk_writes := st_disk_writes st + 1\<rparr>)) (\<lambda>_.
       upd_frame f (\<lambda>fr. fr\<lparr>fr_dirty := False\<rparr>)))))
     else ret ())"

section \<open>Pending mutations\<close>

definition mark_mutation_pending :: "PageId \<Rightarrow> (pool, unit) op" where
  "mark_mutation_pending i =
     bindE (gets (find_frame i)) (\<lambda>entry.
     case entry of
       None \<Rightarrow> throw (LogicError Pending_requires_pinned)
     | Some f \<Rightarrow>
         bindE (gets (\<lambda>bp. bp_frames bp ! f)) (\<lambda>fr.
         bindE (require (fr_pin_count fr \<noteq> 0) (LogicError Pending_requires_pinned)) (\<lambda>_.
         bindE (require (fr_pending_mutations fr \<noteq> 0xFFFFFFFF) OverflowError) (\<lambda>_.
         upd_frame f (\<lambda>fr. fr\<lparr>fr_pending_mutations := fr_pending_mutations fr + 1\<rparr>)))))"

text \<open>The page LSN is set and one pending mutation is taken off: the common end of the two resolutions.\<close>

definition settle_mutation :: "uint64 \<Rightarrow> frame \<Rightarrow> frame" where
  "settle_mutation lsn fr =
     fr\<lparr>fr_page := (fr_page fr)\<lparr>pg_lsn := lsn\<rparr>, fr_pending_mutations := fr_pending_mutations fr - 1\<rparr>"

definition finalize_pending_mutation :: "PageId \<Rightarrow> uint64 \<Rightarrow> (pool, unit) op" where
  "finalize_pending_mutation i lsn =
     bindE (gets (find_frame i)) (\<lambda>entry.
     case entry of
       None \<Rightarrow> throw (LogicError Page_not_resident)
     | Some f \<Rightarrow>
         bindE (gets (\<lambda>bp. bp_frames bp ! f)) (\<lambda>fr.
         bindE (require (fr_pending_mutations fr \<noteq> 0) (LogicError No_pending_mutation)) (\<lambda>_.
         bindE (require (lsn \<noteq> 0) (InvalidArgument Nonzero_lsn_required)) (\<lambda>_.
         upd_frame f (settle_mutation lsn)))))"

definition resolve_pending_mutation :: "PageId \<Rightarrow> uint64 \<Rightarrow> (pool, unit) op" where
  "resolve_pending_mutation i restored_page_lsn =
     bindE (gets (find_frame i)) (\<lambda>entry.
     case entry of
       None \<Rightarrow> throw (LogicError Page_not_resident)
     | Some f \<Rightarrow>
         bindE (gets (\<lambda>bp. bp_frames bp ! f)) (\<lambda>fr.
         bindE (require (fr_pending_mutations fr \<noteq> 0) (LogicError No_pending_mutation)) (\<lambda>_.
         upd_frame f (settle_mutation restored_page_lsn))))"

definition restore_page_lsn_after_undo :: "PageId \<Rightarrow> uint64 \<Rightarrow> (pool, unit) op" where
  "restore_page_lsn_after_undo i restored_page_lsn =
     bindE (gets (find_frame i)) (\<lambda>entry.
     case entry of
       None \<Rightarrow> throw (LogicError Page_not_resident)
     | Some f \<Rightarrow>
         bindE (gets (\<lambda>bp. bp_frames bp ! f)) (\<lambda>fr.
         bindE (require (fr_pending_mutations fr = 0) (LogicError Restore_before_resolve)) (\<lambda>_.
         upd_frame f (\<lambda>fr. fr\<lparr>fr_page := (fr_page fr)\<lparr>pg_lsn := restored_page_lsn\<rparr>\<rparr>))))"

section \<open>Fetching and releasing pages\<close>

definition acquire_frame :: "(pool, FrameId option) op" where
  "acquire_frame =
     bindE (gets bp_free_frames) (\<lambda>free.
     if free \<noteq> [] then
       bindE (modify (\<lambda>bp. bp\<lparr>bp_free_frames := butlast (bp_free_frames bp)\<rparr>)) (\<lambda>_. ret (Some (last free)))
     else
       bindE (gets bp_lru) (\<lambda>lru.
       if lru = [] then ret None
       else
         let victim = hd lru in
         bindE (write_dirty_frame victim) (\<lambda>_.
         bindE (modify (\<lambda>bp. bp\<lparr>bp_lru := tl (bp_lru bp), bp_lru_positions := removeAll victim (bp_lru_positions bp)\<rparr>)) (\<lambda>_.
         bindE (modify (\<lambda>bp. erase_entry (pg_id (fr_page (bp_frames bp ! victim))) bp)) (\<lambda>_.
         bindE (modify (reset_frame victim)) (\<lambda>_.
         ret (Some victim)))))))"

definition fetch_page :: "PageId \<Rightarrow> (pool, FrameId option) op" where
  "fetch_page i =
     bindE (count_stat (\<lambda>st. st\<lparr>st_fetches := st_fetches st + 1\<rparr>)) (\<lambda>_.
     if \<not> is_valid i then ret None
     else
       bindE (gets (\<lambda>bp. is_page_allocated i (bp_page_manager bp))) (\<lambda>allocated.
       bindE (require allocated (StorageError Cannot_fetch_unallocated)) (\<lambda>_.
       bindE (gets (find_frame i)) (\<lambda>existing.
       case existing of
         Some f \<Rightarrow>
           bindE (gets (\<lambda>bp. bp_frames bp ! f)) (\<lambda>fr.
           if fr_pin_count fr = 0xFFFFFFFF then ret None
           else
             bindE (upd_frame f (\<lambda>fr. fr\<lparr>fr_pin_count := fr_pin_count fr + 1\<rparr>)) (\<lambda>_.
             bindE (remove_from_lru f) (\<lambda>_.
             bindE (count_stat (\<lambda>st. st\<lparr>st_cache_hits := st_cache_hits st + 1\<rparr>)) (\<lambda>_.
             ret (Some f)))))
       | None \<Rightarrow>
           bindE acquire_frame (\<lambda>frame_id.
           case frame_id of
             None \<Rightarrow> ret None
           | Some f \<Rightarrow>
               bindE (on_error (on_disk (read_page i)) (\<lambda>bp. push_free f (reset_frame f bp))) (\<lambda>p.
               bindE (upd_frame f (\<lambda>fr. fr\<lparr>fr_page := p\<rparr>)) (\<lambda>_.
               bindE (count_stat (\<lambda>st. st\<lparr>st_disk_reads := st_disk_reads st + 1\<rparr>)) (\<lambda>_.
               bindE (upd_frame f (\<lambda>fr. fr\<lparr>fr_pin_count := 1, fr_dirty := False, fr_occupied := True\<rparr>)) (\<lambda>_.
               bindE (gets (find_frame i)) (\<lambda>again.
               if again \<noteq> None then
                 bindE (modify (\<lambda>bp. push_free f (reset_frame f bp))) (\<lambda>_. throw (LogicError Duplicate_page_table_entry))
               else
                 bindE (modify (\<lambda>bp. bp\<lparr>bp_page_table := (i, f) # bp_page_table bp\<rparr>)) (\<lambda>_.
                 ret (Some f))))))))))))"

definition unpin_page :: "PageId \<Rightarrow> bool \<Rightarrow> (pool, bool) op" where
  "unpin_page i dirty =
     bindE (gets (find_frame i)) (\<lambda>entry.
     case entry of
       None \<Rightarrow> ret False
     | Some f \<Rightarrow>
         bindE (gets (\<lambda>bp. bp_frames bp ! f)) (\<lambda>fr.
         if fr_pin_count fr = 0 then ret False
         else
           bindE (upd_frame f (\<lambda>fr. fr\<lparr>fr_pin_count := fr_pin_count fr - 1, fr_dirty := fr_dirty fr \<or> dirty\<rparr>)) (\<lambda>_.
           bindE (if fr_pin_count fr - 1 = 0 then make_evictable f else ret ()) (\<lambda>_.
           ret True))))"

section \<open>Flushing and dropping pages\<close>

definition flush_page :: "PageId \<Rightarrow> (pool, bool) op" where
  "flush_page i =
     bindE (gets (find_frame i)) (\<lambda>entry.
     case entry of
       None \<Rightarrow> ret False
     | Some f \<Rightarrow>
         bindE (gets (\<lambda>bp. bp_frames bp ! f)) (\<lambda>fr.
         bindE (if fr_dirty fr then bindE (require_mutations_finalized fr) (\<lambda>_. require_wal_durable fr) else ret ()) (\<lambda>_.
         bindE (on_disk (write_page i (fr_page fr))) (\<lambda>_.
         bindE (count_stat (\<lambda>st. st\<lparr>st_disk_writes := st_disk_writes st + 1\<rparr>)) (\<lambda>_.
         bindE (on_disk pm_flush) (\<lambda>_.
         bindE (upd_frame f (\<lambda>fr. fr\<lparr>fr_dirty := False\<rparr>)) (\<lambda>_.
         ret True)))))))"

definition delete_page :: "PageId \<Rightarrow> (pool, bool) op" where
  "delete_page i =
     bindE (gets (find_frame i)) (\<lambda>entry.
     case entry of
       None \<Rightarrow> ret True
     | Some f \<Rightarrow>
         bindE (gets (\<lambda>bp. bp_frames bp ! f)) (\<lambda>fr.
         if fr_pin_count fr \<noteq> 0 then ret False
         else
           bindE (write_dirty_frame f) (\<lambda>_.
           bindE (remove_from_lru f) (\<lambda>_.
           bindE (modify (erase_entry i)) (\<lambda>_.
           bindE (modify (\<lambda>bp. push_free f (reset_frame f bp))) (\<lambda>_.
           ret True))))))"

fun flush_frames :: "FrameId list \<Rightarrow> (pool, unit) op" where
  "flush_frames [] = ret ()"
| "flush_frames (f # fs) =
     bindE (gets (\<lambda>bp. bp_frames bp ! f)) (\<lambda>fr.
     bindE (if fr_occupied fr \<and> fr_dirty fr then
         bindE (require_mutations_finalized fr) (\<lambda>_.
         bindE (require_wal_durable fr) (\<lambda>_.
         bindE (on_disk (write_page (pg_id (fr_page fr)) (fr_page fr))) (\<lambda>_.
         count_stat (\<lambda>st. st\<lparr>st_disk_writes := st_disk_writes st + 1\<rparr>))))
       else ret ()) (\<lambda>_.
     flush_frames fs))"

definition flush_all_pages :: "(pool, unit) op" where
  "flush_all_pages =
     bindE (gets (\<lambda>bp. [0..<length (bp_frames bp)])) (\<lambda>fs.
     bindE (flush_frames fs) (\<lambda>_.
     bindE (on_disk pm_flush) (\<lambda>_.
     modify (\<lambda>bp. bp\<lparr>bp_frames := map (\<lambda>fr. if fr_occupied fr then fr\<lparr>fr_dirty := False\<rparr> else fr) (bp_frames bp)\<rparr>))))"

definition close_pool :: "pool \<Rightarrow> pool" where
  "close_pool bp = snd (flush_all_pages bp)"

section \<open>The pool's own check\<close>

definition validate_invariants :: "pool \<Rightarrow> bool" where
  "validate_invariants bp \<longleftrightarrow>
     length (bp_page_table bp) + length (bp_free_frames bp) = length (bp_frames bp) \<and>
     (\<forall>(i, f) \<in> set (bp_page_table bp).
        f < length (bp_frames bp) \<and> fr_occupied (bp_frames bp ! f) \<and> pg_id (fr_page (bp_frames bp ! f)) = i \<and>
        (fr_pin_count (bp_frames bp ! f) = 0) = (f \<in> set (bp_lru_positions bp))) \<and>
     (\<forall>f \<in> set (bp_free_frames bp).
        f < length (bp_frames bp) \<and> \<not> fr_occupied (bp_frames bp ! f) \<and> f \<notin> set (bp_lru_positions bp)) \<and>
     length (bp_lru bp) = length (bp_lru_positions bp) \<and>
     (\<forall>f \<in> set (bp_lru bp).
        f < length (bp_frames bp) \<and> fr_occupied (bp_frames bp ! f) \<and> fr_pin_count (bp_frames bp ! f) = 0)"

section \<open>Access to a fetched page\<close>

text \<open>What a holder of a \<^verbatim>\<open>Page*\<close> does: read the page, or change its payload or LSN in place.\<close>

definition page_at :: "FrameId \<Rightarrow> pool \<Rightarrow> page" where
  "page_at f bp = fr_page (bp_frames bp ! f)"

definition set_payload :: "FrameId \<Rightarrow> byte list \<Rightarrow> (pool, unit) op" where
  "set_payload f bs = upd_frame f (\<lambda>fr. fr\<lparr>fr_page := (fr_page fr)\<lparr>pg_payload := bs\<rparr>\<rparr>)"

definition set_page_lsn :: "FrameId \<Rightarrow> uint64 \<Rightarrow> (pool, unit) op" where
  "set_page_lsn f lsn = upd_frame f (\<lambda>fr. fr\<lparr>fr_page := (fr_page fr)\<lparr>pg_lsn := lsn\<rparr>\<rparr>)"

end
