(* ===== verification/PoolInvariant.thy ===== *)
theory PoolInvariant
  imports BufferPool
begin

text \<open>
  The invariant of the buffer pool, the pages a client sees through it, and the lemmas that carry both
  through the elementary state changes of the operations.
\<close>

section \<open>Invariant\<close>

text \<open>
  \<open>pool_inv acq bp\<close>: frames are split between the page table, the free list and \<open>acq\<close>, the frame an
  operation has taken and not yet entered; the LRU list holds exactly the unpinned cached frames.
  Between operations \<open>acq\<close> is empty.
\<close>

definition pool_inv :: "FrameId list \<Rightarrow> pool \<Rightarrow> bool" where
  "pool_inv acq bp \<longleftrightarrow>
     wf_pm (bp_page_manager bp) \<and> (\<forall>fr \<in> set (bp_frames bp). page_ok (fr_page fr)) \<and>
     distinct (map fst (bp_page_table bp)) \<and>
     distinct (map snd (bp_page_table bp) @ bp_free_frames bp @ acq) \<and>
     set (map snd (bp_page_table bp) @ bp_free_frames bp @ acq) = {..<length (bp_frames bp)} \<and>
     (\<forall>(i, f) \<in> set (bp_page_table bp). fr_occupied (bp_frames bp ! f) \<and> pg_id (fr_page (bp_frames bp ! f)) = i) \<and>
     (\<forall>f \<in> set (bp_free_frames bp) \<union> set acq. bp_frames bp ! f = empty_frame) \<and>
     distinct (bp_lru bp) \<and> distinct (bp_lru_positions bp) \<and> set (bp_lru_positions bp) = set (bp_lru bp) \<and>
     set (bp_lru bp) = {f. f \<in> snd ` set (bp_page_table bp) \<and> fr_pin_count (bp_frames bp ! f) = 0}"

abbreviation wf_pool :: "pool \<Rightarrow> bool" where
  "wf_pool \<equiv> pool_inv []"

lemma pool_invD:
  assumes "pool_inv acq bp"
  shows "wf_pm (bp_page_manager bp)" "\<And>fr. fr \<in> set (bp_frames bp) \<Longrightarrow> page_ok (fr_page fr)"
    "distinct (map fst (bp_page_table bp))" "distinct (map snd (bp_page_table bp))"
    "distinct (bp_lru bp)" "distinct (bp_lru_positions bp)" "set (bp_lru_positions bp) = set (bp_lru bp)"
    "set (bp_lru bp) = {f. f \<in> snd ` set (bp_page_table bp) \<and> fr_pin_count (bp_frames bp ! f) = 0}"
  using assms by (simp_all add: pool_inv_def)

lemma pool_invI:
  assumes "wf_pm (bp_page_manager bp)" "\<forall>fr \<in> set (bp_frames bp). page_ok (fr_page fr)"
    "distinct (map fst (bp_page_table bp))"
    "distinct (map snd (bp_page_table bp) @ bp_free_frames bp @ acq)"
    "snd ` set (bp_page_table bp) \<union> set (bp_free_frames bp) \<union> set acq = {..<length (bp_frames bp)}"
    "\<And>i f. (i, f) \<in> set (bp_page_table bp) \<Longrightarrow> fr_occupied (bp_frames bp ! f) \<and> pg_id (fr_page (bp_frames bp ! f)) = i"
    "\<And>f. f \<in> set (bp_free_frames bp) \<union> set acq \<Longrightarrow> bp_frames bp ! f = empty_frame"
    "distinct (bp_lru bp)" "distinct (bp_lru_positions bp)" "set (bp_lru_positions bp) = set (bp_lru bp)"
    "set (bp_lru bp) = {f. f \<in> snd ` set (bp_page_table bp) \<and> fr_pin_count (bp_frames bp ! f) = 0}"
  shows "pool_inv acq bp"
  unfolding pool_inv_def using assms by (intro conjI ballI) (auto simp: Un_assoc)

lemma pool_inv_parts:
  assumes "pool_inv acq bp"
  shows "snd ` set (bp_page_table bp) \<union> set (bp_free_frames bp) \<union> set acq = {..<length (bp_frames bp)}"
    "distinct (bp_free_frames bp)" "snd ` set (bp_page_table bp) \<inter> set (bp_free_frames bp) = {}"
    "snd ` set (bp_page_table bp) \<inter> set acq = {}" "distinct acq" "set (bp_free_frames bp) \<inter> set acq = {}"
    "\<And>f. f \<in> set (bp_free_frames bp) \<union> set acq \<Longrightarrow> bp_frames bp ! f = empty_frame"
  using assms by (auto simp: pool_inv_def)

lemma pool_inv_entry:
  assumes "pool_inv acq bp" "(i, f) \<in> set (bp_page_table bp)"
  shows "f < length (bp_frames bp)" "fr_occupied (bp_frames bp ! f)" "pg_id (fr_page (bp_frames bp ! f)) = i"
    "page_ok (fr_page (bp_frames bp ! f))" "f \<notin> set (bp_free_frames bp)" "f \<notin> set acq"
    "find_frame i bp = Some f" "f \<in> set (bp_lru bp) \<longleftrightarrow> fr_pin_count (bp_frames bp ! f) = 0"
proof -
  have in_snd: "f \<in> snd ` set (bp_page_table bp)" using assms(2) by force
  then show f: "f < length (bp_frames bp)" using assms(1) by (auto simp: pool_inv_def)
  show "fr_occupied (bp_frames bp ! f)" "pg_id (fr_page (bp_frames bp ! f)) = i"
    using assms by (auto simp: pool_inv_def)
  show "page_ok (fr_page (bp_frames bp ! f))" using assms(1) f by (simp add: pool_inv_def)
  show "f \<notin> set (bp_free_frames bp)" "f \<notin> set acq" using assms(1) in_snd by (auto simp: pool_inv_def)
  show "find_frame i bp = Some f" using pool_invD(3) [OF assms(1)] assms(2) by (simp add: find_frame_def)
  show "f \<in> set (bp_lru bp) \<longleftrightarrow> fr_pin_count (bp_frames bp ! f) = 0"
    unfolding pool_invD(8) [OF assms(1)] using in_snd by simp
qed

lemma pool_inv_frame_unique:
  "pool_inv acq bp \<Longrightarrow> (i, f) \<in> set (bp_page_table bp) \<Longrightarrow> (j, f) \<in> set (bp_page_table bp) \<Longrightarrow> i = j"
  by (metis pool_inv_entry(3))

lemma find_frame_entry: "find_frame i bp = Some f \<Longrightarrow> (i, f) \<in> set (bp_page_table bp)"
  by (simp add: find_frame_def map_of_SomeD)

lemma pool_inv_lru_entry:
  assumes "pool_inv acq bp" "f \<in> set (bp_lru bp)"
  obtains i where "(i, f) \<in> set (bp_page_table bp)" "fr_pin_count (bp_frames bp ! f) = 0"
    "i = pg_id (fr_page (bp_frames bp ! f))"
proof -
  from assms obtain i where i: "(i, f) \<in> set (bp_page_table bp)" "fr_pin_count (bp_frames bp ! f) = 0"
    using pool_invD(8) [OF assms(1)] by auto
  with pool_inv_entry(3) [OF assms(1) i(1)] show thesis by (intro that) auto
qed

section \<open>What a client sees\<close>

text \<open>
  The page stored under a number: the cached copy if there is one, the page on disk otherwise. A page
  that is not logically allocated is not visible.
\<close>

definition pool_view :: "pool \<Rightarrow> PageId \<rightharpoonup> page" where
  "pool_view bp i =
     (if pm_pages (bp_page_manager bp) i = None then None
      else case find_frame i bp of
        Some f \<Rightarrow> Some (fr_page (bp_frames bp ! f))
      | None \<Rightarrow> pm_pages (bp_page_manager bp) i)"

text \<open>
  \<open>coherent I bp\<close>: a clean cached copy of an allocated page is the page on disk, except for the pages
  \<open>I\<close> that a client is changing, which are pinned.
\<close>

definition coherent :: "PageId set \<Rightarrow> pool \<Rightarrow> bool" where
  "coherent I bp \<longleftrightarrow>
     (\<forall>(i, f) \<in> set (bp_page_table bp). i \<notin> I \<and> \<not> fr_dirty (bp_frames bp ! f) \<longrightarrow>
        pm_pages (bp_page_manager bp) i \<in> {None, Some (fr_page (bp_frames bp ! f))}) \<and>
     (\<forall>i \<in> I. \<exists>f. find_frame i bp = Some f \<and> fr_pin_count (bp_frames bp ! f) \<noteq> 0)"

lemma coherent_clean:
  "coherent I bp \<Longrightarrow> (i, f) \<in> set (bp_page_table bp) \<Longrightarrow> i \<notin> I \<Longrightarrow> \<not> fr_dirty (bp_frames bp ! f) \<Longrightarrow>
     pm_pages (bp_page_manager bp) i \<in> {None, Some (fr_page (bp_frames bp ! f))}"
  by (auto simp: coherent_def)

lemma coherentI:
  assumes "\<And>i f. (i, f) \<in> set (bp_page_table bp) \<Longrightarrow> i \<notin> I \<Longrightarrow> \<not> fr_dirty (bp_frames bp ! f) \<Longrightarrow>
      pm_pages (bp_page_manager bp) i \<in> {None, Some (fr_page (bp_frames bp ! f))}"
    and "\<And>i. i \<in> I \<Longrightarrow> \<exists>f. find_frame i bp = Some f \<and> fr_pin_count (bp_frames bp ! f) \<noteq> 0"
  shows "coherent I bp"
  unfolding coherent_def using assms by blast

lemma coherent_pinned:
  "coherent I bp \<Longrightarrow> i \<in> I \<Longrightarrow> \<exists>f. find_frame i bp = Some f \<and> fr_pin_count (bp_frames bp ! f) \<noteq> 0"
  by (simp add: coherent_def)

text \<open>The write-ahead rule's condition on a frame: no unlogged change, and the log durable up to the page.\<close>

definition write_allowed :: "pool \<Rightarrow> frame \<Rightarrow> bool" where
  "write_allowed bp fr \<longleftrightarrow> fr_pending_mutations fr = 0 \<and>
     (pg_lsn (fr_page fr) = 0 \<or> (\<exists>d. bp_wal_durability bp = Some d \<and> pg_lsn (fr_page fr) \<le> d))"

text \<open>
  \<open>wal_rule bp bp'\<close>: whatever page of the disk differs between the two states was cached in the first with
  a copy that may be written.
\<close>

definition wal_rule :: "pool \<Rightarrow> pool \<Rightarrow> bool" where
  "wal_rule bp bp' \<longleftrightarrow>
     (\<forall>i. pm_pages (bp_page_manager bp') i \<noteq> pm_pages (bp_page_manager bp) i \<longrightarrow>
        (\<exists>f. find_frame i bp = Some f \<and> write_allowed bp (bp_frames bp ! f)))"

text \<open>
  \<open>pins_kept J bp bp'\<close>: pinned pages other than \<open>J\<close> stay where they are, unchanged, and no other page becomes
  pinned.
\<close>

definition pins_within :: "PageId set \<Rightarrow> pool \<Rightarrow> pool \<Rightarrow> bool" where
  "pins_within J bp bp' \<longleftrightarrow>
     (\<forall>(i, f) \<in> set (bp_page_table bp). i \<notin> J \<and> fr_pin_count (bp_frames bp ! f) \<noteq> 0 \<longrightarrow>
        (i, f) \<in> set (bp_page_table bp') \<and> bp_frames bp' ! f = bp_frames bp ! f)"

definition pins_kept :: "PageId set \<Rightarrow> pool \<Rightarrow> pool \<Rightarrow> bool" where
  "pins_kept J bp bp' \<longleftrightarrow> pins_within J bp bp' \<and> pins_within J bp' bp"

lemmas pins_kept_defs = pins_kept_def pins_within_def

lemma pins_withinI:
  "(\<And>i f. (i, f) \<in> set (bp_page_table bp) \<Longrightarrow> i \<notin> J \<Longrightarrow> fr_pin_count (bp_frames bp ! f) \<noteq> 0 \<Longrightarrow>
     (i, f) \<in> set (bp_page_table bp') \<and> bp_frames bp' ! f = bp_frames bp ! f) \<Longrightarrow> pins_within J bp bp'"
  unfolding pins_within_def by blast

lemma pins_keptD:
  "pins_kept J bp bp' \<Longrightarrow> (i, f) \<in> set (bp_page_table bp) \<Longrightarrow> i \<notin> J \<Longrightarrow> fr_pin_count (bp_frames bp ! f) \<noteq> 0 \<Longrightarrow>
     (i, f) \<in> set (bp_page_table bp') \<and> bp_frames bp' ! f = bp_frames bp ! f"
  by (fastforce simp: pins_kept_def pins_within_def)

lemma pins_kept_sym: "pins_kept J bp bp' \<Longrightarrow> pins_kept J bp' bp"
  by (simp add: pins_kept_def)

lemma pins_kept_mono: "pins_kept J b bp \<Longrightarrow> J \<subseteq> K \<Longrightarrow> pins_kept K b bp"
  by (auto simp: pins_kept_def pins_within_def)

lemma wal_rule_refl [simp]: "wal_rule bp bp"
  by (simp add: wal_rule_def)

lemma pins_kept_refl [simp]: "pins_kept J bp bp"
  by (auto simp: pins_kept_defs)

lemma pool_view_same:
  "bp_page_manager bp' = bp_page_manager bp \<Longrightarrow> bp_page_table bp' = bp_page_table bp \<Longrightarrow>
     (\<And>i f. (i, f) \<in> set (bp_page_table bp) \<Longrightarrow> fr_page (bp_frames bp' ! f) = fr_page (bp_frames bp ! f)) \<Longrightarrow>
     pool_view bp' = pool_view bp"
  by (auto simp: pool_view_def find_frame_def fun_eq_iff dest: map_of_SomeD split: option.split)

section \<open>Changes of the disk\<close>

lemma pool_inv_disk: "pool_inv acq bp \<Longrightarrow> wf_pm pm \<Longrightarrow> pool_inv acq (bp\<lparr>bp_page_manager := pm\<rparr>)"
  by (simp add: pool_inv_def)

lemma pool_inv_stats [simp]: "pool_inv acq (bp\<lparr>bp_stats := st\<rparr>) = pool_inv acq bp"
  by (simp add: pool_inv_def)

lemma stats_irrelevant [simp]:
  "pool_view (bp\<lparr>bp_stats := st\<rparr>) = pool_view bp" "coherent I (bp\<lparr>bp_stats := st\<rparr>) = coherent I bp"
  "find_frame i (bp\<lparr>bp_stats := st\<rparr>) = find_frame i bp"
  "wal_rule (bp\<lparr>bp_stats := st\<rparr>) bp' = wal_rule bp bp'" "wal_rule bp (bp'\<lparr>bp_stats := st\<rparr>) = wal_rule bp bp'"
  "pins_kept J (bp\<lparr>bp_stats := st\<rparr>) bp' = pins_kept J bp bp'" "pins_kept J bp (bp'\<lparr>bp_stats := st\<rparr>) = pins_kept J bp bp'"
  by (simp_all add: pool_view_def coherent_def find_frame_def wal_rule_def pins_kept_defs write_allowed_def fun_eq_iff
      split: option.split)

lemma free_irrelevant [simp]:
  "pool_view (bp\<lparr>bp_free_frames := fs\<rparr>) = pool_view bp" "coherent I (bp\<lparr>bp_free_frames := fs\<rparr>) = coherent I bp"
  "find_frame i (bp\<lparr>bp_free_frames := fs\<rparr>) = find_frame i bp"
  "wal_rule bp (bp'\<lparr>bp_free_frames := fs\<rparr>) = wal_rule bp bp'"
  "pins_kept J bp (bp'\<lparr>bp_free_frames := fs\<rparr>) = pins_kept J bp bp'"
  by (simp_all add: pool_view_def coherent_def find_frame_def wal_rule_def pins_kept_defs fun_eq_iff split: option.split)

text \<open>Writing a cached page back, completely or torn by a fault.\<close>

definition written_back :: "PageId \<Rightarrow> pool \<Rightarrow> page_manager \<Rightarrow> bool" where
  "written_back i bp pm \<longleftrightarrow> wf_pm pm \<and> dom (pm_pages pm) = dom (pm_pages (bp_page_manager bp)) \<and>
     (\<forall>j. j \<noteq> i \<longrightarrow> pm_pages pm j = pm_pages (bp_page_manager bp) j)"

lemma pool_view_written:
  assumes "written_back i bp pm" "find_frame i bp = Some f"
  shows "pool_view (bp\<lparr>bp_page_manager := pm\<rparr>) = pool_view bp"
proof
  fix j
  have "pm_pages pm j = None \<longleftrightarrow> pm_pages (bp_page_manager bp) j = None"
    using assms(1) unfolding written_back_def by (metis domIff)
  then show "pool_view (bp\<lparr>bp_page_manager := pm\<rparr>) j = pool_view bp j"
    using assms by (cases "j = i") (auto simp: pool_view_def find_frame_def written_back_def split: option.split)
qed

lemma coherent_written:
  assumes "coherent I bp" "pool_inv acq bp" "written_back i bp pm" "find_frame i bp = Some f"
    "fr_dirty (bp_frames bp ! f) \<or> pm_pages pm i = Some (fr_page (bp_frames bp ! f))"
  shows "coherent I (bp\<lparr>bp_page_manager := pm\<rparr>)"
proof -
  have "pm_pages pm j \<in> {None, Some (fr_page (bp_frames bp ! g))}"
    if "(j, g) \<in> set (bp_page_table bp)" "j \<notin> I" "\<not> fr_dirty (bp_frames bp ! g)" for j g
  proof (cases "j = i")
    case True
    then have "g = f" using pool_inv_entry(7) [OF assms(2) that(1)] assms(4) by simp
    with that True assms(5) show ?thesis by auto
  next
    case False
    then have "pm_pages pm j = pm_pages (bp_page_manager bp) j" using assms(3) by (simp add: written_back_def)
    with assms(1) that show ?thesis by (auto simp: coherent_def)
  qed
  with assms(1) show ?thesis by (auto simp: coherent_def find_frame_def)
qed

lemma wal_rule_written:
  "written_back i bp pm \<Longrightarrow> find_frame i bp = Some f \<Longrightarrow> write_allowed bp (bp_frames bp ! f) \<Longrightarrow>
     wal_rule bp (bp\<lparr>bp_page_manager := pm\<rparr>)"
  by (auto simp: wal_rule_def written_back_def)

lemma pins_kept_disk [simp]:
  "pins_kept J b (bp\<lparr>bp_page_manager := pm\<rparr>) = pins_kept J b bp" "pins_kept J (bp\<lparr>bp_page_manager := pm\<rparr>) b = pins_kept J bp b"
  by (simp_all add: pins_kept_defs)

text \<open>The page manager's write, seen from the pool.\<close>

lemma dom_pm_pages: "dom (pm_pages pm) = {i. is_page_allocated i pm}"
  by (auto simp: pm_pages_def dom_def)

lemma write_back_spec:
  assumes "pool_inv acq bp" "(i, f) \<in> set (bp_page_table bp)"
  shows "wp (on_disk (write_page i (fr_page (bp_frames bp ! f))))
     (\<lambda>_ bp'. \<exists>pm. bp' = bp\<lparr>bp_page_manager := pm\<rparr> \<and> written_back i bp pm \<and>
        pm_pages pm i = Some (fr_page (bp_frames bp ! f)) \<and>
        (fault_free (pm_file (bp_page_manager bp)) \<longrightarrow> fault_free (pm_file pm) \<and> good (pm_file pm)))
     (\<lambda>_ bp'. \<exists>pm. bp' = bp\<lparr>bp_page_manager := pm\<rparr> \<and> written_back i bp pm \<and>
        (fault_free (pm_file (bp_page_manager bp)) \<longrightarrow> pm_pages (bp_page_manager bp) i = None \<and> pm = bp_page_manager bp)) bp"
proof -
  let ?pm = "bp_page_manager bp"
  note e = pool_inv_entry [OF assms]
  have dom: "dom (pm_pages pm) = dom (pm_pages ?pm)" if "same_meta ?pm pm" for pm
    using same_metaD [OF that] by (simp add: dom_pm_pages)
  show ?thesis
    unfolding on_disk_def wp_zoom
  proof (rule wp_mono [OF write_page_spec [OF pool_invD(1) [OF assms(1)] e(4), of i]], goal_cases)
    case (1 u pm)
    then have "written_back i bp pm" using dom [of pm] by (simp add: written_back_def)
    with 1 show ?case by (intro exI [of _ pm] conjI) simp_all
  next
    case (2 x pm)
    then have "written_back i bp pm" using dom [of pm] by (simp add: written_back_def)
    with 2 e(3) show ?case by (intro exI [of _ pm] conjI) simp_all
  qed
qed

section \<open>Changes of the bookkeeping\<close>

lemma map_of_erase: "map_of (filter (\<lambda>e. fst e \<noteq> i) t) j = (if j = i then None else map_of t j)"
  by (induction t) auto

text \<open>Taking a frame off the free list, and putting one back.\<close>

lemma pool_inv_pop_free:
  assumes "wf_pool bp" "bp_free_frames bp \<noteq> []"
  shows "pool_inv [last (bp_free_frames bp)] (bp\<lparr>bp_free_frames := butlast (bp_free_frames bp)\<rparr>)"
proof -
  obtain xs x where "bp_free_frames bp = xs @ [x]" using assms(2) by (cases "bp_free_frames bp" rule: rev_cases) auto
  with assms(1) show ?thesis by (simp add: pool_inv_def)
qed

lemma reset_acquired:
  assumes "pool_inv [f] bp"
  shows "reset_frame f bp = bp"
proof -
  have "bp_frames bp ! f = empty_frame" using assms by (simp add: pool_inv_def)
  then have "(bp_frames bp)[f := empty_frame] = bp_frames bp" by (metis list_update_id)
  then show ?thesis by (simp add: reset_frame_def)
qed

lemma pool_inv_push_free: "pool_inv [f] bp \<Longrightarrow> wf_pool (push_free f bp)"
  by (auto simp: pool_inv_def push_free_def)

text \<open>Dropping an entry of the page table: its frame is emptied and taken by the operation.\<close>

definition drop_entry :: "PageId \<Rightarrow> FrameId \<Rightarrow> pool \<Rightarrow> pool" where
  "drop_entry i f bp = bp\<lparr>bp_lru := remove1 f (bp_lru bp), bp_lru_positions := removeAll f (bp_lru_positions bp),
     bp_page_table := filter (\<lambda>e. fst e \<noteq> i) (bp_page_table bp), bp_frames := (bp_frames bp)[f := empty_frame]\<rparr>"

lemma drop_entry_sel:
  "bp_page_manager (drop_entry i f bp) = bp_page_manager bp"
  "bp_frames (drop_entry i f bp) = (bp_frames bp)[f := empty_frame]"
  "bp_page_table (drop_entry i f bp) = filter (\<lambda>e. fst e \<noteq> i) (bp_page_table bp)"
  "bp_free_frames (drop_entry i f bp) = bp_free_frames bp"
  "bp_lru (drop_entry i f bp) = remove1 f (bp_lru bp)"
  "bp_lru_positions (drop_entry i f bp) = removeAll f (bp_lru_positions bp)"
  "bp_stats (drop_entry i f bp) = bp_stats bp" "bp_wal_durability (drop_entry i f bp) = bp_wal_durability bp"
  by (simp_all add: drop_entry_def)

lemma page_ok_new [simp]: "page_ok (new_page i)"
  by (simp add: page_ok_def new_page_def)

lemma drop_entry_table:
  assumes "pool_inv acq bp" "(i, f) \<in> set (bp_page_table bp)"
  shows "snd ` set (filter (\<lambda>e. fst e \<noteq> i) (bp_page_table bp)) = snd ` set (bp_page_table bp) - {f}"
proof -
  have "j \<noteq> i \<longleftrightarrow> g \<noteq> f" if "(j, g) \<in> set (bp_page_table bp)" for j g
    using pool_inv_entry(7) [OF assms] pool_inv_entry(7) [OF assms(1) that] pool_inv_frame_unique [OF assms(1) that, of i] assms(2)
    by auto
  then show ?thesis by (auto simp: image_iff)
qed

lemma pool_inv_drop:
  assumes "wf_pool bp" "(i, f) \<in> set (bp_page_table bp)"
  shows "pool_inv [f] (drop_entry i f bp)"
proof -
  note e = pool_inv_entry [OF assms]
  let ?t = "filter (\<lambda>e. fst e \<noteq> i) (bp_page_table bp)" and ?fs = "(bp_frames bp)[f := empty_frame]"
  have t: "snd ` set ?t = snd ` set (bp_page_table bp) - {f}" by (rule drop_entry_table [OF assms])
  have ne: "g \<noteq> f" if "(j, g) \<in> set ?t" for j g
  proof -
    have "g \<in> snd ` set ?t" using that by (intro image_eqI [of _ _ "(j, g)"]) simp_all
    then show ?thesis unfolding t by simp
  qed
  have ok: "\<forall>x \<in> set ?fs. page_ok (fr_page x)"
    using pool_invD(2) [OF assms(1)] set_update_subset_insert [of "bp_frames bp" f empty_frame]
    by (auto simp: empty_frame_def)
  have lru: "set (remove1 f (bp_lru bp)) = {g. g \<in> snd ` set ?t \<and> fr_pin_count (?fs ! g) = 0}"
    unfolding t set_remove1_eq [OF pool_invD(5) [OF assms(1)]] pool_invD(8) [OF assms(1)] by auto
  have d: "distinct (map snd ?t)" "distinct (map fst ?t)"
    using pool_invD(3,4) [OF assms(1)] by (simp_all add: distinct_map_filter)
  note p = pool_inv_parts [OF assms(1)]
  have f: "f \<in> snd ` set (bp_page_table bp)" using assms(2) by force
  show ?thesis
  proof (rule pool_invI, unfold drop_entry_sel)
    show "distinct (map snd ?t @ bp_free_frames bp @ [f])" using d(1) p(2,3) e(5) t
      unfolding distinct_append set_append set_map t by auto
    show "snd ` set ?t \<union> set (bp_free_frames bp) \<union> set [f] = {..<length ?fs}" using p(1) f unfolding t by auto
    show "fr_occupied (?fs ! g) \<and> pg_id (fr_page (?fs ! g)) = j" if "(j, g) \<in> set ?t" for j g
      using that ne [OF that] pool_inv_entry(2,3) [OF assms(1), of j g] by simp
    show "?fs ! g = empty_frame" if "g \<in> set (bp_free_frames bp) \<union> set [f]" for g
      using that p(7) [of g] e(1) by (cases "g = f") auto
    show "set (removeAll f (bp_lru_positions bp)) = set (remove1 f (bp_lru bp))"
      using pool_invD(5,7) [OF assms(1)] by simp
  qed (use pool_invD [OF assms(1)] d(2) lru ok in \<open>simp_all add: distinct_removeAll\<close>)
qed

lemma pool_view_drop:
  assumes "pool_inv acq bp" "(i, f) \<in> set (bp_page_table bp)"
    "pm_pages (bp_page_manager bp) i \<in> {None, Some (fr_page (bp_frames bp ! f))}"
  shows "pool_view (drop_entry i f bp) = pool_view bp"
proof
  fix j
  show "pool_view (drop_entry i f bp) j = pool_view bp j"
  proof (cases "j = i")
    case True
    then show ?thesis
      using assms(3) pool_inv_entry(7) [OF assms(1,2)]
      by (auto simp: pool_view_def drop_entry_def find_frame_def map_of_erase)
  next
    case False
    have "g \<noteq> f" if "find_frame j bp = Some g" for g
      using pool_inv_frame_unique [OF assms(1) find_frame_entry [OF that], of i] assms(2) False by auto
    moreover have "find_frame j (drop_entry i f bp) = find_frame j bp"
      using False by (simp add: drop_entry_def find_frame_def map_of_erase)
    ultimately show ?thesis
      by (auto simp: pool_view_def drop_entry_def split: option.split)
  qed
qed

lemma coherent_drop:
  assumes "coherent I bp" "pool_inv acq bp" "(i, f) \<in> set (bp_page_table bp)" "i \<notin> I"
  shows "coherent I (drop_entry i f bp)"
proof (rule coherentI, unfold drop_entry_sel)
  have other: "(bp_frames bp)[f := empty_frame] ! g = bp_frames bp ! g" if "(j, g) \<in> set (bp_page_table bp)" "j \<noteq> i" for j g
    using pool_inv_frame_unique [OF assms(2) that(1), of i] that(2) assms(3) by (cases "g = f") auto
  show "pm_pages (bp_page_manager bp) j \<in> {None, Some (fr_page ((bp_frames bp)[f := empty_frame] ! g))}"
    if "(j, g) \<in> set (filter (\<lambda>e. fst e \<noteq> i) (bp_page_table bp))" "j \<notin> I"
      "\<not> fr_dirty ((bp_frames bp)[f := empty_frame] ! g)" for j g
    using that other [of j g] coherent_clean [OF assms(1), of j g] by simp
  show "\<exists>g. find_frame j (drop_entry i f bp) = Some g \<and> fr_pin_count ((bp_frames bp)[f := empty_frame] ! g) \<noteq> 0"
    if j: "j \<in> I" for j
  proof -
    obtain g where g: "find_frame j bp = Some g" "fr_pin_count (bp_frames bp ! g) \<noteq> 0"
      using coherent_pinned [OF assms(1) j] by blast
    have "j \<noteq> i" using j assms(4) by auto
    with g other [OF find_frame_entry [OF g(1)]] show ?thesis by (simp add: find_frame_def drop_entry_sel map_of_erase)
  qed
qed

text \<open>Entering a page that was read into the acquired frame.\<close>

definition enter_entry :: "PageId \<Rightarrow> FrameId \<Rightarrow> page \<Rightarrow> pool \<Rightarrow> pool" where
  "enter_entry i f p bp = bp\<lparr>bp_page_table := (i, f) # bp_page_table bp,
     bp_frames := (bp_frames bp)[f := \<lparr>fr_page = p, fr_pin_count = 1, fr_dirty = False, fr_occupied = True,
       fr_pending_mutations = 0\<rparr>]\<rparr>"

lemma enter_entry_sel:
  "bp_page_manager (enter_entry i f p bp) = bp_page_manager bp"
  "bp_frames (enter_entry i f p bp) = (bp_frames bp)[f := \<lparr>fr_page = p, fr_pin_count = 1, fr_dirty = False,
     fr_occupied = True, fr_pending_mutations = 0\<rparr>]"
  "bp_page_table (enter_entry i f p bp) = (i, f) # bp_page_table bp"
  "bp_free_frames (enter_entry i f p bp) = bp_free_frames bp"
  "bp_lru (enter_entry i f p bp) = bp_lru bp" "bp_lru_positions (enter_entry i f p bp) = bp_lru_positions bp"
  "bp_stats (enter_entry i f p bp) = bp_stats bp" "bp_wal_durability (enter_entry i f p bp) = bp_wal_durability bp"
  by (simp_all add: enter_entry_def)

lemma acquired_not_cached:
  "pool_inv [f] bp \<Longrightarrow> (j, g) \<in> set (bp_page_table bp) \<Longrightarrow> g \<noteq> f" "pool_inv [f] bp \<Longrightarrow> f < length (bp_frames bp)"
  "pool_inv [f] bp \<Longrightarrow> (j, g) \<in> set (bp_page_table bp) \<Longrightarrow> (bp_frames bp)[f := fr] ! g = bp_frames bp ! g"
  using pool_inv_entry(6) [of "[f]" bp j g] pool_inv_parts(1) [of "[f]" bp] by auto

lemma pool_inv_enter:
  assumes "pool_inv [f] bp" "find_frame i bp = None" "page_ok p" "pg_id p = i"
  shows "wf_pool (enter_entry i f p bp)"
proof -
  note p = pool_inv_parts [OF assms(1)] and ne = acquired_not_cached [OF assms(1)]
  let ?fr = "\<lparr>fr_page = p, fr_pin_count = 1, fr_dirty = False, fr_occupied = True, fr_pending_mutations = 0\<rparr>"
  let ?fs = "(bp_frames bp)[f := ?fr]"
  have ok: "\<forall>x \<in> set ?fs. page_ok (fr_page x)"
    using pool_invD(2) [OF assms(1)] set_update_subset_insert [of "bp_frames bp" f ?fr] assms(3) by auto
  have notin: "i \<notin> fst ` set (bp_page_table bp)" using assms(2) by (simp add: find_frame_def map_of_eq_None_iff)
  have fn: "f \<notin> snd ` set (bp_page_table bp)" "f \<notin> set (bp_free_frames bp)" using p(4,6) by auto
  have lru: "set (bp_lru bp) = {g. g \<in> snd ` set ((i, f) # bp_page_table bp) \<and> fr_pin_count (?fs ! g) = 0}"
    unfolding pool_invD(8) [OF assms(1)] using fn(1) ne(2,3) by auto
  show ?thesis
  proof (rule pool_invI, unfold enter_entry_sel)
    show "distinct (map snd ((i, f) # bp_page_table bp) @ bp_free_frames bp @ [])"
      using pool_invD(4) [OF assms(1)] p(2,3) fn by auto
    show "snd ` set ((i, f) # bp_page_table bp) \<union> set (bp_free_frames bp) \<union> set [] = {..<length ?fs}"
      using p(1) by auto
    show "fr_occupied (?fs ! g) \<and> pg_id (fr_page (?fs ! g)) = j" if "(j, g) \<in> set ((i, f) # bp_page_table bp)" for j g
      using that ne assms(4) pool_inv_entry(2,3) [OF assms(1), of j g] by (cases "g = f") auto
    show "?fs ! g = empty_frame" if "g \<in> set (bp_free_frames bp) \<union> set []" for g
      using that p(7) [of g] fn(2) by (cases "g = f") auto
  qed (use pool_invD [OF assms(1)] notin ok lru in simp_all)
qed

lemma pool_view_enter:
  assumes "pool_inv [f] bp" "find_frame i bp = None" "pm_pages (bp_page_manager bp) i = Some p"
  shows "pool_view (enter_entry i f p bp) = pool_view bp"
proof
  fix j
  show "pool_view (enter_entry i f p bp) j = pool_view bp j"
    using assms(2,3) acquired_not_cached(2,3) [OF assms(1)] find_frame_entry [of j bp]
    by (cases "j = i") (auto simp: pool_view_def enter_entry_sel find_frame_def split: option.split)
qed

lemma coherent_enter:
  assumes "coherent I bp" "pool_inv [f] bp" "find_frame i bp = None" "pm_pages (bp_page_manager bp) i = Some p"
  shows "coherent I (enter_entry i f p bp)"
proof (rule coherentI)
  note ne = acquired_not_cached [OF assms(2)]
  show "pm_pages (bp_page_manager (enter_entry i f p bp)) j \<in> {None, Some (fr_page (bp_frames (enter_entry i f p bp) ! g))}"
    if "(j, g) \<in> set (bp_page_table (enter_entry i f p bp))" "j \<notin> I" "\<not> fr_dirty (bp_frames (enter_entry i f p bp) ! g)" for j g
  proof (cases "g = f")
    case True
    then show ?thesis using that(1) ne(1,2) assms(4) by (auto simp: enter_entry_sel)
  next
    case False
    then show ?thesis using that coherent_clean [OF assms(1), of j g] by (auto simp: enter_entry_sel)
  qed
  show "\<exists>g. find_frame j (enter_entry i f p bp) = Some g \<and> fr_pin_count (bp_frames (enter_entry i f p bp) ! g) \<noteq> 0"
    if j: "j \<in> I" for j
  proof -
    obtain g where g: "find_frame j bp = Some g" "fr_pin_count (bp_frames bp ! g) \<noteq> 0"
      using coherent_pinned [OF assms(1) j] by blast
    then have "j \<noteq> i" "g \<noteq> f" using assms(3) ne(1) [OF find_frame_entry [OF g(1)]] by auto
    with g show ?thesis by (auto simp: find_frame_def enter_entry_sel)
  qed
qed

text \<open>The first pin takes a frame off the LRU list, the last unpin appends it.\<close>

definition relist_entry :: "FrameId \<Rightarrow> frame \<Rightarrow> FrameId list \<Rightarrow> FrameId list \<Rightarrow> pool \<Rightarrow> pool" where
  "relist_entry f fr lru pos bp = bp\<lparr>bp_frames := (bp_frames bp)[f := fr], bp_lru := lru, bp_lru_positions := pos\<rparr>"

lemma relist_entry_sel:
  "bp_page_manager (relist_entry f fr lru pos bp) = bp_page_manager bp"
  "bp_frames (relist_entry f fr lru pos bp) = (bp_frames bp)[f := fr]"
  "bp_page_table (relist_entry f fr lru pos bp) = bp_page_table bp"
  "bp_free_frames (relist_entry f fr lru pos bp) = bp_free_frames bp"
  "bp_lru (relist_entry f fr lru pos bp) = lru" "bp_lru_positions (relist_entry f fr lru pos bp) = pos"
  "bp_stats (relist_entry f fr lru pos bp) = bp_stats bp"
  "bp_wal_durability (relist_entry f fr lru pos bp) = bp_wal_durability bp"
  "find_frame j (relist_entry f fr lru pos bp) = find_frame j bp"
  by (simp_all add: relist_entry_def find_frame_def)

lemma pool_inv_relist:
  assumes "wf_pool bp" "(i, f) \<in> set (bp_page_table bp)" "fr_occupied fr" "pg_id (fr_page fr) = i" "page_ok (fr_page fr)"
    "distinct lru" "distinct pos" "set pos = set lru"
    "set lru = (if fr_pin_count fr = 0 then insert f (set (bp_lru bp)) else set (bp_lru bp) - {f})"
  shows "wf_pool (relist_entry f fr lru pos bp)"
proof -
  note e = pool_inv_entry [OF assms(1,2)] and p = pool_inv_parts [OF assms(1)]
  let ?fs = "(bp_frames bp)[f := fr]"
  have in_t: "f \<in> snd ` set (bp_page_table bp)" using assms(2) by force
  have ok: "\<forall>x \<in> set ?fs. page_ok (fr_page x)"
    using pool_invD(2) [OF assms(1)] set_update_subset_insert [of "bp_frames bp" f fr] assms(5) by auto
  have lru: "set lru = {g. g \<in> snd ` set (bp_page_table bp) \<and> fr_pin_count (?fs ! g) = 0}"
    unfolding assms(9) pool_invD(8) [OF assms(1)] using in_t e(1)
    by (auto simp: nth_list_update split: if_splits)
  show ?thesis
  proof (rule pool_invI, unfold relist_entry_sel)
    show "distinct (map snd (bp_page_table bp) @ bp_free_frames bp @ [])" using assms(1) by (simp add: pool_inv_def)
    show "snd ` set (bp_page_table bp) \<union> set (bp_free_frames bp) \<union> set [] = {..<length ?fs}" using p(1) by simp
    show "fr_occupied (?fs ! g) \<and> pg_id (fr_page (?fs ! g)) = j" if "(j, g) \<in> set (bp_page_table bp)" for j g
      using that assms(3,4) e(1) pool_inv_entry(2,3) [OF assms(1) that] pool_inv_frame_unique [OF assms(1,2), of j]
      by (cases "g = f") auto
    show "?fs ! g = empty_frame" if "g \<in> set (bp_free_frames bp) \<union> set []" for g
      using that p(7) [of g] e(5) by (cases "g = f") auto
  qed (use pool_invD [OF assms(1)] ok lru assms(6-8) in simp_all)
qed

lemma relist_entry_frames:
  "coherent I (relist_entry f fr lru pos bp) = coherent I (bp\<lparr>bp_frames := (bp_frames bp)[f := fr]\<rparr>)"
  "pool_view (relist_entry f fr lru pos bp) = pool_view (bp\<lparr>bp_frames := (bp_frames bp)[f := fr]\<rparr>)"
  by (simp_all add: coherent_def pool_view_def find_frame_def relist_entry_sel fun_eq_iff split: option.split)

end
