(* ===== verification/PoolOps.thy ===== *)
theory PoolOps
  imports PoolInvariant
begin

text \<open>
  Specifications of the buffer pool's operations: each keeps the invariant and the pages a client sees,
  obeys the write-ahead rule and leaves pinned pages alone, whether it returns or throws.
\<close>

section \<open>What every operation keeps\<close>

definition pool_kept :: "PageId set \<Rightarrow> pool \<Rightarrow> pool \<Rightarrow> bool" where
  "pool_kept I bp bp' \<longleftrightarrow> coherent I bp' \<and> pool_view bp' = pool_view bp \<and> wal_rule bp bp' \<and>
     length (bp_frames bp') = length (bp_frames bp) \<and> bp_wal_durability bp' = bp_wal_durability bp \<and>
     dom (pm_pages (bp_page_manager bp')) = dom (pm_pages (bp_page_manager bp)) \<and>
     (fault_free (pm_file (bp_page_manager bp)) \<longrightarrow> fault_free (pm_file (bp_page_manager bp')))"

lemma pool_kept_refl [simp]: "pool_kept I bp bp \<longleftrightarrow> coherent I bp"
  by (simp add: pool_kept_def)

lemma pool_kept_stats [simp]:
  "pool_kept I bp (bp'\<lparr>bp_stats := st\<rparr>) = pool_kept I bp bp'"
  "pool_kept I (bp\<lparr>bp_stats := st\<rparr>) bp' = pool_kept I bp bp'"
  by (simp_all add: pool_kept_def)

lemma wal_rule_same_disk:
  "wal_rule bp bp' \<Longrightarrow> pm_pages (bp_page_manager bp'') = pm_pages (bp_page_manager bp') \<Longrightarrow> wal_rule bp bp''"
  by (simp add: wal_rule_def)

section \<open>Updates of a cached frame\<close>

lemma pool_inv_upd:
  assumes "pool_inv acq bp" "(i, f) \<in> set (bp_page_table bp)" "fr_occupied fr" "pg_id (fr_page fr) = i"
    "page_ok (fr_page fr)" "fr_pin_count fr = 0 \<longleftrightarrow> fr_pin_count (bp_frames bp ! f) = 0"
  shows "pool_inv acq (bp\<lparr>bp_frames := (bp_frames bp)[f := fr]\<rparr>)"
proof -
  note e = pool_inv_entry [OF assms(1,2)]
  have pins: "fr_pin_count ((bp_frames bp)[f := fr] ! g) = 0 \<longleftrightarrow> fr_pin_count (bp_frames bp ! g) = 0" for g
    using e(1) assms(6) by (cases "g = f") auto
  have entries: "fr_occupied ((bp_frames bp)[f := fr] ! g) \<and> pg_id (fr_page ((bp_frames bp)[f := fr] ! g)) = j"
    if "(j, g) \<in> set (bp_page_table bp)" for j g
    using that assms(3,4) e(1) pool_inv_entry(2,3) [OF assms(1) that] pool_inv_frame_unique [OF assms(1,2), of j]
    by (cases "g = f") auto
  have free: "(bp_frames bp)[f := fr] ! g = empty_frame" if "g \<in> set (bp_free_frames bp) \<union> set acq" for g
    using that e(5,6) assms(1) by (cases "g = f") (auto simp: pool_inv_def)
  have "page_ok (fr_page x)" if "x \<in> set ((bp_frames bp)[f := fr])" for x
    using that set_update_subset_insert [of "bp_frames bp" f fr] assms(5) pool_invD(2) [OF assms(1)] by auto
  then show ?thesis
    using assms(1) entries free pins unfolding pool_inv_def by auto
qed

lemma set_dirty_False:
  assumes "pool_inv acq bp" "(i, f) \<in> set (bp_page_table bp)"
  shows "pool_inv acq (bp\<lparr>bp_frames := (bp_frames bp)[f := (bp_frames bp ! f)\<lparr>fr_dirty := d\<rparr>]\<rparr>)"
  using pool_inv_entry(2-4) [OF assms] by (intro pool_inv_upd [OF assms]) simp_all

text \<open>A change of flags of one frame is not visible, and keeps coherence if the page is on disk or the frame dirty.\<close>

lemma nth_flags:
  "fr_page fr = fr_page (fs ! f) \<Longrightarrow> fr_page (fs[f := fr] ! g) = fr_page (fs ! g)"
  by (cases "f < length fs") (auto simp: nth_list_update list_update_beyond not_less)

lemma clean_frame: "\<not> fr_dirty (fs ! f) \<Longrightarrow> fs[f := (fs ! f)\<lparr>fr_dirty := False\<rparr>] = fs"
proof -
  assume "\<not> fr_dirty (fs ! f)"
  then have "(fs ! f)\<lparr>fr_dirty := False\<rparr> = fs ! f" by (cases "fs ! f") simp
  then show ?thesis by (simp only: list_update_id)
qed

lemma pool_view_flags:
  "fr_page fr = fr_page (bp_frames bp ! f) \<Longrightarrow> pool_view (bp\<lparr>bp_frames := (bp_frames bp)[f := fr]\<rparr>) = pool_view bp"
  by (intro pool_view_same) (simp_all add: nth_flags)

lemma coherent_flags:
  assumes "coherent I bp" "pool_inv acq bp" "(i, f) \<in> set (bp_page_table bp)" "fr_page fr = fr_page (bp_frames bp ! f)"
    "i \<in> I \<longrightarrow> fr_pin_count fr \<noteq> 0"
    "i \<in> I \<or> fr_dirty fr \<or> pm_pages (bp_page_manager bp) i \<in> {None, Some (fr_page fr)}"
  shows "coherent I (bp\<lparr>bp_frames := (bp_frames bp)[f := fr]\<rparr>)"
proof -
  note e = pool_inv_entry [OF assms(2,3)]
  have "pm_pages (bp_page_manager bp) j \<in> {None, Some (fr_page (bp_frames bp ! g))}"
    if "(j, g) \<in> set (bp_page_table bp)" "j \<notin> I" "\<not> fr_dirty ((bp_frames bp)[f := fr] ! g)" for j g
  proof (cases "g = f")
    case True
    then have "j = i" using pool_inv_frame_unique [OF assms(2) that(1)] assms(3) by simp
    with True that e(1) assms(4,6) show ?thesis by auto
  next
    case False
    with that coherent_clean [OF assms(1) that(1,2)] show ?thesis by simp
  qed
  moreover have "\<exists>g. find_frame j bp = Some g \<and> fr_pin_count ((bp_frames bp)[f := fr] ! g) \<noteq> 0" if "j \<in> I" for j
  proof -
    obtain g where g: "find_frame j bp = Some g" "fr_pin_count (bp_frames bp ! g) \<noteq> 0"
      using coherent_pinned [OF assms(1) \<open>j \<in> I\<close>] by blast
    then have "g = f \<Longrightarrow> j = i" using pool_inv_frame_unique [OF assms(2) find_frame_entry assms(3)] by blast
    with g that assms(5) e(1) show ?thesis by (cases "g = f") auto
  qed
  ultimately show ?thesis unfolding coherent_def by (auto simp: nth_flags [OF assms(4)] find_frame_def)
qed

section \<open>Writing a dirty frame\<close>

lemma require_write_allowed:
  "wp (require_mutations_finalized fr) (\<lambda>_. wp (require_wal_durable fr) Q E) E bp \<longleftrightarrow>
     (if write_allowed bp fr then Q () bp
      else E (if fr_pending_mutations fr = 0 then WalDurabilityError else LogicError Write_blocked_pending) bp)"
  by (auto simp: require_mutations_finalized_def require_wal_durable_def write_allowed_def wp_simps Let_def not_less
      split: option.split)

lemma write_dirty_frame_spec:
  assumes "pool_inv acq bp" "coherent I bp" "(i, f) \<in> set (bp_page_table bp)" "i \<notin> I"
  shows "wp (write_dirty_frame f)
     (\<lambda>_ bp'. pool_inv acq bp' \<and> pool_kept I bp bp' \<and>
        (\<exists>pm st. bp' = bp\<lparr>bp_page_manager := pm, bp_stats := st,
           bp_frames := (bp_frames bp)[f := (bp_frames bp ! f)\<lparr>fr_dirty := False\<rparr>]\<rparr> \<and>
           pm_pages pm i \<in> {None, Some (fr_page (bp_frames bp ! f))}))
     (\<lambda>_ bp'. pool_inv acq bp' \<and> pool_kept I bp bp' \<and> fr_dirty (bp_frames bp ! f) \<and>
        (\<exists>pm. bp' = bp\<lparr>bp_page_manager := pm\<rparr>) \<and>
        (write_allowed bp (bp_frames bp ! f) \<and> fault_free (pm_file (bp_page_manager bp)) \<longrightarrow>
           pm_pages (bp_page_manager bp) i = None)) bp"
proof (cases "fr_dirty (bp_frames bp ! f)")
  case False
  then have "bp = bp\<lparr>bp_page_manager := bp_page_manager bp, bp_stats := bp_stats bp,
      bp_frames := (bp_frames bp)[f := (bp_frames bp ! f)\<lparr>fr_dirty := False\<rparr>]\<rparr>"
    by (simp add: clean_frame)
  moreover have "pm_pages (bp_page_manager bp) i \<in> {None, Some (fr_page (bp_frames bp ! f))}"
    using coherent_clean [OF assms(2-4) False] .
  ultimately have "\<exists>pm st. bp = bp\<lparr>bp_page_manager := pm, bp_stats := st,
      bp_frames := (bp_frames bp)[f := (bp_frames bp ! f)\<lparr>fr_dirty := False\<rparr>]\<rparr> \<and>
      pm_pages pm i \<in> {None, Some (fr_page (bp_frames bp ! f))}" by blast
  then show ?thesis
    using False assms(1,2) unfolding write_dirty_frame_def wp_bindE wp_gets wp_if wp_ret by simp
next
  case True
  note e = pool_inv_entry [OF assms(1,3)]
  let ?fr = "bp_frames bp ! f"
  show ?thesis
  proof (cases "write_allowed bp ?fr")
    case False
    moreover have "\<exists>pm. bp = bp\<lparr>bp_page_manager := pm\<rparr>" by (rule exI [of _ "bp_page_manager bp"]) simp
    ultimately show ?thesis
      using True assms(1,2) unfolding write_dirty_frame_def wp_bindE wp_gets wp_if
      by (simp add: require_write_allowed)
  next
    case allowed: True
    have kept: "pool_kept I bp (bp\<lparr>bp_page_manager := pm\<rparr>)" if "written_back i bp pm"
        "fault_free (pm_file (bp_page_manager bp)) \<longrightarrow> fault_free (pm_file pm)" for pm
      using that pool_view_written [OF that(1) e(7)] coherent_written [OF assms(2,1) that(1) e(7)] True
        wal_rule_written [OF that(1) e(7) allowed]
      by (simp add: pool_kept_def written_back_def)
    let ?bp = "\<lambda>pm st. bp\<lparr>bp_page_manager := pm, bp_stats := st, bp_frames := (bp_frames bp)[f := ?fr\<lparr>fr_dirty := False\<rparr>]\<rparr>"
    have ok: "pool_inv acq (?bp pm st) \<and> pool_kept I bp (?bp pm st)"
      if w: "written_back i bp pm" "pm_pages pm i = Some (fr_page ?fr)" and "pool_kept I bp (bp\<lparr>bp_page_manager := pm\<rparr>)" for pm st
    proof -
      let ?bp1 = "bp\<lparr>bp_page_manager := pm, bp_stats := st\<rparr>"
      have i1: "pool_inv acq ?bp1" "(i, f) \<in> set (bp_page_table ?bp1)" "coherent I ?bp1"
        using w assms(1,3) that(3) by (simp_all add: pool_inv_disk written_back_def pool_kept_def)
      have "coherent I (?bp1\<lparr>bp_frames := (bp_frames ?bp1)[f := ?fr\<lparr>fr_dirty := False\<rparr>]\<rparr>)"
        using w(2) assms(4) by (intro coherent_flags [OF i1(3,1,2)]) simp_all
      moreover have "pool_view (?bp1\<lparr>bp_frames := (bp_frames ?bp1)[f := ?fr\<lparr>fr_dirty := False\<rparr>]\<rparr>) = pool_view ?bp1"
        by (rule pool_view_flags) simp
      moreover have "wal_rule bp (?bp pm st)"
        by (rule wal_rule_same_disk [OF wal_rule_written [OF w(1) e(7) allowed]]) simp
      ultimately show ?thesis using set_dirty_False [OF i1(1,2), of False] that(3) by (simp add: pool_kept_def)
    qed
    show ?thesis
      unfolding write_dirty_frame_def wp_bindE wp_gets wp_if e(3) if_P [OF True]
    proof (subst require_write_allowed, subst if_P [OF allowed], rule wp_mono [OF write_back_spec [OF assms(1,3)]], goal_cases)
      case (1 u bp')
      then obtain pm where pm: "bp' = bp\<lparr>bp_page_manager := pm\<rparr>" "written_back i bp pm"
        "pm_pages pm i = Some (fr_page ?fr)" "fault_free (pm_file (bp_page_manager bp)) \<longrightarrow> fault_free (pm_file pm)" by blast
      define st where "st = (bp_stats bp)\<lparr>st_disk_writes := st_disk_writes (bp_stats bp) + 1\<rparr>"
      have "\<exists>pm' st'. ?bp pm st = ?bp pm' st' \<and> pm_pages pm' i \<in> {None, Some (fr_page ?fr)}" using pm(3) by blast
      with ok [OF pm(2,3) kept [OF pm(2,4)], of st] show ?case
        unfolding count_stat_def upd_frame_def wp_modify pm(1) st_def by simp
    next
      case (2 x bp')
      then obtain pm where pm: "bp' = bp\<lparr>bp_page_manager := pm\<rparr>" "written_back i bp pm"
        "fault_free (pm_file (bp_page_manager bp)) \<longrightarrow> pm_pages (bp_page_manager bp) i = None \<and> pm = bp_page_manager bp" by blast
      then have "fault_free (pm_file (bp_page_manager bp)) \<longrightarrow> fault_free (pm_file pm)" by simp
      from kept [OF pm(2) this] pm assms(1) True show ?case by (auto simp: pool_inv_disk written_back_def)
    qed
  qed
qed

section \<open>Taking a frame\<close>

lemma pool_kept_drop:
  assumes "pool_kept I bp bp1" "pool_inv acq bp1" "(i, f) \<in> set (bp_page_table bp1)" "i \<notin> I"
    "pm_pages (bp_page_manager bp1) i \<in> {None, Some (fr_page (bp_frames bp1 ! f))}"
  shows "pool_kept I bp (drop_entry i f bp1)"
proof -
  have "wal_rule bp (drop_entry i f bp1)"
    using assms(1) by (auto simp: pool_kept_def drop_entry_sel elim: wal_rule_same_disk)
  then show ?thesis
    using assms(1) coherent_drop [OF _ assms(2-4)] pool_view_drop [OF assms(2,3,5)]
    by (simp add: pool_kept_def drop_entry_sel)
qed

lemma pins_kept_drop:
  assumes "pool_inv acq bp" "(i, f) \<in> set (bp_page_table bp)" "fr_pin_count (bp_frames bp ! f) = 0"
    "bp_page_table bp1 = bp_page_table bp" "\<And>g. g \<noteq> f \<Longrightarrow> bp_frames bp1 ! g = bp_frames bp ! g"
  shows "pins_kept J bp (drop_entry i f bp1)"
proof -
  have "j \<noteq> i \<and> (bp_frames bp1)[f := empty_frame] ! g = bp_frames bp ! g"
    if "(j, g) \<in> set (bp_page_table bp)" "fr_pin_count (bp_frames bp ! g) \<noteq> 0" for j g
  proof -
    have "g \<noteq> f" using that(2) assms(3) by auto
    moreover have "j \<noteq> i" using \<open>g \<noteq> f\<close> pool_inv_entry(7) [OF assms(1,2)] pool_inv_entry(7) [OF assms(1) that(1)] by auto
    ultimately show ?thesis using assms(5) by simp
  qed
  moreover have "(bp_frames bp1)[f := empty_frame] ! g = bp_frames bp ! g" if "(j, g) \<in> set (bp_page_table bp)" "j \<noteq> i" for j g
    using pool_inv_frame_unique [OF assms(1) that(1), of i] assms(2) that(2) assms(5) by (cases "g = f") auto
  ultimately show ?thesis using assms(4) by (auto simp: pins_kept_defs drop_entry_sel)
qed

text \<open>
  No frame can be acquired because the least recently used frame is dirty and cannot be written: the device failed, the
  frame waits for the log or for an unfinished mutation, or its page is no longer allocated.
\<close>

definition blocked_victim :: "pool \<Rightarrow> bool" where
  "blocked_victim bp \<longleftrightarrow> bp_free_frames bp = [] \<and> bp_lru bp \<noteq> [] \<and>
     (let fr = bp_frames bp ! hd (bp_lru bp) in fr_dirty fr \<and>
        (write_allowed bp fr \<and> fault_free (pm_file (bp_page_manager bp)) \<longrightarrow> pm_pages (bp_page_manager bp) (pg_id (fr_page fr)) = None))"

lemma blocked_victim_stats [simp]: "blocked_victim (bp\<lparr>bp_stats := st\<rparr>) = blocked_victim bp"
  by (simp add: blocked_victim_def write_allowed_def Let_def)

lemma acquire_frame_spec:
  assumes "wf_pool bp" "coherent I bp"
  shows "wp acquire_frame
     (\<lambda>r bp'. pool_kept I bp bp' \<and> pins_kept {} bp bp' \<and>
        (case r of
           None \<Rightarrow> bp' = bp \<and> bp_free_frames bp = [] \<and> bp_lru bp = []
         | Some f \<Rightarrow> pool_inv [f] bp' \<and> f = (if bp_free_frames bp \<noteq> [] then last (bp_free_frames bp) else hd (bp_lru bp)) \<and>
             set (bp_page_table bp') \<subseteq> set (bp_page_table bp) \<and> (\<forall>j. find_frame j bp' \<in> {None, find_frame j bp})))
     (\<lambda>_ bp'. wf_pool bp' \<and> pool_kept I bp bp' \<and> (\<exists>pm. bp' = bp\<lparr>bp_page_manager := pm\<rparr>) \<and>
        blocked_victim bp) bp"
proof (cases "bp_free_frames bp = []")
  case False
  have "pool_kept I bp (bp\<lparr>bp_free_frames := butlast (bp_free_frames bp)\<rparr>)"
    "pins_kept {} bp (bp\<lparr>bp_free_frames := butlast (bp_free_frames bp)\<rparr>)"
    using assms(2) by (simp_all add: pool_kept_def)
  with False pool_inv_pop_free [OF assms(1) False] show ?thesis
    by (simp add: acquire_frame_def wp_simps find_frame_def)
next
  case free: True
  show ?thesis
  proof (cases "bp_lru bp")
    case Nil
    with free assms(2) show ?thesis by (simp add: acquire_frame_def wp_simps)
  next
    case (Cons f rest)
    then obtain i where i: "(i, f) \<in> set (bp_page_table bp)" "fr_pin_count (bp_frames bp ! f) = 0"
      using pool_inv_lru_entry [OF assms(1), of f] by auto
    note e = pool_inv_entry [OF assms(1) i(1)]
    have "i \<notin> I" using coherent_pinned [OF assms(2), of i] e(7) i(2) by auto
    note w = write_dirty_frame_spec [OF assms i(1) this]
    have drop: "reset_frame f (erase_entry (pg_id (fr_page (bp_frames bp1 ! f)))
        (bp1\<lparr>bp_lru := tl (bp_lru bp1), bp_lru_positions := removeAll f (bp_lru_positions bp1)\<rparr>)) = drop_entry i f bp1"
      if "bp_lru bp1 = bp_lru bp" "pg_id (fr_page (bp_frames bp1 ! f)) = i" for bp1
      using that Cons by (simp add: erase_entry_def reset_frame_def drop_entry_def)
    have run: "wp acquire_frame Q E bp = wp (write_dirty_frame f) (\<lambda>_ bp1. Q (Some f)
        (reset_frame f (erase_entry (pg_id (fr_page (bp_frames bp1 ! f)))
           (bp1\<lparr>bp_lru := tl (bp_lru bp1), bp_lru_positions := removeAll f (bp_lru_positions bp1)\<rparr>)))) E bp" for Q E
      using free Cons by (simp add: acquire_frame_def wp_funs)
    show ?thesis
      unfolding run
    proof (rule wp_mono [OF w], goal_cases)
      case (1 u bp1)
      then obtain pm st where b: "bp1 = bp\<lparr>bp_page_manager := pm, bp_stats := st,
           bp_frames := (bp_frames bp)[f := (bp_frames bp ! f)\<lparr>fr_dirty := False\<rparr>]\<rparr>"
          "pm_pages pm i \<in> {None, Some (fr_page (bp_frames bp ! f))}" by blast
      have inv: "pool_inv [] bp1" and kept: "pool_kept I bp bp1" using 1 by simp_all
      have s1: "bp_page_table bp1 = bp_page_table bp" "bp_lru bp1 = bp_lru bp" "fr_page (bp_frames bp1 ! f) = fr_page (bp_frames bp ! f)"
          "bp_page_manager bp1 = pm" "\<And>g. g \<noteq> f \<Longrightarrow> bp_frames bp1 ! g = bp_frames bp ! g"
        using e(1) by (simp_all add: b(1))
      have d: "drop_entry i f bp1 = reset_frame f (erase_entry (pg_id (fr_page (bp_frames bp1 ! f)))
           (bp1\<lparr>bp_lru := tl (bp_lru bp1), bp_lru_positions := removeAll f (bp_lru_positions bp1)\<rparr>))"
        using drop [of bp1] s1(2,3) e(3) by simp
      have "pool_inv [f] (drop_entry i f bp1)" using inv i(1) s1(1) by (intro pool_inv_drop) simp_all
      moreover have "pool_kept I bp (drop_entry i f bp1)"
        using kept inv i(1) s1 b(2) \<open>i \<notin> I\<close> by (intro pool_kept_drop) simp_all
      moreover have "pins_kept {} bp (drop_entry i f bp1)"
        using assms(1) i s1(1,5) by (intro pins_kept_drop [of "[]"]) simp_all
      moreover have "set (bp_page_table (drop_entry i f bp1)) \<subseteq> set (bp_page_table bp)"
        "find_frame j (drop_entry i f bp1) \<in> {None, find_frame j bp}" for j
        by (auto simp: drop_entry_sel find_frame_def map_of_erase s1(1))
      ultimately show ?case unfolding d [symmetric] using free Cons by simp
    next
      case (2 x bp1)
      then show ?case using free Cons e(3) by (simp add: blocked_victim_def Let_def)
    qed
  qed
qed

section \<open>Fetching\<close>

lemma wp_remove_from_lru:
  assumes "set (bp_lru_positions bp) = set (bp_lru bp)"
  shows "wp (remove_from_lru f) Q E bp =
    Q () (bp\<lparr>bp_lru := remove1 f (bp_lru bp), bp_lru_positions := removeAll f (bp_lru_positions bp)\<rparr>)"
  using assms by (simp add: remove_from_lru_def wp_simps remove1_idem removeAll_id)

text \<open>A change of flags of a cached frame that keeps its page, with the matching change of the LRU list.\<close>

lemma pool_kept_relist:
  assumes "wf_pool bp" "coherent I bp" "(i, f) \<in> set (bp_page_table bp)" "fr_page fr = fr_page (bp_frames bp ! f)"
    "i \<in> I \<longrightarrow> fr_pin_count fr \<noteq> 0" "fr_dirty (bp_frames bp ! f) \<longrightarrow> fr_dirty fr"
  shows "pool_kept I bp (relist_entry f fr lru pos bp)"
proof -
  have "i \<in> I \<or> fr_dirty fr \<or> pm_pages (bp_page_manager bp) i \<in> {None, Some (fr_page fr)}"
    using coherent_clean [OF assms(2,3)] assms(4,6) by auto
  with coherent_flags [OF assms(2,1,3,4,5)] pool_view_flags [OF assms(4)] show ?thesis
    by (simp add: pool_kept_def relist_entry_frames) (simp add: relist_entry_sel wal_rule_def)
qed

lemma pins_kept_relist:
  assumes "wf_pool bp" "(i, f) \<in> set (bp_page_table bp)"
  shows "pins_kept {i} bp (relist_entry f fr lru pos bp)"
proof -
  have "(bp_frames bp)[f := fr] ! g = bp_frames bp ! g" if "(j, g) \<in> set (bp_page_table bp)" "j \<noteq> i" for j g
    using pool_inv_frame_unique [OF assms(1) that(1), of i] assms(2) that(2) by (cases "g = f") auto
  then show ?thesis by (auto simp: pins_kept_defs relist_entry_sel)
qed

lemma allocated_pm_pages: "is_page_allocated i pm \<longleftrightarrow> pm_pages pm i \<noteq> None"
  by (simp add: pm_pages_def)

definition pinned_frame :: "PageId \<Rightarrow> pool \<Rightarrow> page \<Rightarrow> frame" where
  "pinned_frame i bp p =
     (case find_frame i bp of
        Some f \<Rightarrow> (bp_frames bp ! f)\<lparr>fr_pin_count := fr_pin_count (bp_frames bp ! f) + 1\<rparr>
      | None \<Rightarrow> \<lparr>fr_page = p, fr_pin_count = 1, fr_dirty = False, fr_occupied = True, fr_pending_mutations = 0\<rparr>)"

definition fetched :: "PageId set \<Rightarrow> PageId \<Rightarrow> pool \<Rightarrow> FrameId option \<Rightarrow> pool \<Rightarrow> bool" where
  "fetched I i bp r bp' \<longleftrightarrow> wf_pool bp' \<and> pool_kept I bp bp' \<and>
     (case r of
        None \<Rightarrow> pins_kept {} bp bp' \<and>
          (\<not> is_valid i \<or> pin_count i bp = Some 0xFFFFFFFF \<or>
           find_frame i bp = None \<and> bp_free_frames bp = [] \<and> bp_lru bp = [])
      | Some f \<Rightarrow> pins_kept {i} bp bp' \<and> find_frame i bp' = Some f \<and> find_frame i bp \<in> {None, Some f} \<and>
          (\<exists>p. pool_view bp i = Some p \<and> bp_frames bp' ! f = pinned_frame i bp p \<and> page_at f bp' = p) \<and>
          fr_pin_count (bp_frames bp' ! f) \<noteq> 0)"

lemma fetch_hit:
  assumes "wf_pool bp" "coherent I bp" "is_valid i" "is_page_allocated i (bp_page_manager bp)" "find_frame i bp = Some f"
  shows "wp (fetch_page i) (\<lambda>r bp'. fetched I i bp r bp' \<and>
    (r = None \<longrightarrow> pin_count i bp = Some 0xFFFFFFFF)) (\<lambda>_ _. False) bp"
proof -
  note f = find_frame_entry [OF assms(5)]
  note e = pool_inv_entry [OF assms(1) f]
  let ?fr = "bp_frames bp ! f"
  define st where "st = (bp_stats bp)\<lparr>st_fetches := st_fetches (bp_stats bp) + 1\<rparr>"
  define st2 where "st2 = st\<lparr>st_cache_hits := st_cache_hits st + 1\<rparr>"
  define bp' where "bp' = relist_entry f (?fr\<lparr>fr_pin_count := fr_pin_count ?fr + 1\<rparr>) (remove1 f (bp_lru bp))
    (removeAll f (bp_lru_positions bp)) bp"
  show ?thesis
  proof (cases "fr_pin_count ?fr = 0xFFFFFFFF")
    case True
    then have "fetched I i bp None (bp\<lparr>bp_stats := st\<rparr>)" "pin_count i bp = Some 0xFFFFFFFF"
      using assms by (simp_all add: fetched_def pin_count_def)
    with True assms(3-5) show ?thesis
      by (simp add: fetch_page_def wp_funs count_stat_def st_def)
  next
    case False
    have run: "wp (fetch_page i) Q E bp = Q (Some f) (bp'\<lparr>bp_stats := st2\<rparr>)" for Q E
    proof -
      have "wp (remove_from_lru f) Q E (bp\<lparr>bp_stats := st, bp_frames := (bp_frames bp)[f := ?fr\<lparr>fr_pin_count := fr_pin_count ?fr + 1\<rparr>]\<rparr>) =
          Q () (bp'\<lparr>bp_stats := st\<rparr>)" for Q E
        using pool_invD(7) [OF assms(1)]
        by (subst wp_remove_from_lru) (simp, intro arg_cong [where f = "Q ()"], simp add: bp'_def relist_entry_def)
      with False assms(3-5) show ?thesis
        by (simp add: fetch_page_def wp_funs count_stat_def upd_frame_def st_def [symmetric] st2_def)
    qed
    have p1: "fr_pin_count ?fr + 1 \<noteq> 0"
      using False by (rule uint32_succ)
    have "wf_pool bp'"
      unfolding bp'_def using e p1 pool_invD(5-7) [OF assms(1)]
      by (intro pool_inv_relist [OF assms(1) f]) (simp_all add: distinct_removeAll)
    moreover have "pool_kept I bp bp'"
      unfolding bp'_def using p1 by (intro pool_kept_relist [OF assms(1,2) f]) simp_all
    moreover have "pins_kept {i} bp bp'" unfolding bp'_def by (rule pins_kept_relist [OF assms(1) f])
    moreover have "find_frame i bp' = Some f" "bp_frames bp' ! f = ?fr\<lparr>fr_pin_count := fr_pin_count ?fr + 1\<rparr>"
      using assms(5) e(1) by (simp_all add: bp'_def relist_entry_sel)
    moreover have "pool_view bp i = Some (fr_page ?fr)"
      using assms(4,5) by (simp add: pool_view_def allocated_pm_pages)
    ultimately have "fetched I i bp (Some f) (bp'\<lparr>bp_stats := st2\<rparr>)"
      using p1 assms(5) by (simp add: fetched_def pinned_frame_def page_at_def)
    then show ?thesis unfolding run by simp
  qed
qed

lemma same_pages:
  assumes "pm_pages pm = pm_pages (bp_page_manager bp)"
  shows "pool_view (bp\<lparr>bp_page_manager := pm\<rparr>) = pool_view bp" "coherent I (bp\<lparr>bp_page_manager := pm\<rparr>) = coherent I bp"
    "wal_rule b (bp\<lparr>bp_page_manager := pm\<rparr>) = wal_rule b bp"
    "find_frame i (bp\<lparr>bp_page_manager := pm\<rparr>) = find_frame i bp"
  using assms by (simp_all add: pool_view_def coherent_def find_frame_def wal_rule_def fun_eq_iff split: option.split)

lemma pool_kept_same_pages:
  assumes "pool_kept I b bp" "pm_pages pm = pm_pages (bp_page_manager bp)"
    "fault_free (pm_file (bp_page_manager bp)) \<longrightarrow> fault_free (pm_file pm)"
  shows "pool_kept I b (bp\<lparr>bp_page_manager := pm\<rparr>)"
  using assms by (simp add: pool_kept_def same_pages)

lemma pool_kept_enter:
  assumes "pool_kept I b bp" "pool_inv [f] bp" "find_frame i bp = None" "pm_pages (bp_page_manager bp) i = Some p"
  shows "pool_kept I b (enter_entry i f p bp)"
proof -
  have "wal_rule b (enter_entry i f p bp)"
    using assms(1) by (auto simp: pool_kept_def enter_entry_sel elim: wal_rule_same_disk)
  with assms(1) coherent_enter [OF _ assms(2-4)] pool_view_enter [OF assms(2-4)] show ?thesis
    by (simp add: pool_kept_def enter_entry_sel)
qed

lemma pins_kept_enter:
  assumes "pins_kept J b bp" "pool_inv [f] bp"
  shows "pins_kept (insert i J) b (enter_entry i f p bp)"
proof -
  have "pins_within (insert i J) b (enter_entry i f p bp)"
  proof (rule pins_withinI)
    fix j g assume a: "(j, g) \<in> set (bp_page_table b)" "j \<notin> insert i J" "fr_pin_count (bp_frames b ! g) \<noteq> 0"
    then have t: "(j, g) \<in> set (bp_page_table bp)" "bp_frames bp ! g = bp_frames b ! g" using pins_keptD [OF assms(1)] by blast+
    from t(2) acquired_not_cached(3) [OF assms(2) t(1)] t(1)
    show "(j, g) \<in> set (bp_page_table (enter_entry i f p bp)) \<and> bp_frames (enter_entry i f p bp) ! g = bp_frames b ! g"
      by (simp add: enter_entry_sel)
  qed
  moreover have "pins_within (insert i J) (enter_entry i f p bp) b"
  proof (rule pins_withinI)
    fix j g assume a: "(j, g) \<in> set (bp_page_table (enter_entry i f p bp))" "j \<notin> insert i J"
      "fr_pin_count (bp_frames (enter_entry i f p bp) ! g) \<noteq> 0"
    then have t: "(j, g) \<in> set (bp_page_table bp)" "j \<notin> J" by (auto simp: enter_entry_sel)
    then have fr: "bp_frames (enter_entry i f p bp) ! g = bp_frames bp ! g"
      using acquired_not_cached(3) [OF assms(2)] by (simp add: enter_entry_sel)
    with a t assms(1) show "(j, g) \<in> set (bp_page_table b) \<and> bp_frames b ! g = bp_frames (enter_entry i f p bp) ! g"
      using pins_keptD [OF pins_kept_sym [OF assms(1)] t] by simp
  qed
  ultimately show ?thesis by (simp add: pins_kept_def)
qed

text \<open>The end of a miss, from the page read into the acquired frame to the new entry.\<close>

definition finish_load :: "PageId \<Rightarrow> FrameId \<Rightarrow> page \<Rightarrow> (pool, FrameId option) op" where
  "finish_load i f p =
     bindE (upd_frame f (\<lambda>fr. fr\<lparr>fr_page := p\<rparr>)) (\<lambda>_.
     bindE (count_stat (\<lambda>st. st\<lparr>st_disk_reads := st_disk_reads st + 1\<rparr>)) (\<lambda>_.
     bindE (upd_frame f (\<lambda>fr. fr\<lparr>fr_pin_count := 1, fr_dirty := False, fr_occupied := True\<rparr>)) (\<lambda>_.
     bindE (gets (find_frame i)) (\<lambda>again.
     if again \<noteq> None then
       bindE (modify (\<lambda>bp. push_free f (reset_frame f bp))) (\<lambda>_. throw (LogicError Duplicate_page_table_entry))
     else
       bindE (modify (\<lambda>bp. bp\<lparr>bp_page_table := (i, f) # bp_page_table bp\<rparr>)) (\<lambda>_.
       ret (Some f))))))"

lemma finish_load_run:
  assumes "pool_inv [f] bp" "find_frame i bp = None"
  obtains st where "\<And>Q E. wp (finish_load i f p) Q E bp = Q (Some f) ((enter_entry i f p bp)\<lparr>bp_stats := st\<rparr>)"
proof -
  define st where "st = (bp_stats bp)\<lparr>st_disk_reads := st_disk_reads (bp_stats bp) + 1\<rparr>"
  have f: "bp_frames bp ! f = empty_frame" "f < length (bp_frames bp)"
    using pool_inv_parts(1,7) [OF assms(1)] by auto
  define bp2 where "bp2 = bp\<lparr>bp_stats := st, bp_frames := (bp_frames bp)[f := \<lparr>fr_page = p, fr_pin_count = 1,
      fr_dirty = False, fr_occupied = True, fr_pending_mutations = 0\<rparr>]\<rparr>"
  have "find_frame i bp2 = None" using assms(2) by (simp add: bp2_def find_frame_def)
  moreover have "bp2\<lparr>bp_page_table := (i, f) # bp_page_table bp2\<rparr> = (enter_entry i f p bp)\<lparr>bp_stats := st\<rparr>"
    by (simp add: bp2_def enter_entry_def)
  moreover have "wp (finish_load i f p) Q E bp = wp (bindE (gets (find_frame i)) (\<lambda>again.
     if again \<noteq> None then
       bindE (modify (\<lambda>bp. push_free f (reset_frame f bp))) (\<lambda>_. throw (LogicError Duplicate_page_table_entry))
     else
       bindE (modify (\<lambda>bp. bp\<lparr>bp_page_table := (i, f) # bp_page_table bp\<rparr>)) (\<lambda>_.
       ret (Some f)))) Q E bp2" for Q E
    using f by (simp add: finish_load_def wp_funs(3,5) upd_frame_def count_stat_def bp2_def st_def empty_frame_def)
  ultimately show thesis by (intro that [of st]) (simp add: wp_funs)
qed

lemma fetch_page_unfold:
  "fetch_page i =
     bindE (count_stat (\<lambda>st. st\<lparr>st_fetches := st_fetches st + 1\<rparr>)) (\<lambda>_.
     if \<not> is_valid i then ret None
     else
       bindE (gets (\<lambda>bp. is_page_allocated i (bp_page_manager bp))) (\<lambda>allocated.
       bindE (require allocated (StorageError Cannot_fetch_unallocated)) (\<lambda>_.
       bindE (gets (find_frame i)) (\<lambda>existing.
       case existing of
         Some f \<Rightarrow>
           bindE (gets (\<lambda>bp. bp_frames bp ! f)) (\<lambda>fr.
           if fr_pin_count fr = 0xFFFFFFFF then ret None
           else
             bindE (upd_frame f (\<lambda>fr. fr\<lparr>fr_pin_count := fr_pin_count fr + 1\<rparr>)) (\<lambda>_.
             bindE (remove_from_lru f) (\<lambda>_.
             bindE (count_stat (\<lambda>st. st\<lparr>st_cache_hits := st_cache_hits st + 1\<rparr>)) (\<lambda>_.
             ret (Some f)))))
       | None \<Rightarrow>
           bindE acquire_frame (\<lambda>r. case r of None \<Rightarrow> ret None
             | Some f \<Rightarrow> bindE (on_error (on_disk (read_page i)) (\<lambda>bp. push_free f (reset_frame f bp))) (finish_load i f))))))"
  unfolding fetch_page_def finish_load_def by (rule refl)

lemma wp_count_stat: "wp (count_stat g) Q E bp = Q () (bp\<lparr>bp_stats := g (bp_stats bp)\<rparr>)"
  by (simp add: count_stat_def wp_simps)

lemma fetch_miss:
  assumes "wf_pool bp" "coherent I bp" "is_valid i" "is_page_allocated i (bp_page_manager bp)" "find_frame i bp = None"
  shows "wp (fetch_page i)
    (\<lambda>r bp'. fetched I i bp r bp' \<and> (r = None \<longrightarrow> bp_free_frames bp = [] \<and> bp_lru bp = []))
    (\<lambda>_ bp'. wf_pool bp' \<and> pool_kept I bp bp' \<and> pins_kept {} bp bp' \<and>
      (fault_free (pm_file (bp_page_manager bp)) \<longrightarrow>
         blocked_victim bp)) bp"
proof -
  define st where "st = (bp_stats bp)\<lparr>st_fetches := st_fetches (bp_stats bp) + 1\<rparr>"
  have run: "wp (fetch_page i) Q E bp = wp acquire_frame (\<lambda>r. wp (case r of None \<Rightarrow> ret None
      | Some f \<Rightarrow> bindE (on_error (on_disk (read_page i)) (\<lambda>bp. push_free f (reset_frame f bp))) (finish_load i f)) Q E) E
      (bp\<lparr>bp_stats := st\<rparr>)" for Q E
    using assms(3-5) by (simp add: fetch_page_unfold wp_bindE wp_gets wp_require wp_if wp_count_stat st_def [symmetric])
  have i0: "wf_pool (bp\<lparr>bp_stats := st\<rparr>)" "coherent I (bp\<lparr>bp_stats := st\<rparr>)" using assms(1,2) by simp_all
  show ?thesis
    unfolding run
  proof (rule wp_mono [OF acquire_frame_spec [OF i0]], goal_cases)
    case (1 r bp1)
    show ?case
    proof (cases r)
      case None
      with 1 assms show ?thesis by (simp add: wp_simps fetched_def)
    next
      case (Some f)
      have a: "pool_inv [f] bp1" "pool_kept I bp bp1" "pins_kept {} bp bp1" and nf: "find_frame i bp1 = None"
        using 1 Some assms(5) by auto
      obtain q where q: "pm_pages (bp_page_manager bp1) i = Some q"
        using a(2) assms(4) by (auto simp: pool_kept_def allocated_pm_pages dom_def set_eq_iff)
      show ?thesis
        unfolding Some option.case wp_bindE wp_on_error on_disk_def wp_zoom
      proof (rule wp_mono [OF read_page_spec [OF pool_invD(1) [OF a(1)], of i]], goal_cases)
        case (1 p pm)
        define bp2 where "bp2 = bp1\<lparr>bp_page_manager := pm\<rparr>"
        have sel: "pm_pages (bp_page_manager bp2) = pm_pages (bp_page_manager bp1)" "pm_pages (bp_page_manager bp2) i = Some p"
          using 1 by (simp_all add: bp2_def)
        have b: "pool_inv [f] bp2" "pool_kept I bp bp2" "find_frame i bp2 = None" "pins_kept {} bp bp2"
          using 1 a nf unfolding bp2_def
          by (simp_all add: pool_inv_disk pool_kept_same_pages same_pages)
        have pok: "page_ok p" "pg_id p = i" using pm_pages_page [OF pool_invD(1) [OF b(1)] sel(2)] by auto
        define bp3 where "bp3 = enter_entry i f p bp2"
        have "wf_pool bp3" "pool_kept I bp bp3" "pins_kept {i} bp bp3"
          unfolding bp3_def using pool_inv_enter [OF b(1,3) pok] pool_kept_enter [OF b(2,1,3) sel(2)]
            pins_kept_enter [OF b(4,1)] by simp_all
        moreover have "find_frame i bp3 = Some f" "bp_frames bp3 ! f = pinned_frame i bp p"
          using acquired_not_cached(2) [OF b(1)] assms(5)
          by (simp_all add: bp3_def enter_entry_sel pinned_frame_def find_frame_def)
        moreover have "pool_view bp i = Some p"
        proof -
          have "pool_view bp2 = pool_view bp" using b(2) by (simp add: pool_kept_def)
          moreover have "pool_view bp2 i = Some p" using sel(2) b(3) by (simp add: pool_view_def)
          ultimately show ?thesis by simp
        qed
        ultimately have "fetched I i bp (Some f) (bp3\<lparr>bp_stats := st\<rparr>)" for st
          using assms(5) by (simp add: fetched_def page_at_def pinned_frame_def)
        moreover obtain st where "\<And>Q E. wp (finish_load i f p) Q E bp2 = Q (Some f) (bp3\<lparr>bp_stats := st\<rparr>)"
          using finish_load_run [OF b(1,3), of p] unfolding bp3_def by blast
        ultimately show ?case unfolding bp2_def [symmetric] by simp
      next
        case (2 x pm)
        define bp2 where "bp2 = bp1\<lparr>bp_page_manager := pm\<rparr>"
        have b: "pool_inv [f] bp2" "pool_kept I bp bp2" "pins_kept {} bp bp2"
          using 2 a unfolding bp2_def
          by (simp_all add: pool_inv_disk pool_kept_same_pages)
        have "\<not> fault_free (pm_file (bp_page_manager bp))"
          using 2 q a(2) by (auto simp: pool_kept_def)
        with b pool_inv_push_free [OF b(1)] show ?case
          unfolding bp2_def [symmetric] reset_acquired [OF b(1)]
          by (simp add: push_free_def pool_kept_def)
      qed
    qed
  next
    case (2 x bp1)
    then show ?case using assms by auto
  qed
qed

lemma fetch_page_spec:
  assumes "wf_pool bp" "coherent I bp"
  shows "wp (fetch_page i) (fetched I i bp)
    (\<lambda>_ bp'. wf_pool bp' \<and> pool_kept I bp bp' \<and> pins_kept {} bp bp' \<and> is_valid i \<and>
      (fault_free (pm_file (bp_page_manager bp)) \<and> is_page_allocated i (bp_page_manager bp) \<longrightarrow>
         find_frame i bp = None \<and> blocked_victim bp)) bp"
proof -
  consider "\<not> is_valid i" | "is_valid i" "\<not> is_page_allocated i (bp_page_manager bp)"
    | f where "is_valid i" "is_page_allocated i (bp_page_manager bp)" "find_frame i bp = Some f"
    | "is_valid i" "is_page_allocated i (bp_page_manager bp)" "find_frame i bp = None" by auto
  then show ?thesis
  proof cases
    case 1
    with assms show ?thesis by (simp add: fetch_page_def wp_bindE wp_count_stat wp_if wp_ret fetched_def)
  next
    case 2
    with assms show ?thesis
      by (simp add: fetch_page_def wp_bindE wp_count_stat wp_if wp_gets wp_require)
  next
    case 3
    show ?thesis by (rule wp_mono [OF fetch_hit [OF assms 3]]) simp_all
  next
    case 4
    show ?thesis by (rule wp_mono [OF fetch_miss [OF assms 4]]) (use 4 in simp_all)
  qed
qed

section \<open>Releasing\<close>

lemma coherent_release:
  assumes "coherent I bp" "pool_inv acq bp" "(i, f) \<in> set (bp_page_table bp)" "fr_page fr = fr_page (bp_frames bp ! f)" "fr_dirty fr"
  shows "coherent (I - {i}) (bp\<lparr>bp_frames := (bp_frames bp)[f := fr]\<rparr>)"
proof -
  have ne: "g \<noteq> f" if "(j, g) \<in> set (bp_page_table bp)" "j \<noteq> i" for j g
    using pool_inv_frame_unique [OF assms(2) that(1), of i] assms(3) that(2) by auto
  have fl: "f < length (bp_frames bp)" by (rule pool_inv_entry(1) [OF assms(2,3)])
  show ?thesis
  proof (rule coherentI, goal_cases)
    case (1 j g)
    then have t: "(j, g) \<in> set (bp_page_table bp)" "j \<notin> I - {i}" "\<not> fr_dirty ((bp_frames bp)[f := fr] ! g)" by simp_all
    have "g \<noteq> f" using t(3) assms(5) fl by auto
    moreover have "j \<noteq> i" using \<open>g \<noteq> f\<close> pool_inv_entry(7) [OF assms(2,3)] pool_inv_entry(7) [OF assms(2) t(1)] by auto
    ultimately show ?case using coherent_clean [OF assms(1) t(1)] t(2,3) by simp
  next
    case (2 j)
    then obtain g where g: "find_frame j bp = Some g" "fr_pin_count (bp_frames bp ! g) \<noteq> 0"
      using coherent_pinned [OF assms(1), of j] by blast
    with ne [OF find_frame_entry [OF g(1)]] 2 show ?case by (simp add: find_frame_def)
  qed
qed

definition unpinned :: "PageId set \<Rightarrow> PageId \<Rightarrow> bool \<Rightarrow> pool \<Rightarrow> pool \<Rightarrow> bool" where
  "unpinned I i d bp bp' \<longleftrightarrow> wf_pool bp' \<and> pins_kept {i} bp bp' \<and> bp_page_table bp' = bp_page_table bp \<and>
     bp_page_manager bp' = bp_page_manager bp \<and> bp_wal_durability bp' = bp_wal_durability bp \<and>
     pool_view bp' = pool_view bp \<and>
     (\<exists>f. find_frame i bp = Some f \<and> bp_frames bp' ! f =
        (bp_frames bp ! f)\<lparr>fr_pin_count := fr_pin_count (bp_frames bp ! f) - 1, fr_dirty := fr_dirty (bp_frames bp ! f) \<or> d\<rparr>) \<and>
     (coherent I bp \<and> (d \<or> i \<notin> I) \<longrightarrow> coherent (I - {i}) bp')"

lemma unpin_page_spec:
  assumes "wf_pool bp"
  shows "wp (unpin_page i d)
    (\<lambda>r bp'. if pin_count i bp \<in> {None, Some 0} then \<not> r \<and> bp' = bp else r \<and> unpinned I i d bp bp')
    (\<lambda>_ _. False) bp"
proof (cases "pin_count i bp \<in> {None, Some 0}")
  case True
  then show ?thesis by (auto simp: unpin_page_def wp_simps pin_count_def split: option.split)
next
  case False
  then obtain f where ff: "find_frame i bp = Some f" and pin: "fr_pin_count (bp_frames bp ! f) \<noteq> 0"
    by (auto simp: pin_count_def)
  note f = find_frame_entry [OF ff]
  note e = pool_inv_entry [OF assms f]
  let ?fr = "bp_frames bp ! f"
  define fr where "fr = ?fr\<lparr>fr_pin_count := fr_pin_count ?fr - 1, fr_dirty := fr_dirty ?fr \<or> d\<rparr>"
  define lru where "lru = (if fr_pin_count fr = 0 then bp_lru bp @ [f] else bp_lru bp)"
  define pos where "pos = (if fr_pin_count fr = 0 then f # bp_lru_positions bp else bp_lru_positions bp)"
  define bp' where "bp' = relist_entry f fr lru pos bp"
  have notin: "f \<notin> set (bp_lru bp)" "f \<notin> set (bp_lru_positions bp)" using e(8) pin pool_invD(7) [OF assms] by simp_all
  have run: "wp (unpin_page i d) Q E bp = Q True bp'" for Q E
    using ff pin notin
    by (simp add: unpin_page_def wp_funs(3-7) wp_if wp_gets wp_ret wp_bindE wp_modify upd_frame_def make_evictable_def
        remove_from_lru_def bp'_def relist_entry_def lru_def pos_def fr_def)
  have "wf_pool bp'"
    unfolding bp'_def using e(2-4) notin pool_invD(5-7) [OF assms]
    by (intro pool_inv_relist [OF assms f]) (auto simp: fr_def lru_def pos_def)
  moreover have "coherent (I - {i}) bp'" if c: "coherent I bp" "d \<or> i \<notin> I"
  proof (cases d)
    case True
    then show ?thesis
      using coherent_release [OF c(1) assms f, of fr] by (simp add: bp'_def relist_entry_frames fr_def)
  next
    case False
    with c have "i \<notin> I" by simp
    moreover from pool_kept_relist [OF assms c(1) f, of fr lru pos] this have "coherent I bp'"
      by (simp add: pool_kept_def bp'_def fr_def)
    ultimately show ?thesis by simp
  qed
  moreover have "pool_view bp' = pool_view bp"
    using pool_view_flags [of fr bp f] by (simp add: bp'_def relist_entry_frames fr_def)
  ultimately have "unpinned I i d bp bp'"
    using pins_kept_relist [OF assms f] ff e(1) by (simp add: unpinned_def bp'_def relist_entry_sel fr_def)
  with False show ?thesis unfolding run by simp
qed

end
