(* ===== verification/PoolFlush.thy ===== *)
theory PoolFlush
  imports PoolOps
begin

text \<open>
  Specifications of the remaining buffer pool operations: flushing one page and all pages, dropping a
  cached page, and the changes a holder of a pinned page makes.
\<close>

section \<open>Flushing one page\<close>

lemma wp_on_disk: "wp (on_disk m) Q E bp =
    wp m (\<lambda>x pm. Q x (bp\<lparr>bp_page_manager := pm\<rparr>)) (\<lambda>e pm. E e (bp\<lparr>bp_page_manager := pm\<rparr>)) (bp_page_manager bp)"
  by (simp add: on_disk_def wp_zoom)

lemma pool_kept_written:
  assumes "pool_inv acq bp" "coherent I bp" "written_back i bp pm" "find_frame i bp = Some f"
    "fr_dirty (bp_frames bp ! f) \<or> pm_pages pm i = Some (fr_page (bp_frames bp ! f))"
    "write_allowed bp (bp_frames bp ! f) \<or> pm_pages pm i = pm_pages (bp_page_manager bp) i"
    "fault_free (pm_file (bp_page_manager bp)) \<longrightarrow> fault_free (pm_file pm)"
  shows "pool_kept I bp (bp\<lparr>bp_page_manager := pm\<rparr>)"
proof -
  have "wal_rule bp (bp\<lparr>bp_page_manager := pm\<rparr>)"
    using assms(3,4,6) by (auto simp: wal_rule_def written_back_def)
  with assms(7) pool_view_written [OF assms(3,4)] coherent_written [OF assms(2,1,3,4,5)] assms(3) show ?thesis
    by (simp add: pool_kept_def written_back_def)
qed

text \<open>Marking the cached copy clean once it is on disk.\<close>

lemma pool_kept_clean:
  assumes "pool_kept I b bp" "pool_inv acq bp" "(i, f) \<in> set (bp_page_table bp)" "i \<notin> I"
    "pm_pages (bp_page_manager bp) i = Some (fr_page (bp_frames bp ! f))"
  shows "pool_kept I b (bp\<lparr>bp_frames := (bp_frames bp)[f := (bp_frames bp ! f)\<lparr>fr_dirty := False\<rparr>]\<rparr>)"
proof -
  let ?bp = "bp\<lparr>bp_frames := (bp_frames bp)[f := (bp_frames bp ! f)\<lparr>fr_dirty := False\<rparr>]\<rparr>"
  have "coherent I ?bp" using assms by (intro coherent_flags [OF _ assms(2,3)]) (simp_all add: pool_kept_def)
  moreover have "pool_view ?bp = pool_view bp" by (rule pool_view_flags) simp
  moreover have "wal_rule b ?bp" using assms(1) by (auto simp: pool_kept_def elim: wal_rule_same_disk)
  ultimately show ?thesis using assms(1) by (simp add: pool_kept_def)
qed

lemma disk_flush_spec:
  assumes "pool_inv acq bp" "pool_kept I b bp"
  shows "wp (on_disk pm_flush)
    (\<lambda>_ bp'. pool_inv acq bp' \<and> pool_kept I b bp' \<and>
       (\<exists>pm. bp' = bp\<lparr>bp_page_manager := pm\<rparr> \<and> pm_pages pm = pm_pages (bp_page_manager bp)))
    (\<lambda>_ bp'. pool_inv acq bp' \<and> pool_kept I b bp' \<and> (\<exists>pm. bp' = bp\<lparr>bp_page_manager := pm\<rparr>) \<and>
       \<not> (fault_free (pm_file (bp_page_manager bp)) \<and> good (pm_file (bp_page_manager bp)))) bp"
proof -
  have k: "pool_inv acq (bp\<lparr>bp_page_manager := pm\<rparr>)" "pool_kept I b (bp\<lparr>bp_page_manager := pm\<rparr>)"
    if "wf_pm pm" "pm_pages pm = pm_pages (bp_page_manager bp)"
      "fault_free (pm_file (bp_page_manager bp)) \<longrightarrow> fault_free (pm_file pm)" for pm
    using that assms by (simp_all add: pool_inv_disk pool_kept_same_pages)
  show ?thesis
    unfolding wp_on_disk
  proof (rule wp_mono [OF pm_flush_spec [OF pool_invD(1) [OF assms(1)]]], goal_cases)
    case (1 u pm)
    then show ?case using k [of pm] by blast
  next
    case (2 x pm)
    then show ?case using k [of pm] by blast
  qed
qed

lemma flush_page_spec:
  assumes "wf_pool bp" "coherent I bp" "i \<notin> I"
  shows "wp (flush_page i)
    (\<lambda>r bp'. wf_pool bp' \<and> pool_kept I bp bp' \<and> bp_page_table bp' = bp_page_table bp \<and>
       (r \<longrightarrow> is_dirty i bp' = Some False \<and> pm_pages (bp_page_manager bp') i = pool_view bp' i) \<and>
       (\<not> r \<longrightarrow> find_frame i bp = None))
    (\<lambda>_ bp'. wf_pool bp' \<and>
       (fault_free (pm_file (bp_page_manager bp)) \<or> is_dirty i bp = Some True \<longrightarrow> pool_kept I bp bp')) bp"
proof (cases "find_frame i bp")
  case None
  then show ?thesis using assms by (simp add: flush_page_def wp_bindE wp_gets wp_ret)
next
  case (Some f)
  note f = find_frame_entry [OF Some]
  note e = pool_inv_entry [OF assms(1) f]
  let ?fr = "bp_frames bp ! f"
  let ?rest = "bindE (on_disk (write_page i (fr_page ?fr))) (\<lambda>_.
         bindE (count_stat (\<lambda>st. st\<lparr>st_disk_writes := st_disk_writes st + 1\<rparr>)) (\<lambda>_.
         bindE (on_disk pm_flush) (\<lambda>_.
         bindE (upd_frame f (\<lambda>fr. fr\<lparr>fr_dirty := False\<rparr>)) (\<lambda>_. ret True))))"
  have run: "wp (flush_page i) Q E bp = (if fr_dirty ?fr \<and> \<not> write_allowed bp ?fr
      then E (if fr_pending_mutations ?fr = 0 then WalDurabilityError else LogicError Write_blocked_pending) bp
      else wp ?rest Q E bp)" for Q E
    using Some require_write_allowed [of ?fr "\<lambda>_. wp ?rest Q E" E bp]
    by (simp add: flush_page_def wp_bindE wp_gets wp_if wp_ret)
  show ?thesis
  proof (cases "fr_dirty ?fr \<and> \<not> write_allowed bp ?fr")
    case True
    then show ?thesis unfolding run using assms by simp
  next
    case False
    have same: "write_allowed bp ?fr \<or> pm_pages pm i = pm_pages (bp_page_manager bp) i"
      if "pm_pages pm i = Some (fr_page ?fr)" "written_back i bp pm" for pm
    proof -
      have "pm_pages (bp_page_manager bp) i \<noteq> None" using that unfolding written_back_def by (metis domIff option.distinct(1))
      with that(1) False coherent_clean [OF assms(2) f assms(3)] show ?thesis by auto
    qed
    show ?thesis
      unfolding run if_not_P [OF False] wp_bindE
    proof (rule wp_mono [OF write_back_spec [OF assms(1) f]], goal_cases)
      case (1 u bp1)
      then obtain pm where pm: "bp1 = bp\<lparr>bp_page_manager := pm\<rparr>" "written_back i bp pm"
          "pm_pages pm i = Some (fr_page ?fr)" "fault_free (pm_file (bp_page_manager bp)) \<longrightarrow> fault_free (pm_file pm) \<and> good (pm_file pm)"
        by blast
      have k1: "pool_kept I bp bp1"
        unfolding pm(1)
        by (rule pool_kept_written [OF assms(1,2) pm(2) Some disjI2 [OF pm(3)] same [OF pm(3,2)]]) (use pm(4) in simp)
      have inv1: "wf_pool bp1" unfolding pm(1) using assms(1) pm(2) by (simp add: pool_inv_disk written_back_def)
      define bp2 where "bp2 = bp1\<lparr>bp_stats := (bp_stats bp1)\<lparr>st_disk_writes := st_disk_writes (bp_stats bp1) + 1\<rparr>\<rparr>"
      have s2: "wf_pool bp2" "pool_kept I bp bp2" "bp_frames bp2 = bp_frames bp" "bp_page_table bp2 = bp_page_table bp"
          "bp_page_manager bp2 = pm"
        using inv1 k1 by (simp_all add: bp2_def) (simp_all add: pm(1))
      show ?case
        unfolding wp_count_stat bp2_def [symmetric]
      proof (rule wp_mono [OF disk_flush_spec [OF s2(1,2)]], goal_cases)
        case (1 u bp3)
        then obtain pm3 where b3: "bp3 = bp2\<lparr>bp_page_manager := pm3\<rparr>" "pm_pages pm3 = pm_pages pm" using s2(5) by auto
        have s3: "bp_frames bp3 = bp_frames bp" "bp_page_table bp3 = bp_page_table bp" "pm_pages (bp_page_manager bp3) = pm_pages pm"
          using b3 s2 by simp_all
        define bp4 where "bp4 = bp3\<lparr>bp_frames := (bp_frames bp)[f := ?fr\<lparr>fr_dirty := False\<rparr>]\<rparr>"
        have "wf_pool bp4" "pool_kept I bp bp4"
          using set_dirty_False [of "[]" bp3 i f False] pool_kept_clean [of I bp bp3 "[]" i f] 1 s3 f pm(3) assms(3)
          by (simp_all add: bp4_def)
        moreover have "is_dirty i bp4 = Some False" "pm_pages (bp_page_manager bp4) i = pool_view bp4 i"
          using Some e(1) pm(3) s3 by (simp_all add: is_dirty_def find_frame_def bp4_def pool_view_def)
        moreover have "bp_page_table bp4 = bp_page_table bp" using s3(2) by (simp add: bp4_def)
        ultimately show ?case
          by (simp add: upd_frame_def wp_simps s3(1) bp4_def [symmetric])
      next
        case (2 x bp3)
        then show ?case by simp
      qed
    next
      case (2 x bp1)
      then obtain pm where pm: "bp1 = bp\<lparr>bp_page_manager := pm\<rparr>" "written_back i bp pm"
          "fault_free (pm_file (bp_page_manager bp)) \<longrightarrow> pm = bp_page_manager bp" by blast
      have "wf_pool bp1" unfolding pm(1) using assms(1) pm(2) by (simp add: pool_inv_disk written_back_def)
      moreover have "pool_kept I bp bp1" if "fr_dirty ?fr"
        unfolding pm(1) using that False pm(3) by (intro pool_kept_written [OF assms(1,2) pm(2) Some]) simp_all
      moreover have "pool_kept I bp bp1" if "fault_free (pm_file (bp_page_manager bp))"
        using that pm(1,3) assms(2) by simp
      ultimately show ?case using Some by (auto simp: is_dirty_def)
    qed
  qed
qed

section \<open>Dropping a cached page\<close>

lemma delete_page_spec:
  assumes "wf_pool bp" "coherent I bp"
  shows "wp (delete_page i)
    (\<lambda>r bp'. wf_pool bp' \<and> pool_kept I bp bp' \<and> pins_kept {} bp bp' \<and>
       (r \<longleftrightarrow> pin_count i bp \<in> {None, Some 0}) \<and> (r \<longrightarrow> find_frame i bp' = None) \<and> (\<not> r \<longrightarrow> bp' = bp))
    (\<lambda>_ bp'. wf_pool bp' \<and> pool_kept I bp bp' \<and> pin_count i bp = Some 0 \<and> is_dirty i bp = Some True \<and>
       (\<exists>pm. bp' = bp\<lparr>bp_page_manager := pm\<rparr>) \<and>
       (\<forall>f. find_frame i bp = Some f \<and> write_allowed bp (bp_frames bp ! f) \<and> fault_free (pm_file (bp_page_manager bp)) \<longrightarrow>
          pm_pages (bp_page_manager bp) i = None)) bp"
proof (cases "find_frame i bp")
  case None
  then show ?thesis using assms by (simp add: delete_page_def wp_bindE wp_gets wp_ret pin_count_def)
next
  case (Some f)
  note f = find_frame_entry [OF Some]
  note e = pool_inv_entry [OF assms(1) f]
  show ?thesis
  proof (cases "fr_pin_count (bp_frames bp ! f) = 0")
    case False
    then show ?thesis using assms Some
      by (simp add: delete_page_def wp_bindE wp_gets wp_ret wp_if pin_count_def)
  next
    case pin: True
    have "i \<notin> I" using coherent_pinned [OF assms(2), of i] Some pin by auto
    note w = write_dirty_frame_spec [OF assms f this]
    have run: "wp (delete_page i) Q E bp = wp (write_dirty_frame f) (\<lambda>_. wp (remove_from_lru f) (\<lambda>_ bp1.
        Q True (push_free f (reset_frame f (erase_entry i bp1)))) E) E bp" for Q E
      using Some pin by (simp add: delete_page_def wp_funs)
    show ?thesis
      unfolding run
    proof (rule wp_mono [OF w], goal_cases)
      case (1 u bp1)
      then obtain pm st where b: "bp1 = bp\<lparr>bp_page_manager := pm, bp_stats := st,
           bp_frames := (bp_frames bp)[f := (bp_frames bp ! f)\<lparr>fr_dirty := False\<rparr>]\<rparr>"
          "pm_pages pm i \<in> {None, Some (fr_page (bp_frames bp ! f))}" by blast
      have inv: "wf_pool bp1" and kept: "pool_kept I bp bp1" using 1 by simp_all
      have s1: "bp_page_table bp1 = bp_page_table bp" "fr_page (bp_frames bp1 ! f) = fr_page (bp_frames bp ! f)"
          "bp_page_manager bp1 = pm" "\<And>g. g \<noteq> f \<Longrightarrow> bp_frames bp1 ! g = bp_frames bp ! g"
        using e(1) by (simp_all add: b(1))
      have d: "reset_frame f (erase_entry i (bp1\<lparr>bp_lru := remove1 f (bp_lru bp1),
          bp_lru_positions := removeAll f (bp_lru_positions bp1)\<rparr>)) = drop_entry i f bp1"
        by (simp add: erase_entry_def reset_frame_def drop_entry_def)
      have i2: "pool_inv [f] (drop_entry i f bp1)" using inv f s1(1) by (intro pool_inv_drop) simp_all
      have k2: "pool_kept I bp (drop_entry i f bp1)"
        using kept inv f s1 b(2) \<open>i \<notin> I\<close> by (intro pool_kept_drop) simp_all
      have p2: "pins_kept {} bp (drop_entry i f bp1)"
        using assms(1) f pin s1(1,4) by (intro pins_kept_drop [of "[]"]) simp_all
      have n2: "find_frame i (drop_entry i f bp1) = None" by (simp add: drop_entry_sel find_frame_def map_of_erase)
      have "wp (remove_from_lru f) Q E bp1 = Q () (bp1\<lparr>bp_lru := remove1 f (bp_lru bp1),
          bp_lru_positions := removeAll f (bp_lru_positions bp1)\<rparr>)" for Q E
        by (rule wp_remove_from_lru [OF pool_invD(7) [OF inv]])
      then show ?case
        using pool_inv_push_free [OF i2] k2 p2 n2 Some pin
        by (simp add: d) (simp add: push_free_def pool_kept_def pin_count_def)
    next
      case (2 x bp1)
      then show ?case using Some pin by (auto simp: pin_count_def is_dirty_def)
    qed
  qed
qed

section \<open>Flushing all pages\<close>

lemma pool_kept_trans:
  assumes "pool_kept I b bp" "pool_kept I bp bp'" "bp_page_table bp = bp_page_table b" "bp_frames bp = bp_frames b"
  shows "pool_kept I b bp'"
proof -
  have "bp_wal_durability bp = bp_wal_durability b" using assms(1) by (simp add: pool_kept_def)
  then have w: "write_allowed bp fr = write_allowed b fr" "find_frame i bp = find_frame i b" for fr i
    using assms(3) by (simp_all add: write_allowed_def find_frame_def)
  have "wal_rule b bp" "wal_rule bp bp'" using assms(1,2) by (simp_all add: pool_kept_def)
  then have "wal_rule b bp'" unfolding wal_rule_def w assms(4) by metis
  with assms(1,2) show ?thesis by (simp add: pool_kept_def)
qed

text \<open>\<open>stored f b pm\<close>: the dirty page of frame \<open>f\<close> is on disk.\<close>

definition stored :: "FrameId \<Rightarrow> pool \<Rightarrow> page_manager \<Rightarrow> bool" where
  "stored f b pm \<longleftrightarrow> fr_occupied (bp_frames b ! f) \<and> fr_dirty (bp_frames b ! f) \<longrightarrow>
     pm_pages pm (pg_id (fr_page (bp_frames b ! f))) = Some (fr_page (bp_frames b ! f))"

lemma stored_written:
  assumes "wf_pool b" "written_back i b pm" "pm_pages pm i = Some (fr_page (bp_frames b ! f))"
    "(i, f) \<in> set (bp_page_table b)" "stored g b (bp_page_manager b)" "(j, g) \<in> set (bp_page_table b)"
  shows "stored g b pm"
proof (cases "j = i")
  case True
  then have "g = f" using pool_inv_entry(7) [OF assms(1,4)] pool_inv_entry(7) [OF assms(1,6)] by simp
  with assms(3) pool_inv_entry(3) [OF assms(1,4)] show ?thesis by (simp add: stored_def)
next
  case False
  with assms(2,5) pool_inv_entry(3) [OF assms(1,6)] show ?thesis by (simp add: stored_def written_back_def)
qed

lemma occupied_entry:
  assumes "wf_pool bp" "f < length (bp_frames bp)" "fr_occupied (bp_frames bp ! f)"
  shows "(pg_id (fr_page (bp_frames bp ! f)), f) \<in> set (bp_page_table bp)"
proof -
  have "f \<notin> set (bp_free_frames bp)" using pool_inv_parts(7) [OF assms(1), of f] assms(3) by (auto simp: empty_frame_def)
  then have "f \<in> snd ` set (bp_page_table bp)" using pool_inv_parts(1) [OF assms(1)] assms(2) by auto
  then obtain i where "(i, f) \<in> set (bp_page_table bp)" by auto
  with pool_inv_entry(3) [OF assms(1) this] show ?thesis by simp
qed

lemma flush_frames_spec:
  assumes "wf_pool b" "coherent I b" "\<forall>f \<in> set fs. f < length (bp_frames b)"
  shows "wp (flush_frames fs)
    (\<lambda>_ bp'. wf_pool bp' \<and> pool_kept I b bp' \<and> (\<exists>pm st. bp' = b\<lparr>bp_page_manager := pm, bp_stats := st\<rparr> \<and>
       (\<forall>f \<in> set fs. stored f b pm) \<and>
       (\<forall>g \<in> snd ` set (bp_page_table b). stored g b (bp_page_manager b) \<longrightarrow> stored g b pm)))
    (\<lambda>_ bp'. wf_pool bp' \<and> pool_kept I b bp' \<and> (\<exists>pm st. bp' = b\<lparr>bp_page_manager := pm, bp_stats := st\<rparr>)) b"
  using assms
proof (induction fs arbitrary: b)
  case Nil
  have "\<exists>pm st. b = b\<lparr>bp_page_manager := pm, bp_stats := st\<rparr> \<and>
      (\<forall>g \<in> snd ` set (bp_page_table b). stored g b (bp_page_manager b) \<longrightarrow> stored g b pm)"
    by (intro exI [of _ "bp_page_manager b"] exI [of _ "bp_stats b"]) simp
  with Nil show ?case by (simp add: wp_ret)
next
  case (Cons f fs)
  let ?fr = "bp_frames b ! f" and ?id = "pg_id (fr_page (bp_frames b ! f))"
  have rest: "wp (flush_frames fs)
      (\<lambda>_ bp'. wf_pool bp' \<and> pool_kept I b bp' \<and> (\<exists>pm st. bp' = b\<lparr>bp_page_manager := pm, bp_stats := st\<rparr> \<and>
         (\<forall>f \<in> set (f # fs). stored f b pm) \<and>
         (\<forall>g \<in> snd ` set (bp_page_table b). stored g b (bp_page_manager b) \<longrightarrow> stored g b pm)))
      (\<lambda>_ bp'. wf_pool bp' \<and> pool_kept I b bp' \<and> (\<exists>pm st. bp' = b\<lparr>bp_page_manager := pm, bp_stats := st\<rparr>)) b1"
    if "b1 = b\<lparr>bp_page_manager := pm1, bp_stats := st1\<rparr>" "wf_pool b1" "pool_kept I b b1" "stored f b pm1"
      "\<forall>g \<in> snd ` set (bp_page_table b). stored g b (bp_page_manager b) \<longrightarrow> stored g b pm1" for b1 pm1 st1
  proof -
    have s1: "bp_page_table b1 = bp_page_table b" "bp_frames b1 = bp_frames b" "bp_page_manager b1 = pm1"
        "stored g b1 pm = stored g b pm" for g pm
      by (simp_all add: that(1) stored_def)
    have ov: "b1\<lparr>bp_page_manager := pm, bp_stats := st\<rparr> = b\<lparr>bp_page_manager := pm, bp_stats := st\<rparr>" for pm st
      by (simp add: that(1))
    have f_in: "stored f b pm" if "\<forall>g \<in> snd ` set (bp_page_table b). stored g b pm1 \<longrightarrow> stored g b pm" for pm
    proof (cases "fr_occupied ?fr")
      case True
      then have "f \<in> snd ` set (bp_page_table b)"
        using occupied_entry [OF Cons.prems(1), of f] Cons.prems(3) by force
      with that \<open>stored f b pm1\<close> show ?thesis by blast
    qed (simp add: stored_def)
    have c1: "coherent I b1" "\<forall>f \<in> set fs. f < length (bp_frames b1)"
      using that(3) Cons.prems(3) by (simp_all add: pool_kept_def s1)
    show ?thesis
    proof (rule wp_mono [OF Cons.IH [OF that(2) c1]], goal_cases)
      case (1 u bp')
      then obtain pm st where "bp' = b\<lparr>bp_page_manager := pm, bp_stats := st\<rparr>" "\<forall>f \<in> set fs. stored f b pm"
        "\<forall>g \<in> snd ` set (bp_page_table b). stored g b pm1 \<longrightarrow> stored g b pm" unfolding s1 ov by blast
      with 1 pool_kept_trans [OF that(3) _ s1(1,2)] f_in [of pm] that(5) show ?case
        by (intro conjI exI [of _ pm] exI [of _ st]) auto
    next
      case (2 x bp')
      then show ?case using pool_kept_trans [OF that(3) _ s1(1,2)] unfolding ov by blast
    qed
  qed
  show ?case
  proof (cases "fr_occupied ?fr \<and> fr_dirty ?fr")
    case False
    have same: "b = b\<lparr>bp_page_manager := bp_page_manager b, bp_stats := bp_stats b\<rparr>" by simp
    have k: "pool_kept I b b" "stored f b (bp_page_manager b)" using False Cons.prems(2) by (auto simp: stored_def)
    show ?thesis
      unfolding flush_frames.simps wp_bindE wp_gets wp_if if_not_P [OF False] wp_ret
      by (rule rest [OF same Cons.prems(1) k]) blast
  next
    case True
    then have f: "(?id, f) \<in> set (bp_page_table b)" using occupied_entry Cons.prems(1,3) by simp
    note e = pool_inv_entry [OF Cons.prems(1) f]
    have self: "\<exists>pm st. b = b\<lparr>bp_page_manager := pm, bp_stats := st\<rparr>"
      by (intro exI [of _ "bp_page_manager b"] exI [of _ "bp_stats b"]) simp
    show ?thesis
      unfolding flush_frames.simps wp_bindE wp_gets wp_if if_P [OF True]
    proof (subst require_write_allowed, split if_split, intro conjI impI, goal_cases)
      case 1
      show ?case
      proof (rule wp_mono [OF write_back_spec [OF Cons.prems(1) f]], goal_cases)
        case (1 u b1)
        then obtain pm where pm: "b1 = b\<lparr>bp_page_manager := pm\<rparr>" "written_back ?id b pm"
            "pm_pages pm ?id = Some (fr_page ?fr)" "fault_free (pm_file (bp_page_manager b)) \<longrightarrow> fault_free (pm_file pm)" by blast
        define b2 where "b2 = b1\<lparr>bp_stats := (bp_stats b1)\<lparr>st_disk_writes := st_disk_writes (bp_stats b1) + 1\<rparr>\<rparr>"
        have k: "pool_kept I b b1"
          unfolding pm(1) using \<open>write_allowed b ?fr\<close> pm(3)
          by (intro pool_kept_written [OF Cons.prems(1,2) pm(2) e(7) _ _ pm(4)]) simp_all
        have "wf_pool b1" unfolding pm(1) using Cons.prems(1) pm(2) by (simp add: pool_inv_disk written_back_def)
        with k have b2: "wf_pool b2" "pool_kept I b b2" by (simp_all add: b2_def)
        have "b2 = b\<lparr>bp_page_manager := pm, bp_stats := bp_stats b2\<rparr>" by (simp add: b2_def pm(1))
        moreover have "stored f b pm" using pm(3) by (simp add: stored_def)
        moreover have "\<forall>g \<in> snd ` set (bp_page_table b). stored g b (bp_page_manager b) \<longrightarrow> stored g b pm"
          using stored_written [OF Cons.prems(1) pm(2,3) f] by auto
        ultimately show ?case unfolding wp_count_stat b2_def [symmetric] using rest [OF _ b2] by blast
      next
        case (2 x b1)
        then obtain pm where pm: "b1 = b\<lparr>bp_page_manager := pm\<rparr>" "written_back ?id b pm"
            "fault_free (pm_file (bp_page_manager b)) \<longrightarrow> pm = bp_page_manager b" by blast
        have "pool_kept I b b1"
          unfolding pm(1) using \<open>write_allowed b ?fr\<close> True pm(3)
          by (intro pool_kept_written [OF Cons.prems(1,2) pm(2) e(7)]) simp_all
        moreover have "wf_pool b1" unfolding pm(1) using Cons.prems(1) pm(2) by (simp add: pool_inv_disk written_back_def)
        moreover have "b1 = b\<lparr>bp_page_manager := pm, bp_stats := bp_stats b\<rparr>" by (simp add: pm(1))
        ultimately show ?case by blast
      qed
    qed (use Cons.prems self in simp_all)
  qed
qed

lemma pool_inv_map_frames:
  assumes "pool_inv acq bp" "\<And>fr. fr_page (h fr) = fr_page fr" "\<And>fr. fr_pin_count (h fr) = fr_pin_count fr"
    "\<And>fr. fr_occupied (h fr) = fr_occupied fr" "h empty_frame = empty_frame"
  shows "pool_inv acq (bp\<lparr>bp_frames := map h (bp_frames bp)\<rparr>)"
proof (rule pool_invI, goal_cases)
  case (6 i f)
  then show ?case using pool_inv_entry(1-3) [OF assms(1), of i f] assms(2-4) by simp
next
  case (7 f)
  then have "f < length (bp_frames bp)" using pool_inv_parts(1) [OF assms(1)] by auto
  with 7 pool_inv_parts(7) [OF assms(1), of f] assms(5) show ?case by simp
next
  case 11
  have "fr_pin_count (map h (bp_frames bp) ! f) = fr_pin_count (bp_frames bp ! f)" if "f \<in> snd ` set (bp_page_table bp)" for f
    using that pool_inv_parts(1) [OF assms(1)] assms(3) by (subst nth_map) auto
  then have "{f. f \<in> snd ` set (bp_page_table bp) \<and> fr_pin_count (map h (bp_frames bp) ! f) = 0} =
      {f. f \<in> snd ` set (bp_page_table bp) \<and> fr_pin_count (bp_frames bp ! f) = 0}"
    by (intro Collect_cong conj_cong) simp_all
  then show ?case using pool_invD(8) [OF assms(1)] by simp
next
  case 4
  then show ?case using assms(1) by (simp add: pool_inv_def)
qed (use pool_invD [OF assms(1)] pool_inv_parts [OF assms(1)] assms(2) in simp_all)

lemma flush_all_pages_spec:
  assumes "wf_pool bp" "coherent I bp"
  shows "wp flush_all_pages
    (\<lambda>_ bp'. wf_pool bp' \<and> pool_kept I bp bp' \<and> bp_page_table bp' = bp_page_table bp \<and>
       (\<forall>i. is_dirty i bp' \<noteq> Some True) \<and>
       (\<forall>i. i \<notin> I \<longrightarrow> pm_pages (bp_page_manager bp') i = pool_view bp' i))
    (\<lambda>_ bp'. wf_pool bp' \<and> pool_kept I bp bp') bp"
proof -
  let ?fs = "[0..<length (bp_frames bp)]"
  let ?clean = "\<lambda>fr. if fr_occupied fr then fr\<lparr>fr_dirty := False\<rparr> else fr"
  have all: "\<forall>f \<in> set ?fs. f < length (bp_frames bp)" by simp
  show ?thesis
    unfolding flush_all_pages_def wp_bindE wp_gets
  proof (rule wp_mono [OF flush_frames_spec [OF assms all]], goal_cases)
    case (1 u bp1)
    then obtain pm st where b1: "bp1 = bp\<lparr>bp_page_manager := pm, bp_stats := st\<rparr>" "\<forall>f \<in> set ?fs. stored f bp pm" by blast
    have i1: "wf_pool bp1" "pool_kept I bp bp1" using 1 by simp_all
    show ?case
    proof (rule wp_mono [OF disk_flush_spec [OF i1]], goal_cases)
      case (1 u bp2)
      then obtain pm2 where b2: "bp2 = bp1\<lparr>bp_page_manager := pm2\<rparr>" "pm_pages pm2 = pm_pages pm" by (auto simp: b1(1))
      define bp3 where "bp3 = bp2\<lparr>bp_frames := map ?clean (bp_frames bp2)\<rparr>"
      have k2: "wf_pool bp2" "pool_kept I bp bp2" using 1 by simp_all
      have s2: "bp_frames bp2 = bp_frames bp" "bp_page_table bp2 = bp_page_table bp" "pm_pages (bp_page_manager bp2) = pm_pages pm"
        using b2 by (simp_all add: b1(1))
      have i3: "wf_pool bp3"
        unfolding bp3_def by (rule pool_inv_map_frames [OF k2(1)]) (simp_all add: empty_frame_def)
      have entry: "bp_frames bp3 ! f = (bp_frames bp ! f)\<lparr>fr_dirty := False\<rparr>"
          "i \<notin> I \<Longrightarrow> pm_pages pm i \<in> {None, Some (fr_page (bp_frames bp ! f))}"
        if "(i, f) \<in> set (bp_page_table bp)" for i f
      proof -
        note e = pool_inv_entry [OF assms(1) that]
        show "bp_frames bp3 ! f = (bp_frames bp ! f)\<lparr>fr_dirty := False\<rparr>" using e(1,2) by (simp add: bp3_def s2(1))
        show "pm_pages pm i \<in> {None, Some (fr_page (bp_frames bp ! f))}" if "i \<notin> I"
        proof (cases "fr_dirty (bp_frames bp ! f)")
          case True
          with bspec [OF b1(2), of f] e(1-3) show ?thesis by (simp add: stored_def)
        next
          case False
          with that \<open>(i, f) \<in> _\<close> k2(2) coherent_clean [of I bp2 i f] show ?thesis
            by (simp add: pool_kept_def s2)
        qed
      qed
      have c3: "coherent I bp3"
      proof (rule coherentI, goal_cases)
        case (1 i f)
        then show ?case using entry [of i f] by (simp add: bp3_def s2)
      next
        case (2 i)
        then obtain f where f: "find_frame i bp2 = Some f" "fr_pin_count (bp_frames bp2 ! f) \<noteq> 0"
          using coherent_pinned [of I bp2 i] k2(2) by (auto simp: pool_kept_def)
        then have "(i, f) \<in> set (bp_page_table bp)" using find_frame_entry [of i bp2 f] by (simp add: s2)
        with f entry(1) [OF this] show ?case by (simp add: s2(1) find_frame_def) (simp add: bp3_def)
      qed
      have v3: "pool_view bp3 = pool_view bp2"
        by (rule pool_view_same) (use entry(1) in \<open>auto simp: bp3_def s2\<close>)
      have s3: "pm_pages (bp_page_manager bp3) = pm_pages pm" "bp_page_table bp3 = bp_page_table bp"
        "length (bp_frames bp3) = length (bp_frames bp2)" "bp_wal_durability bp3 = bp_wal_durability bp2"
        "bp_page_manager bp3 = bp_page_manager bp2"
        using s2 by (simp_all add: bp3_def)
      have "wal_rule bp bp3" using k2(2) s2(3) s3(1) by (auto simp: pool_kept_def elim: wal_rule_same_disk)
      then have k3: "pool_kept I bp bp3" using k2(2) c3 v3 s3(3-5) by (simp add: pool_kept_def)
      have clean: "is_dirty i bp3 \<noteq> Some True" for i
        using entry(1) [OF find_frame_entry] by (auto simp: is_dirty_def find_frame_def s3(2))
      have disk: "pm_pages (bp_page_manager bp3) i = pool_view bp3 i" if "i \<notin> I" for i
      proof (cases "find_frame i bp")
        case (Some f)
        note f = find_frame_entry [OF Some]
        from entry [OF f] that Some show ?thesis by (auto simp: pool_view_def s3(1,2) find_frame_def)
      qed (simp add: pool_view_def s3(1,2) find_frame_def)
      show ?case
        unfolding wp_modify bp3_def [symmetric] using i3 k3 s3(2) clean disk by blast
    next
      case (2 x bp2)
      then show ?case by simp
    qed
  next
    case (2 x bp1)
    then show ?case by simp
  qed
qed

end
