(* ===== verification/PoolProperties.thy ===== *)
theory PoolProperties
  imports PoolFlush
begin

text \<open>
  Changes of a page in place, the pool's interface as its clients use it, and the properties of the buffer
  pool.
\<close>

section \<open>Changing a cached page\<close>

text \<open>Any change of a cached frame that keeps its pins and the identity of its page.\<close>

lemma pool_view_edit:
  assumes "pool_inv acq bp" "(i, f) \<in> set (bp_page_table bp)"
  shows "pool_view (bp\<lparr>bp_frames := (bp_frames bp)[f := fr]\<rparr>) =
    (if pm_pages (bp_page_manager bp) i = None then pool_view bp else (pool_view bp)(i \<mapsto> fr_page fr))"
proof
  fix j
  note e = pool_inv_entry [OF assms]
  show "pool_view (bp\<lparr>bp_frames := (bp_frames bp)[f := fr]\<rparr>) j =
      (if pm_pages (bp_page_manager bp) i = None then pool_view bp else (pool_view bp)(i \<mapsto> fr_page fr)) j"
  proof (cases "j = i")
    case True
    then show ?thesis using e(1,7) by (simp add: pool_view_def find_frame_def)
  next
    case False
    have "g \<noteq> f" if "find_frame j bp = Some g" for g
      using pool_inv_frame_unique [OF assms(1) find_frame_entry [OF that], of i] assms(2) False by auto
    with False show ?thesis by (auto simp: pool_view_def find_frame_def split: option.split)
  qed
qed

lemma coherent_edit:
  assumes "coherent I bp" "pool_inv acq bp" "(i, f) \<in> set (bp_page_table bp)" "fr_pin_count fr = fr_pin_count (bp_frames bp ! f)"
    "i \<in> J \<or> fr_dirty fr" "I \<subseteq> J" "J \<subseteq> insert i I" "i \<in> J \<longrightarrow> fr_pin_count fr \<noteq> 0"
  shows "coherent J (bp\<lparr>bp_frames := (bp_frames bp)[f := fr]\<rparr>)"
proof (rule coherentI, goal_cases)
  case (1 j g)
  note e = pool_inv_entry [OF assms(2,3)]
  have t: "(j, g) \<in> set (bp_page_table bp)" "j \<notin> J" "\<not> fr_dirty ((bp_frames bp)[f := fr] ! g)" using 1 by simp_all
  have "g \<noteq> f"
  proof
    assume "g = f"
    then have "j = i" using pool_inv_frame_unique [OF assms(2) t(1), of i] assms(3) by simp
    with t assms(5) \<open>g = f\<close> e(1) show False by simp
  qed
  moreover have "j \<notin> I" using t(2) assms(6) by auto
  ultimately show ?case using coherent_clean [OF assms(1) t(1)] t(3) by simp
next
  case (2 j)
  note e = pool_inv_entry [OF assms(2,3)]
  show ?case
  proof (cases "j = i")
    case True
    with 2 assms(8) e(1,7) show ?thesis by (simp add: find_frame_def)
  next
    case False
    with 2 assms(7) obtain g where g: "find_frame j bp = Some g" "fr_pin_count (bp_frames bp ! g) \<noteq> 0"
      using coherent_pinned [OF assms(1), of j] by auto
    have "g \<noteq> f" using pool_inv_frame_unique [OF assms(2) find_frame_entry [OF g(1)], of i] assms(3) False by auto
    with g show ?thesis by (simp add: find_frame_def)
  qed
qed

text \<open>What a holder of a pinned page may rely on when it changes the page.\<close>

definition edited :: "PageId set \<Rightarrow> PageId \<Rightarrow> page \<Rightarrow> pool \<Rightarrow> pool \<Rightarrow> bool" where
  "edited J i p bp bp' \<longleftrightarrow> wf_pool bp' \<and> coherent J bp' \<and>
     pool_view bp' = (if pm_pages (bp_page_manager bp) i = None then pool_view bp else (pool_view bp)(i \<mapsto> p)) \<and>
     bp_page_table bp' = bp_page_table bp \<and> bp_page_manager bp' = bp_page_manager bp \<and>
     bp_wal_durability bp' = bp_wal_durability bp \<and> pins_kept {i} bp bp'"

lemma edit_frame_spec:
  assumes "wf_pool bp" "coherent I bp" "(i, f) \<in> set (bp_page_table bp)"
    "fr_occupied fr" "pg_id (fr_page fr) = i" "page_ok (fr_page fr)" "fr_pin_count fr = fr_pin_count (bp_frames bp ! f)"
    "i \<in> J \<or> fr_dirty fr" "I \<subseteq> J" "J \<subseteq> insert i I" "i \<in> J \<longrightarrow> fr_pin_count fr \<noteq> 0"
  shows "edited J i (fr_page fr) bp (bp\<lparr>bp_frames := (bp_frames bp)[f := fr]\<rparr>)"
proof -
  have "pins_kept {i} bp (bp\<lparr>bp_frames := (bp_frames bp)[f := fr]\<rparr>)"
  proof -
    have "(bp_frames bp)[f := fr] ! g = bp_frames bp ! g" if "(j, g) \<in> set (bp_page_table bp)" "j \<noteq> i" for j g
      using pool_inv_frame_unique [OF assms(1) that(1), of i] assms(3) that(2) by (cases "g = f") auto
    then show ?thesis by (auto simp: pins_kept_defs)
  qed
  moreover have "wf_pool (bp\<lparr>bp_frames := (bp_frames bp)[f := fr]\<rparr>)"
    using assms(4-7) by (intro pool_inv_upd [OF assms(1,3)]) simp_all
  ultimately show ?thesis
    using coherent_edit [OF assms(2,1,3,7-11)] pool_view_edit [OF assms(1,3)] by (simp add: edited_def)
qed

section \<open>Pending mutations\<close>

lemma mark_mutation_pending_spec:
  assumes "wf_pool bp" "coherent I bp"
  shows "wp (mark_mutation_pending i)
    (\<lambda>_ bp'. wf_pool bp' \<and> pool_kept I bp bp' \<and>
       pending_mutation_count i bp' = map_option (\<lambda>n. n + 1) (pending_mutation_count i bp) \<and>
       pending_mutation_count i bp' \<noteq> Some 0 \<and> (\<exists>n. pin_count i bp = Some n \<and> n \<noteq> 0))
    (\<lambda>_ bp'. bp' = bp \<and> (pin_count i bp \<in> {None, Some 0} \<or> pending_mutation_count i bp = Some 0xFFFFFFFF)) bp"
proof (cases "find_frame i bp")
  case None
  then show ?thesis by (simp add: mark_mutation_pending_def wp_simps pin_count_def)
next
  case (Some f)
  note f = find_frame_entry [OF Some]
  note e = pool_inv_entry [OF assms(1) f]
  let ?fr = "bp_frames bp ! f"
  let ?fr' = "?fr\<lparr>fr_pending_mutations := fr_pending_mutations ?fr + 1\<rparr>"
  show ?thesis
  proof (cases "fr_pin_count ?fr \<noteq> 0 \<and> fr_pending_mutations ?fr \<noteq> 0xFFFFFFFF")
    case False
    with Some show ?thesis
      by (auto simp: mark_mutation_pending_def wp_simps pin_count_def pending_mutation_count_def)
  next
    case True
    have "fr_pending_mutations ?fr + 1 \<noteq> 0" using True by (intro uint32_succ) simp
    moreover have "wf_pool (bp\<lparr>bp_frames := (bp_frames bp)[f := ?fr']\<rparr>)"
      using e(2-4) by (intro pool_inv_upd [OF assms(1) f]) simp_all
    moreover have "pool_kept I bp (bp\<lparr>bp_frames := (bp_frames bp)[f := ?fr']\<rparr>)"
      using coherent_flags [OF assms(2,1) f, of ?fr'] coherent_clean [OF assms(2) f] True pool_view_flags [of ?fr' bp f]
      by (auto simp: pool_kept_def wal_rule_def)
    ultimately show ?thesis
      using Some True e(1)
      by (simp add: mark_mutation_pending_def wp_simps upd_frame_def pin_count_def pending_mutation_count_def find_frame_def)
  qed
qed

text \<open>
  The three resolutions set the page LSN. A frame that is neither dirty nor being edited would then differ
  from the disk unnoticed, so their specification asks for one of the two.
\<close>

lemma set_lsn_edited:
  assumes "wf_pool bp" "coherent I bp" "find_frame i bp = Some f" "i \<in> I \<or> fr_dirty (bp_frames bp ! f)"
    "fr' = (bp_frames bp ! f)\<lparr>fr_page := (fr_page (bp_frames bp ! f))\<lparr>pg_lsn := lsn\<rparr>, fr_pending_mutations := n\<rparr>"
  shows "edited I i ((fr_page (bp_frames bp ! f))\<lparr>pg_lsn := lsn\<rparr>) bp (bp\<lparr>bp_frames := (bp_frames bp)[f := fr']\<rparr>)"
proof -
  note f = find_frame_entry [OF assms(3)]
  note e = pool_inv_entry [OF assms(1) f]
  have "i \<in> I \<longrightarrow> fr_pin_count fr' \<noteq> 0" using coherent_pinned [OF assms(2), of i] assms(3,5) by auto
  then show ?thesis
    using edit_frame_spec [OF assms(1,2) f, of fr' I] e(2-4) assms(4) by (auto simp: assms(5) page_ok_def)
qed

definition lsn_set :: "PageId set \<Rightarrow> PageId \<Rightarrow> uint64 \<Rightarrow> pool \<Rightarrow> pool \<Rightarrow> bool" where
  "lsn_set I i lsn bp bp' \<longleftrightarrow>
     (\<exists>f. find_frame i bp = Some f \<and> edited I i ((page_at f bp)\<lparr>pg_lsn := lsn\<rparr>) bp bp')"

lemma pending_resolution_spec:
  assumes "wf_pool bp" "coherent I bp" "i \<in> I \<or> is_dirty i bp = Some True"
  shows "wp (finalize_pending_mutation i lsn)
      (\<lambda>_ bp'. lsn_set I i lsn bp bp' \<and> lsn \<noteq> 0 \<and> pending_mutation_count i bp' = map_option (\<lambda>n. n - 1) (pending_mutation_count i bp))
      (\<lambda>_ bp'. bp' = bp \<and> (pending_mutation_count i bp \<in> {None, Some 0} \<or> lsn = 0)) bp"
    and "wp (resolve_pending_mutation i lsn)
      (\<lambda>_ bp'. lsn_set I i lsn bp bp' \<and> pending_mutation_count i bp' = map_option (\<lambda>n. n - 1) (pending_mutation_count i bp))
      (\<lambda>_ bp'. bp' = bp \<and> pending_mutation_count i bp \<in> {None, Some 0}) bp"
    and "wp (restore_page_lsn_after_undo i lsn)
      (\<lambda>_ bp'. lsn_set I i lsn bp bp' \<and> pending_mutation_count i bp' = Some 0)
      (\<lambda>_ bp'. bp' = bp \<and> pending_mutation_count i bp \<noteq> Some 0) bp"
proof -
  have ed: "edited I i ((fr_page (bp_frames bp ! f))\<lparr>pg_lsn := lsn\<rparr>) bp
      (bp\<lparr>bp_frames := (bp_frames bp)[f := (bp_frames bp ! f)\<lparr>fr_page := (fr_page (bp_frames bp ! f))\<lparr>pg_lsn := lsn\<rparr>,
         fr_pending_mutations := n\<rparr>]\<rparr>)" if "find_frame i bp = Some f" for f n
    using assms(3) that by (intro set_lsn_edited [OF assms(1,2) that]) (auto simp: is_dirty_def)
  have lt: "f < length (bp_frames bp)" if "find_frame i bp = Some f" for f
    using pool_inv_entry(1) [OF assms(1) find_frame_entry [OF that]] .
  note defs = wp_simps upd_frame_def settle_mutation_def pending_mutation_count_def find_frame_def [symmetric]
    lsn_set_def page_at_def
  have ff: "find_frame i (bp\<lparr>bp_frames := fs\<rparr>) = find_frame i bp" for fs by (simp add: find_frame_def)
  show "wp (finalize_pending_mutation i lsn)
      (\<lambda>_ bp'. lsn_set I i lsn bp bp' \<and> lsn \<noteq> 0 \<and> pending_mutation_count i bp' = map_option (\<lambda>n. n - 1) (pending_mutation_count i bp))
      (\<lambda>_ bp'. bp' = bp \<and> (pending_mutation_count i bp \<in> {None, Some 0} \<or> lsn = 0)) bp"
    "wp (resolve_pending_mutation i lsn)
      (\<lambda>_ bp'. lsn_set I i lsn bp bp' \<and> pending_mutation_count i bp' = map_option (\<lambda>n. n - 1) (pending_mutation_count i bp))
      (\<lambda>_ bp'. bp' = bp \<and> pending_mutation_count i bp \<in> {None, Some 0}) bp"
    using ed lt
    by (auto simp: finalize_pending_mutation_def resolve_pending_mutation_def defs ff split: option.split)
  show "wp (restore_page_lsn_after_undo i lsn)
      (\<lambda>_ bp'. lsn_set I i lsn bp bp' \<and> pending_mutation_count i bp' = Some 0)
      (\<lambda>_ bp'. bp' = bp \<and> pending_mutation_count i bp \<noteq> Some 0) bp"
  proof (cases "find_frame i bp")
    case None
    then show ?thesis by (simp add: restore_page_lsn_after_undo_def defs)
  next
    case (Some f)
    from ed [OF Some, of "fr_pending_mutations (bp_frames bp ! f)"] lt [OF Some] Some show ?thesis
      by (auto simp: restore_page_lsn_after_undo_def defs ff)
  qed
qed

section \<open>A new pool\<close>

lemma new_pool_free: "set (map (\<lambda>i. cap - i - 1) [0..<cap]) = {..<cap}" "distinct (map (\<lambda>i. cap - i - 1) [0..<cap])"
proof -
  show "distinct (map (\<lambda>i. cap - i - 1) [0..<cap])" by (auto simp: distinct_map inj_on_def)
  have "f \<in> (\<lambda>i. cap - i - 1) ` {0..<cap}" if "f < cap" for f
    using that by (intro image_eqI [of _ _ "cap - f - 1"]) auto
  then show "set (map (\<lambda>i. cap - i - 1) [0..<cap]) = {..<cap}" by auto
qed

lemma wf_pool_new: "wf_pm pm \<Longrightarrow> wf_pool (new_pool pm cap wal)"
  using new_pool_free by (intro pool_invI) (auto simp: new_pool_def empty_frame_def)

lemma coherent_new [simp]: "coherent {} (new_pool pm cap wal)"
  by (simp add: coherent_def new_pool_def)

lemma pool_view_new [simp]: "pool_view (new_pool pm cap wal) = pm_pages pm"
  by (auto simp: pool_view_def new_pool_def find_frame_def fun_eq_iff)

lemma wf_pool_validates:
  assumes "wf_pool bp"
  shows "validate_invariants bp"
proof -
  note p = pool_inv_parts [OF assms] and d = pool_invD [OF assms]
  have "length (bp_page_table bp) + length (bp_free_frames bp) = card (snd ` set (bp_page_table bp)) + card (set (bp_free_frames bp))"
    using distinct_card [OF d(4)] distinct_card [OF p(2)] by simp
  also have "\<dots> = card (snd ` set (bp_page_table bp) \<union> set (bp_free_frames bp))"
    using p(3) by (simp add: card_Un_disjoint)
  also have "\<dots> = length (bp_frames bp)" using p(1) by simp
  finally have count: "length (bp_page_table bp) + length (bp_free_frames bp) = length (bp_frames bp)" .
  have lists: "length (bp_lru bp) = length (bp_lru_positions bp)"
    using distinct_card [OF d(5)] distinct_card [OF d(6)] d(7) by simp
  have free: "f < length (bp_frames bp) \<and> \<not> fr_occupied (bp_frames bp ! f) \<and> f \<notin> set (bp_lru_positions bp)"
    if "f \<in> set (bp_free_frames bp)" for f
    using p(1,3) p(7) [of f] d(7,8) that by (auto simp: empty_frame_def)
  show ?thesis
    unfolding validate_invariants_def
    using count lists free pool_inv_entry [OF assms] d(7) by (auto elim: pool_inv_lru_entry [OF assms])
qed

section \<open>The invariant under every operation\<close>

definition pool_ok :: "PageId set \<Rightarrow> pool \<Rightarrow> bool" where
  "pool_ok I bp \<longleftrightarrow> wf_pool bp \<and> coherent I bp"

lemma pool_okD: "pool_ok I bp \<Longrightarrow> wf_pool bp" "pool_ok I bp \<Longrightarrow> coherent I bp"
  by (simp_all add: pool_ok_def)

lemma pool_keptD:
  "pool_kept I bp bp' \<Longrightarrow> coherent I bp'" "pool_kept I bp bp' \<Longrightarrow> pool_view bp' = pool_view bp"
  "pool_kept I bp bp' \<Longrightarrow> wal_rule bp bp'"
  by (simp_all add: pool_kept_def)

lemma wp_pool_kept:
  assumes "wp m Q E bp" "\<And>x bp'. Q x bp' \<Longrightarrow> wf_pool bp' \<and> pool_kept I bp bp'" "\<And>e bp'. E e bp' \<Longrightarrow> wf_pool bp' \<and> pool_kept I bp bp'"
  shows "wf_pool (snd (m bp)) \<and> pool_kept I bp (snd (m bp))"
  using assms by (auto simp: wp_def split: prod.splits sum.splits)

lemma pool_ops_kept:
  assumes "pool_ok I bp"
  shows "wf_pool (snd (fetch_page i bp)) \<and> pool_kept I bp (snd (fetch_page i bp))"
    "wf_pool (snd (delete_page i bp)) \<and> pool_kept I bp (snd (delete_page i bp))"
    "wf_pool (snd (flush_all_pages bp)) \<and> pool_kept I bp (snd (flush_all_pages bp))"
    "wf_pool (snd (mark_mutation_pending i bp)) \<and> pool_kept I bp (snd (mark_mutation_pending i bp))"
    "i \<notin> I \<Longrightarrow> fault_free (pm_file (bp_page_manager bp)) \<Longrightarrow> wf_pool (snd (flush_page i bp)) \<and> pool_kept I bp (snd (flush_page i bp))"
proof -
  note ok = pool_okD [OF assms]
  show "wf_pool (snd (fetch_page i bp)) \<and> pool_kept I bp (snd (fetch_page i bp))"
    by (rule wp_pool_kept [OF fetch_page_spec [OF ok]]) (simp_all add: fetched_def)
  show "wf_pool (snd (delete_page i bp)) \<and> pool_kept I bp (snd (delete_page i bp))"
    by (rule wp_pool_kept [OF delete_page_spec [OF ok]]) simp_all
  show "wf_pool (snd (flush_all_pages bp)) \<and> pool_kept I bp (snd (flush_all_pages bp))"
    by (rule wp_pool_kept [OF flush_all_pages_spec [OF ok]]) simp_all
  show "wf_pool (snd (mark_mutation_pending i bp)) \<and> pool_kept I bp (snd (mark_mutation_pending i bp))"
    by (rule wp_pool_kept [OF mark_mutation_pending_spec [OF ok]]) (simp_all add: ok)
  show "wf_pool (snd (flush_page i bp)) \<and> pool_kept I bp (snd (flush_page i bp))"
    if "i \<notin> I" "fault_free (pm_file (bp_page_manager bp))"
    by (rule wp_pool_kept [OF flush_page_spec [OF ok that(1)]]) (simp_all add: that)
qed

lemma unpin_page_ok:
  assumes "pool_ok I bp" "d \<or> i \<notin> I"
  shows "pool_ok (I - {i}) (snd (unpin_page i d bp)) \<and> pool_view (snd (unpin_page i d bp)) = pool_view bp \<and>
    bp_page_manager (snd (unpin_page i d bp)) = bp_page_manager bp"
proof -
  note ok = pool_okD [OF assms(1)]
  have "I - {i} = I" if "pin_count i bp \<in> {None, Some 0}"
    using coherent_pinned [OF ok(2), of i] that by (auto simp: pin_count_def)
  then show ?thesis
    using unpin_page_spec [OF ok(1), of i d I] assms
    by (auto simp: wp_def pool_ok_def unpinned_def split: prod.splits sum.splits if_splits)
qed

lemma unpin_page_returns: "\<exists>r bp'. unpin_page i d bp = (Inr r, bp')"
  by (auto simp: unpin_page_def bindE_def gets_def ret_def upd_frame_def modify_def make_evictable_def remove_from_lru_def
      split: option.split)

lemma resolutions_ok:
  assumes "pool_ok I bp" "i \<in> I"
  shows "pool_ok I (snd (finalize_pending_mutation i lsn bp))" "pool_ok I (snd (resolve_pending_mutation i lsn bp))"
    "pool_ok I (snd (restore_page_lsn_after_undo i lsn bp))"
  using pending_resolution_spec [OF pool_okD [OF assms(1)] disjI1 [OF assms(2)], of lsn] assms(1)
  by (auto simp: wp_def pool_ok_def lsn_set_def edited_def split: prod.splits sum.splits)

section \<open>The file under a flush of everything\<close>

lemma keeps_disk_good:
  "keeps (\<lambda>bp. pm_good (bp_page_manager bp) \<and> bp_frames bp = frs) (count_stat g)"
  "keeps (\<lambda>bp. pm_good (bp_page_manager bp) \<and> bp_frames bp = frs) (on_disk pm_flush)"
  "page_ok p \<Longrightarrow> keeps (\<lambda>bp. pm_good (bp_page_manager bp) \<and> bp_frames bp = frs) (on_disk (write_page i p))"
  "keeps (\<lambda>bp. pm_good (bp_page_manager bp) \<and> bp_frames bp = frs) (require_wal_durable fr)"
  "keeps (\<lambda>bp. pm_good (bp_page_manager bp) \<and> bp_frames bp = frs) (require_mutations_finalized fr)"
  using pm_good_ops(6,7)
  by (auto simp: keeps_def count_stat_def modify_def on_disk_def zoom_def require_wal_durable_def Let_def bindE_def gets_def
      throw_def ret_def require_mutations_finalized_def require_def split: prod.split option.split) (metis snd_conv)+

lemma flush_frames_good:
  assumes "\<forall>f \<in> set fs. page_ok (fr_page (frs ! f))"
  shows "keeps (\<lambda>bp. pm_good (bp_page_manager bp) \<and> bp_frames bp = frs) (flush_frames fs)"
  using assms
proof (induction fs)
  case Nil
  show ?case by (simp add: keeps_pure)
next
  case (Cons f fs)
  let ?I = "\<lambda>bp. pm_good (bp_page_manager bp) \<and> bp_frames bp = frs"
  have "keeps ?I (bindE (if fr_occupied (frs ! f) \<and> fr_dirty (frs ! f) then
         bindE (require_mutations_finalized (frs ! f)) (\<lambda>_.
         bindE (require_wal_durable (frs ! f)) (\<lambda>_.
         bindE (on_disk (write_page (pg_id (fr_page (frs ! f))) (fr_page (frs ! f)))) (\<lambda>_.
         count_stat (\<lambda>st. st\<lparr>st_disk_writes := st_disk_writes st + 1\<rparr>))))
       else ret ()) (\<lambda>_. flush_frames fs))"
    using Cons by (intro keeps_bindE keeps_if keeps_pure keeps_disk_good) simp_all
  from keeps_wp [OF this] show ?case
    by (intro keepsI) (simp add: wp_bindE [where m = "gets g" for g] wp_gets split del: if_split cong: if_cong)
qed

lemma flush_all_pages_good:
  assumes "wf_pool bp" "pm_good (bp_page_manager bp)"
  shows "pm_good (bp_page_manager (snd (flush_all_pages bp)))"
proof -
  let ?I = "\<lambda>b. pm_good (bp_page_manager b) \<and> bp_frames b = bp_frames bp"
  have "keeps ?I (bindE (flush_frames [0..<length (bp_frames bp)]) (\<lambda>_. on_disk pm_flush))"
    using pool_invD(2) [OF assms(1)] by (intro keeps_bindE flush_frames_good keeps_disk_good) simp
  from keeps_wp [OF this, of bp] assms(2)
  have "wp flush_all_pages (\<lambda>_ b. pm_good (bp_page_manager b)) (\<lambda>_ b. pm_good (bp_page_manager b)) bp"
    unfolding flush_all_pages_def wp_bindE wp_gets wp_modify by (auto elim!: wp_mono)
  then show ?thesis by (rule wp_runD)
qed

section \<open>A small pool for the witnesses\<close>

definition one_page_pool :: pool where
  "one_page_pool = new_pool one_page_database 1 None"

lemma one_page_pool_ok: "pool_ok {} one_page_pool" "pool_view one_page_pool = [0 \<mapsto> new_page 0]"
  "find_frame 0 one_page_pool = None" "bp_page_manager one_page_pool = one_page_database" "bp_lru one_page_pool = []"
  "bp_free_frames one_page_pool = [0]" "length (bp_frames one_page_pool) = 1" "bp_page_table one_page_pool = []"
  using wf_pool_new [OF one_page_database_good(1)]
  by (simp_all add: pool_ok_def one_page_pool_def one_page_database) (simp_all add: new_pool_def find_frame_def)

text \<open>Fetching the page of the small database succeeds.\<close>

lemma one_page_fetch:
  obtains f bp where "fetch_page 0 one_page_pool = (Inr (Some f), bp)" "fetched {} 0 one_page_pool (Some f) bp"
    "find_frame 0 bp = Some f" "bp_frames bp ! f = pinned_frame 0 one_page_pool (new_page 0)"
    "fault_free (pm_file (bp_page_manager bp))" "pm_pages (bp_page_manager bp) 0 \<noteq> None"
proof -
  note ok = pool_okD [OF one_page_pool_ok(1)]
  have al: "is_page_allocated 0 one_page_database"
    using dom_pm_pages [of one_page_database] by (auto simp: one_page_database)
  have "\<exists>r bp. fetch_page 0 one_page_pool = (Inr r, bp) \<and> fetched {} 0 one_page_pool r bp"
    using fetch_page_spec [OF ok, of 0] al one_page_database_good(2)
    by (auto simp: wp_def one_page_pool_ok blocked_victim_def split: prod.splits sum.splits)
  then obtain r bp where r: "fetch_page 0 one_page_pool = (Inr r, bp)" "fetched {} 0 one_page_pool r bp" by blast
  moreover have "r \<noteq> None" using r(2) by (cases r) (auto simp: fetched_def one_page_pool_ok pin_count_def is_valid_def kInvalidValue_def)
  ultimately obtain f where f: "fetch_page 0 one_page_pool = (Inr (Some f), bp)" "fetched {} 0 one_page_pool (Some f) bp" by auto
  from f(2) have "fault_free (pm_file (bp_page_manager bp))" "dom (pm_pages (bp_page_manager bp)) = {0}"
    using one_page_database_good(2) by (simp_all add: fetched_def pool_kept_def one_page_pool_ok one_page_database)
  moreover from this(2) have "pm_pages (bp_page_manager bp) 0 \<noteq> None" by (metis domIff insertI1)
  ultimately show thesis using that [OF f] f(2) by (auto simp: fetched_def one_page_pool_ok)
qed

text \<open>The file a well-kept manager leaves opens as a manager with the same pages.\<close>

lemma pm_good_reopened:
  assumes "pm_good pm"
  shows "wf_pm (pm\<lparr>pm_file := \<lparr>contents = contents (pm_file pm), good = True, outcomes = []\<rparr>\<rparr>)"
    "pm_pages (pm\<lparr>pm_file := \<lparr>contents = contents (pm_file pm), good = True, outcomes = []\<rparr>\<rparr>) = pm_pages pm"
    "open_page_manager None (Some (contents (pm_file pm))) [] =
      (Inr (), pm\<lparr>pm_file := \<lparr>contents = contents (pm_file pm), good = True, outcomes = []\<rparr>\<rparr>)"
  using wf_pm_same_contents [of pm "\<lparr>contents = contents (pm_file pm), good = True, outcomes = []\<rparr>"] assms
  by (auto simp: pm_good_def open_synced)

lemma flush_page_clean:
  assumes "wf_pool bp" "(i, f) \<in> set (bp_page_table bp)" "\<not> fr_dirty (bp_frames bp ! f)"
    "pm_pages (bp_page_manager bp) i \<noteq> None" "fault_free (pm_file (bp_page_manager bp))"
  shows "wp (flush_page i) (\<lambda>r bp'. r \<and> pm_pages (bp_page_manager bp') i = Some (fr_page (bp_frames bp ! f))) (\<lambda>_ _. False) bp"
proof -
  note e = pool_inv_entry [OF assms(1,2)]
  let ?bp = "\<lambda>pm. bp\<lparr>bp_page_manager := pm\<rparr>"
  have fl: "wp pm_flush (\<lambda>_ pm'. pm_pages pm' i = Some p) (\<lambda>_ _. False) pm"
    if "wf_pm pm" "fault_free (pm_file pm)" "good (pm_file pm)" "pm_pages pm i = Some p" for pm p
    using pm_flush_spec [OF that(1)] by (rule wp_mono) (use that in auto)
  show ?thesis
    using e(7) assms(3)
    apply (simp add: flush_page_def wp_bindE wp_gets wp_if wp_ret)
    apply (rule wp_mono [OF write_back_spec [OF assms(1,2)]])
    using assms(4,5) fl
    by (auto simp: wp_count_stat wp_on_disk upd_frame_def wp_simps written_back_def)
qed

lemma reopened_one_page_database: "\<exists>pm. pm_good pm \<and> good (pm_file pm) \<and> pm_pages pm = [0 \<mapsto> new_page 0]"
proof -
  have g: "pm_good one_page_database" using one_page_database_good by (simp add: pm_good_def)
  note o = pm_good_reopened [OF g]
  from pm_reachable_good [OF pm_reachable.pm_reopen [OF one_page_database(1) o(3)]] o(2) show ?thesis
    by (auto simp: one_page_database)
qed

lemma flush_all_new_pool:
  assumes "pm_good pm" "good (pm_file pm)"
  shows "\<exists>bp. flush_all_pages (new_pool pm 1 wal) = (Inr (), bp)"
proof -
  have "wp pm_flush (\<lambda>_ _. True) (\<lambda>_ _. False) pm"
    using assms by (intro wp_mono [OF pm_flush_spec]) (auto simp: pm_good_def)
  then have "wp flush_all_pages (\<lambda>_ _. True) (\<lambda>_ _. False) (new_pool pm 1 wal)"
    by (simp add: flush_all_pages_def wp_simps wp_on_disk new_pool_def empty_frame_def)
  then show ?thesis by (auto simp: wp_def split: prod.splits sum.splits)
qed

text \<open>Two states of the small pool: the page changed and unpinned, and the page being changed under a pin.\<close>

definition edited_frame :: "uint32 \<Rightarrow> bool \<Rightarrow> uint32 \<Rightarrow> frame" where
  "edited_frame pins dirty pending =
     \<lparr>fr_page = (new_page 0)\<lparr>pg_payload := replicate kPagePayloadSize 1\<rparr>, fr_pin_count = pins, fr_dirty = dirty,
      fr_occupied = True, fr_pending_mutations = pending\<rparr>"

lemma pinned_edit:
  obtains bp f where "pool_ok {0} bp" "find_frame 0 bp = Some f" "bp_frames bp ! f = edited_frame 1 False n"
    "pm_pages (bp_page_manager bp) 0 = Some (new_page 0)" "fault_free (pm_file (bp_page_manager bp))"
proof -
  obtain f b where f: "fetched {} 0 one_page_pool (Some f) b" "find_frame 0 b = Some f"
    "bp_frames b ! f = pinned_frame 0 one_page_pool (new_page 0)" "fault_free (pm_file (bp_page_manager b))"
    "pm_pages (bp_page_manager b) 0 \<noteq> None"
    using one_page_fetch by metis
  then have ok: "wf_pool b" "coherent {} b" by (simp_all add: fetched_def pool_kept_def)
  note t = find_frame_entry [OF f(2)]
  let ?bp = "b\<lparr>bp_frames := (bp_frames b)[f := edited_frame 1 False n]\<rparr>"
  have "edited {0} 0 (fr_page (edited_frame 1 False n)) b ?bp"
    by (rule edit_frame_spec [OF ok t])
       (simp_all add: edited_frame_def f(3) pinned_frame_def one_page_pool_ok page_ok_def new_page_def)
  moreover have "pm_pages (bp_page_manager b) 0 = Some (new_page 0)"
    using coherent_clean [OF ok(2) t] f(3,5) by (simp add: pinned_frame_def one_page_pool_ok)
  ultimately show thesis
    using that [of ?bp f] f(2,4) pool_inv_entry(1) [OF ok(1) t] by (simp add: edited_def pool_ok_def find_frame_def)
qed

lemma dirty_page_written:
  "\<exists>bp. pool_ok {} bp \<and> pm_pages (bp_page_manager (snd (delete_page 0 bp))) 0 \<noteq> pm_pages (bp_page_manager bp) 0"
proof -
  obtain b f where b: "pool_ok {0} b" "find_frame 0 b = Some f" "bp_frames b ! f = edited_frame 1 False 0"
    "pm_pages (bp_page_manager b) 0 = Some (new_page 0)" "fault_free (pm_file (bp_page_manager b))"
    by (rule pinned_edit)
  obtain r bp where u: "unpin_page 0 True b = (Inr r, bp)" using unpin_page_returns [of 0 True b] by blast
  have "pin_count 0 b = Some 1" using b(2,3) by (simp add: pin_count_def edited_frame_def)
  with wp_InrD [OF unpin_page_spec [OF pool_okD(1) [OF b(1)], of 0 True "{0}"] u] b(1)
  have ok: "pool_ok {} bp" "bp_page_manager bp = bp_page_manager b" "pool_view bp = pool_view b" "find_frame 0 bp = Some f"
      "bp_frames bp ! f = edited_frame 0 True 0"
    using b(2,3) by (auto simp: unpinned_def pool_ok_def edited_frame_def find_frame_def)
  have "write_allowed bp (bp_frames bp ! f)" by (simp add: ok(5) write_allowed_def edited_frame_def new_page_def)
  then obtain bp' where d: "wf_pool bp'" "pool_kept {} bp bp'" "find_frame 0 bp' = None" "snd (delete_page 0 bp) = bp'"
    using delete_page_spec [OF pool_okD [OF ok(1)], of 0] b(4,5) ok
    by (auto simp: wp_def pin_count_def edited_frame_def split: prod.splits sum.splits)
  have "pool_view b 0 = Some (fr_page (edited_frame 1 False 0))" using b(2-4) by (simp add: pool_view_def)
  then have "pool_view bp' 0 = Some (fr_page (edited_frame 1 False 0))" using d(2) ok(3) by (simp add: pool_kept_def)
  then have "pm_pages (bp_page_manager bp') 0 = Some (fr_page (edited_frame 1 False 0))" using d(3) by (auto simp: pool_view_def split: if_splits)
  moreover have "fr_page (edited_frame 1 False 0) \<noteq> new_page 0"
    by (simp add: edited_frame_def new_page_def kPagePayloadSize_def kPageSize_def kPageHeaderSize_def)
  ultimately show ?thesis using ok d(4) b(4) by (intro exI [of _ bp]) simp
qed

lemma pending_edit:
  obtains bp f where "wf_pool bp" "find_frame 0 bp = Some f" "\<not> fr_dirty (bp_frames bp ! f)"
    "pm_pages (bp_page_manager bp) 0 \<noteq> None" "fault_free (pm_file (bp_page_manager bp))"
    "pending_mutation_count 0 bp = Some 1" "pg_payload (page_at f bp) = replicate kPagePayloadSize 1"
  by (rule pinned_edit [of 1]) (auto simp: pool_ok_def edited_frame_def pending_mutation_count_def page_at_def intro: that)

section \<open>Properties\<close>



text \<open>C14: Caching is transparent. Fetching a page changes no page as seen through the pool, whatever it
  evicts on the way; the frame it returns holds the current version of the page and is pinned. It returns
  null only for an invalid id, a saturated pin count, or a pool all of whose frames are pinned.\<close>

theorem fetch_is_transparent:
  assumes "pool_ok I bp" "fetch_page i bp = (r, bp')"
  shows "pool_view bp' = pool_view bp \<and>
    (\<forall>f. r = Inr (Some f) \<longrightarrow> pool_view bp i = Some (page_at f bp') \<and> find_frame i bp' = Some f \<and> pin_count i bp' \<noteq> Some 0) \<and>
    (r = Inr None \<longrightarrow> \<not> is_valid i \<or> pin_count i bp = Some 0xFFFFFFFF \<or>
       (\<forall>f < capacity bp. fr_pin_count (bp_frames bp ! f) \<noteq> 0))"
proof -
  note ok = pool_okD [OF assms(1)]
  have all: "fr_pin_count (bp_frames bp ! f) \<noteq> 0" if "bp_free_frames bp = []" "bp_lru bp = []" "f < capacity bp" for f
    using pool_inv_parts(1) [OF ok(1)] pool_invD(8) [OF ok(1)] that by (auto simp: capacity_def)
  have view: "pool_view bp' = pool_view bp" using pool_ops_kept(1) [OF assms(1), of i] assms(2) by (simp add: pool_kept_def)
  show ?thesis
  proof (cases r)
    case (Inl e)
    with view show ?thesis by simp
  next
    case (Inr x)
    with wp_InrD [OF fetch_page_spec [OF ok]] assms(2) have "fetched I i bp x bp'" by simp
    with view Inr all show ?thesis by (auto simp: fetched_def pin_count_def split: option.splits)
  qed
qed

theorem fetch_is_transparent_witness:
  "\<exists>f bp'. fetch_page 0 one_page_pool = (Inr (Some f), bp') \<and> page_at f bp' = new_page 0"
proof -
  obtain f bp where f: "fetch_page 0 one_page_pool = (Inr (Some f), bp)" using one_page_fetch by blast
  from fetch_is_transparent [OF one_page_pool_ok(1) f] f show ?thesis by (auto simp: one_page_pool_ok)
qed

text \<open>C15: Changing a page through the pool. After a fetch, a change of the payload and an unpin as dirty, the page
  has the new payload as seen through the pool and every other page is as before; the invariant holds
  again with nobody changing a page.\<close>

theorem update_through_pool:
  assumes "pool_ok {} bp" "fetch_page i bp = (Inr (Some f), bp1)" "length bs = kPagePayloadSize"
    "set_payload f bs bp1 = (Inr (), bp2)" "unpin_page i True bp2 = (Inr r, bp3)"
  shows "pool_ok {} bp3 \<and> r \<and> pool_view bp3 = (pool_view bp)(i \<mapsto> (the (pool_view bp i))\<lparr>pg_payload := bs\<rparr>)"
proof -
  have "fetched {} i bp (Some f) bp1" using wp_InrD [OF fetch_page_spec [OF pool_okD [OF assms(1)], of i] assms(2)] .
  then obtain p where p: "pool_view bp i = Some p" "fr_page (bp_frames bp1 ! f) = p"
    and b1: "wf_pool bp1" "coherent {} bp1" "pool_view bp1 = pool_view bp" "find_frame i bp1 = Some f" "fr_pin_count (bp_frames bp1 ! f) \<noteq> 0"
    by (auto simp: fetched_def pool_kept_def page_at_def)
  let ?fr = "(bp_frames bp1 ! f)\<lparr>fr_page := p\<lparr>pg_payload := bs\<rparr>\<rparr>"
  have b2: "bp2 = bp1\<lparr>bp_frames := (bp_frames bp1)[f := ?fr]\<rparr>"
    using assms(4) p by (simp add: set_payload_def upd_frame_def modify_def)
  note f = find_frame_entry [OF b1(4)]
  note e = pool_inv_entry [OF b1(1) f]
  have ed: "edited {i} i (p\<lparr>pg_payload := bs\<rparr>) bp1 bp2"
    using edit_frame_spec [OF b1(1,2) f, of ?fr "{i}"] e(2-4) b1(5) assms(3) p(2) by (simp add: b2 page_ok_def)
  have "pm_pages (bp_page_manager bp1) i \<noteq> None" using p(1) b1(3) by (metis option.discI pool_view_def)
  with ed have ok2: "pool_ok {i} bp2" "pool_view bp2 = (pool_view bp)(i \<mapsto> p\<lparr>pg_payload := bs\<rparr>)"
    using b1(3) by (auto simp: edited_def pool_ok_def)
  have "pin_count i bp2 \<notin> {None, Some 0}" using b1(4,5) e(1) by (simp add: b2 pin_count_def find_frame_def)
  then show ?thesis
    using unpin_page_ok [OF ok2(1), of True i] wp_InrD [OF unpin_page_spec [OF pool_okD(1) [OF ok2(1)], of i True "{}"] assms(5)]
      assms(5) ok2(2) p(1) by simp
qed

theorem update_through_pool_witness:
  "\<exists>f bp1 bp2 bp3. fetch_page 0 one_page_pool = (Inr (Some f), bp1) \<and>
     set_payload f (replicate kPagePayloadSize 1) bp1 = (Inr (), bp2) \<and> unpin_page 0 True bp2 = (Inr True, bp3) \<and>
     map_option pg_payload (pool_view bp3 0) = Some (replicate kPagePayloadSize 1)"
proof -
  obtain f bp1 where f: "fetch_page 0 one_page_pool = (Inr (Some f), bp1)" using one_page_fetch by blast
  obtain bp2 where s: "set_payload f (replicate kPagePayloadSize 1) bp1 = (Inr (), bp2)"
    by (simp add: set_payload_def upd_frame_def modify_def)
  obtain r bp3 where u: "unpin_page 0 True bp2 = (Inr r, bp3)" using unpin_page_returns [of 0 True bp2] by blast
  from update_through_pool [OF one_page_pool_ok(1) f _ s u] f s u show ?thesis by (simp add: one_page_pool_ok)
qed



text \<open>C17: Pinned pages stay put. Fetching, deleting or unpinning another page moves no pinned page to another
  frame and changes neither its contents nor its pin count, so a \<^verbatim>\<open>Page*\<close> stays valid until its holder
  unpins it.\<close>

theorem pinned_page_stays:
  assumes "pool_ok I bp" "find_frame j bp = Some f" "fr_pin_count (bp_frames bp ! f) \<noteq> 0" "j \<noteq> i"
    "bp' \<in> {snd (fetch_page i bp), snd (delete_page i bp), snd (unpin_page i d bp)}"
  shows "find_frame j bp' = Some f \<and> bp_frames bp' ! f = bp_frames bp ! f"
proof -
  note ok = pool_okD [OF assms(1)]
  have mono: "pins_kept {} bp b \<Longrightarrow> pins_kept {i} bp b" for b by (erule pins_kept_mono) simp
  have "pins_kept {i} bp (snd (fetch_page i bp)) \<and> wf_pool (snd (fetch_page i bp))"
    using fetch_page_spec [OF ok, of i] mono
    by (simp add: wp_def fetched_def split: prod.splits sum.splits option.splits)
  moreover have "pins_kept {i} bp (snd (delete_page i bp)) \<and> wf_pool (snd (delete_page i bp))"
    using delete_page_spec [OF ok, of i] mono by (auto simp: wp_def split: prod.splits sum.splits)
  moreover have "pins_kept {i} bp (snd (unpin_page i d bp)) \<and> wf_pool (snd (unpin_page i d bp))"
    using unpin_page_spec [OF ok(1), of i d I] ok(1)
    by (auto simp: wp_def unpinned_def split: prod.splits sum.splits if_splits)
  ultimately have k: "pins_kept {i} bp bp'" "wf_pool bp'" using assms(5) by auto
  have "(j, f) \<in> set (bp_page_table bp') \<and> bp_frames bp' ! f = bp_frames bp ! f"
    using pins_keptD [OF k(1) find_frame_entry [OF assms(2)]] assms(3,4) by simp
  with pool_inv_entry(7) [OF k(2)] show ?thesis by blast
qed

theorem pinned_page_stays_witness:
  "\<exists>bp f. pool_ok {} bp \<and> find_frame 0 bp = Some f \<and> find_frame 0 (snd (fetch_page 1 bp)) = Some f"
proof -
  obtain f bp where f: "fetched {} 0 one_page_pool (Some f) bp" "find_frame 0 bp = Some f" using one_page_fetch by blast
  then have ok: "pool_ok {} bp" "fr_pin_count (bp_frames bp ! f) \<noteq> 0" by (auto simp: fetched_def pool_ok_def pool_kept_def)
  from pinned_page_stays [OF ok(1) f(2) ok(2), of 1 "snd (fetch_page 1 bp)"] ok(1) f(2) show ?thesis by auto
qed

text \<open>C18: Flushing everything. When a flush of all pages returns, no frame is dirty and the disk holds exactly the
  pages as seen through the pool before the flush. Without file faults, opening the file again succeeds
  and a new pool over it, of any size, shows the same pages.\<close>

theorem flush_all_reaches_disk:
  assumes "pool_ok {} bp" "flush_all_pages bp = (Inr (), bp')"
  shows "pm_pages (bp_page_manager bp') = pool_view bp \<and> (\<forall>i. is_dirty i bp' \<noteq> Some True) \<and>
    (pm_good (bp_page_manager bp) \<longrightarrow>
       (\<exists>pm. open_page_manager None (Some (contents (pm_file (bp_page_manager bp')))) [] = (Inr (), pm) \<and>
          pool_ok {} (new_pool pm cap wal) \<and> pool_view (new_pool pm cap wal) = pool_view bp))"
proof -
  note f = wp_InrD [OF flush_all_pages_spec [OF pool_okD [OF assms(1)]] assms(2)]
  then have pages: "pm_pages (bp_page_manager bp') = pool_view bp" by (auto simp: pool_kept_def)
  have "pm_good (bp_page_manager bp')" if "pm_good (bp_page_manager bp)"
    using flush_all_pages_good [OF pool_okD(1) [OF assms(1)] that] assms(2) by simp
  then show ?thesis
    using f pages open_synced [of "bp_page_manager bp'"] pm_good_reopened [of "bp_page_manager bp'"]
    by (auto simp: pool_ok_def wf_pool_new)
qed

theorem flush_all_reaches_disk_witness:
  "\<exists>bp bp' pm. pool_ok {} bp \<and> flush_all_pages bp = (Inr (), bp') \<and>
     open_page_manager None (Some (contents (pm_file (bp_page_manager bp')))) [] = (Inr (), pm) \<and>
     pool_view (new_pool pm 3 None) = [0 \<mapsto> new_page 0]"
proof -
  obtain pm where g: "pm_good pm" "good (pm_file pm)" "pm_pages pm = [0 \<mapsto> new_page 0]"
    using reopened_one_page_database by blast
  then have ok: "pool_ok {} (new_pool pm 1 None)" by (simp add: pool_ok_def wf_pool_new pm_good_def)
  obtain bp' where f: "flush_all_pages (new_pool pm 1 None) = (Inr (), bp')" using flush_all_new_pool [OF g(1,2)] by blast
  have "pm_good (bp_page_manager (new_pool pm 1 None))" using g(1) by (simp add: new_pool_def)
  with flush_all_reaches_disk [OF ok f, of 3 None] ok f g(3) show ?thesis by auto
qed

text \<open>C19: A gap in the write-ahead rule. \<^verbatim>\<open>flush_page\<close> checks for pending mutations and for log durability only
  when the frame is dirty, but a frame is marked dirty only when it is unpinned. So flushing a page
  whose holder has changed it in place, before it is unpinned, writes the change to disk whatever
  its pending count and page LSN are.\<close>

theorem flush_page_skips_gates:
  assumes "wf_pool bp" "find_frame i bp = Some f" "\<not> fr_dirty (bp_frames bp ! f)"
    "pm_pages (bp_page_manager bp) i \<noteq> None" "fault_free (pm_file (bp_page_manager bp))"
  shows "\<exists>bp'. flush_page i bp = (Inr True, bp') \<and> pm_pages (bp_page_manager bp') i = Some (page_at f bp)"
proof -
  note f = find_frame_entry [OF assms(2)]
  have "wp (flush_page i) (\<lambda>r bp'. r \<and> pm_pages (bp_page_manager bp') i = Some (page_at f bp)) (\<lambda>_ _. False) bp"
    using assms flush_page_clean [OF assms(1) f assms(3-5)] by (simp add: page_at_def)
  then show ?thesis by (auto simp: wp_def split: prod.splits sum.splits)
qed

theorem flush_page_skips_gates_witness:
  "\<exists>bp bp'. wf_pool bp \<and> pending_mutation_count 0 bp = Some 1 \<and> flush_page 0 bp = (Inr True, bp') \<and>
     map_option pg_payload (pm_pages (bp_page_manager bp') 0) = Some (replicate kPagePayloadSize 1)"
proof -
  obtain bp f where bp: "wf_pool bp" "find_frame 0 bp = Some f" "\<not> fr_dirty (bp_frames bp ! f)"
    "pm_pages (bp_page_manager bp) 0 \<noteq> None" "fault_free (pm_file (bp_page_manager bp))"
    "pending_mutation_count 0 bp = Some 1" "pg_payload (page_at f bp) = replicate kPagePayloadSize 1"
    by (rule pending_edit)
  from flush_page_skips_gates [OF bp(1-5)] bp show ?thesis by auto
qed

end
