(* ===== verification/PageCache.thy ===== *)
theory PageCache
  imports PoolProperties
begin

text \<open>
  The buffer pool as its clients see it: a locale for a cache of pages with pins, the client programs that
  every caller repeats (read a page, change a page), and the interpretation on the modelled pool.
\<close>

section \<open>The interface\<close>

text \<open>
  \<open>view s\<close> is the current version of every page, \<open>pins s i\<close> the number of pins of page \<open>i\<close> and \<open>at s i f\<close> says
  that \<open>i\<close> is pinned at the address \<open>f\<close>. \<open>ok I s\<close> is the invariant while the pages \<open>I\<close> are being changed.
\<close>

definition moved :: "('s \<Rightarrow> PageId \<Rightarrow> FrameId \<Rightarrow> bool) \<Rightarrow> ('s \<Rightarrow> PageId \<Rightarrow> nat) \<Rightarrow> 's \<Rightarrow> 's \<Rightarrow> bool" where
  "moved at pins s s' \<longleftrightarrow> (\<forall>j g. at s j g \<and> pins s' j \<noteq> 0 \<longrightarrow> at s' j g)"

locale page_cache =
  fixes view :: "'s \<Rightarrow> PageId \<rightharpoonup> page"
    and pins :: "'s \<Rightarrow> PageId \<Rightarrow> nat"
    and at :: "'s \<Rightarrow> PageId \<Rightarrow> FrameId \<Rightarrow> bool"
    and page :: "FrameId \<Rightarrow> 's \<Rightarrow> page"
    and ok :: "PageId set \<Rightarrow> 's \<Rightarrow> bool"
    and fetch :: "PageId \<Rightarrow> ('s, FrameId option) op"
    and unpin :: "PageId \<Rightarrow> bool \<Rightarrow> ('s, bool) op"
    and write_payload :: "FrameId \<Rightarrow> byte list \<Rightarrow> ('s, unit) op"
    and write_lsn :: "FrameId \<Rightarrow> uint64 \<Rightarrow> ('s, unit) op"
    and dirty :: "'s \<Rightarrow> PageId \<Rightarrow> bool"
    and restore_lsn :: "PageId \<Rightarrow> uint64 \<Rightarrow> ('s, unit) op"
  assumes fetch_law: "ok I s \<Longrightarrow> wp (fetch i)
      (\<lambda>r s'. ok I s' \<and> view s' = view s \<and> moved at pins s s' \<and>
         (case r of None \<Rightarrow> pins s' = pins s
          | Some f \<Rightarrow> pins s' = (pins s)(i := Suc (pins s i)) \<and> at s' i f \<and> view s i \<noteq> None))
      (\<lambda>_ s'. ok I s' \<and> view s' = view s \<and> pins s' = pins s \<and> moved at pins s s') s"
    and unpin_law: "ok I s \<Longrightarrow> pins s i \<noteq> 0 \<Longrightarrow> d \<or> i \<notin> I \<Longrightarrow> wp (unpin i d)
      (\<lambda>r s'. r \<and> ok (I - {i}) s' \<and> view s' = view s \<and> pins s' = (pins s)(i := pins s i - 1) \<and> moved at pins s s' \<and> (d \<longrightarrow> dirty s' i))
      (\<lambda>_ _. False) s"
    and at_view: "ok I s \<Longrightarrow> at s i f \<Longrightarrow> view s i = Some p \<Longrightarrow> page f s = p"
    and at_pins: "at s i f \<Longrightarrow> pins s i \<noteq> 0"
    and view_page: "ok I s \<Longrightarrow> view s i = Some p \<Longrightarrow> page_ok p \<and> pg_id p = i"
    and write_law: "ok I s \<Longrightarrow> at s i f \<Longrightarrow> view s i = Some p \<Longrightarrow> length bs = kPagePayloadSize \<Longrightarrow>
      wp (write_payload f bs)
        (\<lambda>_ s'. ok (insert i I) s' \<and> view s' = (view s)(i \<mapsto> p\<lparr>pg_payload := bs\<rparr>) \<and> pins s' = pins s \<and> at s' = at s)
        (\<lambda>_ _. False) s"
    and lsn_law: "ok I s \<Longrightarrow> at s i f \<Longrightarrow> view s i = Some p \<Longrightarrow>
      wp (write_lsn f lsn)
        (\<lambda>_ s'. ok (insert i I) s' \<and> view s' = (view s)(i \<mapsto> p\<lparr>pg_lsn := lsn\<rparr>) \<and> pins s' = pins s \<and> at s' = at s)
        (\<lambda>_ _. False) s"
    and restore_law: "ok I s \<Longrightarrow> i \<in> I \<or> dirty s i \<Longrightarrow> view s i = Some p \<Longrightarrow>
      wp (restore_lsn i lsn)
        (\<lambda>_ s'. ok I s' \<and> view s' = (view s)(i \<mapsto> p\<lparr>pg_lsn := lsn\<rparr>) \<and> pins s' = pins s \<and> at s' = at s)
        (\<lambda>_ _. False) s"
begin

text \<open>The state after a successful fetch, and the two ways to give the page back.\<close>

definition fetched_at :: "PageId set \<Rightarrow> PageId \<Rightarrow> FrameId \<Rightarrow> 's \<Rightarrow> 's \<Rightarrow> bool" where
  "fetched_at I i f s s1 \<longleftrightarrow> ok I s1 \<and> view s1 = view s \<and> moved at pins s s1 \<and>
     pins s1 = (pins s)(i := Suc (pins s i)) \<and> at s1 i f \<and> view s i = Some (page f s1)"

lemma fetch_then:
  assumes "ok I s"
    and "\<And>f s1. fetched_at I i f s s1 \<Longrightarrow> wp (m (Some f)) Q E s1"
    and "\<And>s1. ok I s1 \<Longrightarrow> view s1 = view s \<Longrightarrow> pins s1 = pins s \<Longrightarrow> moved at pins s s1 \<Longrightarrow> wp (m None) Q E s1"
    and "\<And>e s1. ok I s1 \<Longrightarrow> view s1 = view s \<Longrightarrow> pins s1 = pins s \<Longrightarrow> moved at pins s s1 \<Longrightarrow> E e s1"
  shows "wp (bindE (fetch i) m) Q E s"
  unfolding wp_bindE
proof (rule wp_mono [OF fetch_law [OF assms(1)]], goal_cases)
  case (1 r s1)
  show ?case
  proof (cases r)
    case None
    with 1 show ?thesis using assms(3) by simp
  next
    case (Some f)
    with 1 have "fetched_at I i f s s1" using at_view [of I s1 i f] by (auto simp: fetched_at_def)
    with Some show ?thesis using assms(2) by simp
  qed
next
  case (2 x s1)
  then show ?case using assms(4) by simp
qed

lemma moved_trans_pinned:
  "moved at pins s s1 \<Longrightarrow> moved at pins s1 s2 \<Longrightarrow> (\<And>j. pins s2 j \<noteq> 0 \<Longrightarrow> pins s1 j \<noteq> 0) \<Longrightarrow> moved at pins s s2"
  unfolding moved_def by blast

lemma release_clean:
  assumes "fetched_at I i f s s1" "i \<notin> I"
  shows "wp (unpin i False) (\<lambda>r s'. r \<and> ok I s' \<and> view s' = view s \<and> pins s' = pins s \<and> moved at pins s s') (\<lambda>_ _. False) s1"
proof -
  have s1: "ok I s1" "view s1 = view s" "moved at pins s s1" "pins s1 = (pins s)(i := Suc (pins s i))"
    using assms(1) by (simp_all add: fetched_at_def)
  have "I - {i} = I" using assms(2) by simp
  then show ?thesis
    using s1 assms(2) by (intro wp_mono [OF unpin_law [OF s1(1), of i False]]) (auto intro: moved_trans_pinned [OF s1(3)] split: if_splits)
qed

lemma release_dirty:
  assumes "fetched_at I i f s s1" "ok (insert i I) s2" "pins s2 = pins s1" "at s2 = at s1"
  shows "wp (unpin i True) (\<lambda>r s'. r \<and> ok (I - {i}) s' \<and> view s' = view s2 \<and> pins s' = pins s \<and> moved at pins s s' \<and> dirty s' i) (\<lambda>_ _. False) s2"
proof -
  have s1: "moved at pins s s2" "pins s2 = (pins s)(i := Suc (pins s i))"
    using assms by (simp_all add: fetched_at_def moved_def)
  show ?thesis
    using s1 by (intro wp_mono [OF unpin_law [OF assms(2), of i True]]) (auto intro: moved_trans_pinned [OF s1(1)] split: if_splits)
qed

text \<open>Reading a page: fetch it, look at it, and unpin it clean.\<close>

lemma read_program:
  assumes "ok I s" "i \<notin> I"
  shows "wp (bindE (fetch i) (\<lambda>r. case r of None \<Rightarrow> throw e
      | Some f \<Rightarrow> bindE (gets (page f)) (\<lambda>p. bindE (unpin i False) (\<lambda>b. bindE (require b e') (\<lambda>_. ret (h p))))))
    (\<lambda>x s'. ok I s' \<and> view s' = view s \<and> pins s' = pins s \<and> moved at pins s s' \<and> (\<exists>p. view s i = Some p \<and> x = h p))
    (\<lambda>_ s'. ok I s' \<and> view s' = view s \<and> pins s' = pins s \<and> moved at pins s s') s"
proof (rule fetch_then [OF assms(1)], goal_cases)
  case (1 f s1)
  then have "view s i = Some (page f s1)" by (simp add: fetched_at_def)
  then show ?case using release_clean [OF 1 assms(2)] by (auto simp: wp_simps elim!: wp_mono)
qed (simp_all add: wp_simps)

text \<open>Changing a page: fetch it, run a change of the page, and unpin it dirty.\<close>

definition changes :: "PageId set \<Rightarrow> PageId \<Rightarrow> (page \<Rightarrow> page) \<Rightarrow> FrameId \<Rightarrow> ('s, unit) op \<Rightarrow> bool" where
  "changes I i h f m \<longleftrightarrow> (\<forall>s p. ok I s \<and> at s i f \<and> view s i = Some p \<longrightarrow>
     wp m (\<lambda>_ s'. ok (insert i I) s' \<and> view s' = (view s)(i \<mapsto> h p) \<and> pins s' = pins s \<and> at s' = at s) (\<lambda>_ _. False) s)"

lemma changesD:
  "changes I i h f m \<Longrightarrow> ok I s \<Longrightarrow> at s i f \<Longrightarrow> view s i = Some p \<Longrightarrow>
     wp m (\<lambda>_ s'. ok (insert i I) s' \<and> view s' = (view s)(i \<mapsto> h p) \<and> pins s' = pins s \<and> at s' = at s) (\<lambda>_ _. False) s"
  by (simp add: changes_def)

lemma changes_payload: "length bs = kPagePayloadSize \<Longrightarrow> changes I i (\<lambda>p. p\<lparr>pg_payload := bs\<rparr>) f (write_payload f bs)"
  using write_law by (simp add: changes_def)

lemma changes_lsn: "changes I i (\<lambda>p. p\<lparr>pg_lsn := lsn\<rparr>) f (write_lsn f lsn)"
  using lsn_law by (simp add: changes_def)

lemma changes_bind:
  assumes "changes I i h f m" "changes (insert i I) i h' f m'"
  shows "changes I i (\<lambda>p. h' (h p)) f (bindE m (\<lambda>_. m'))"
  unfolding changes_def
proof (intro allI impI)
  fix s p assume "ok I s \<and> at s i f \<and> view s i = Some p"
  then have a: "ok I s" "at s i f" "view s i = Some p" by simp_all
  show "wp (bindE m (\<lambda>_. m')) (\<lambda>_ s'. ok (insert i I) s' \<and> view s' = (view s)(i \<mapsto> h' (h p)) \<and> pins s' = pins s \<and> at s' = at s) (\<lambda>_ _. False) s"
    unfolding wp_bindE
  proof (rule wp_mono [OF changesD [OF assms(1) a]], goal_cases)
    case (1 u s1)
    then have "at s1 i f" "view s1 i = Some (h p)" using a(2) by simp_all
    with 1 show ?case by (auto intro: wp_mono [OF changesD [OF assms(2)]])
  qed simp
qed

lemma change_then_release:
  assumes "fetched_at I i f s s1" "changes I i h f m"
  shows "wp (bindE m (\<lambda>_. bindE (unpin i True) (\<lambda>b. bindE (require b e') (\<lambda>_. ret x))))
    (\<lambda>r s'. r = x \<and> ok (I - {i}) s' \<and> pins s' = pins s \<and> moved at pins s s' \<and> dirty s' i \<and>
       (\<exists>p. view s i = Some p \<and> view s' = (view s)(i \<mapsto> h p))) (\<lambda>_ _. False) s1"
proof -
  have s1: "ok I s1" "at s1 i f" "view s1 i = Some (page f s1)" "view s1 = view s" using assms(1) by (simp_all add: fetched_at_def)
  show ?thesis
    unfolding wp_bindE
  proof (rule wp_mono [OF changesD [OF assms(2) s1(1-3)]], goal_cases)
    case (1 u s2)
    then show ?case
      using s1 by (intro wp_mono [OF release_dirty [OF assms(1), of s2]]) (auto simp: wp_simps)
  qed simp
qed

end

section \<open>The pool is a page cache\<close>

text \<open>The invariant of the pool for clients that log every change at once: no mutation is left pending.\<close>

definition no_pending :: "pool \<Rightarrow> bool" where
  "no_pending bp \<longleftrightarrow> (\<forall>fr \<in> set (bp_frames bp). fr_pending_mutations fr = 0)"

definition cache_ok :: "PageId set \<Rightarrow> pool \<Rightarrow> bool" where
  "cache_ok I bp \<longleftrightarrow> pool_ok I bp \<and> no_pending bp"

definition pool_pins :: "pool \<Rightarrow> PageId \<Rightarrow> nat" where
  "pool_pins bp i = (case pin_count i bp of None \<Rightarrow> 0 | Some n \<Rightarrow> unat n)"

definition pinned_at :: "pool \<Rightarrow> PageId \<Rightarrow> FrameId \<Rightarrow> bool" where
  "pinned_at bp i f \<longleftrightarrow> find_frame i bp = Some f \<and> fr_pin_count (bp_frames bp ! f) \<noteq> 0"

lemma cache_okD: "cache_ok I bp \<Longrightarrow> pool_ok I bp" "cache_ok I bp \<Longrightarrow> wf_pool bp" "cache_ok I bp \<Longrightarrow> coherent I bp" "cache_ok I bp \<Longrightarrow> no_pending bp"
  by (simp_all add: cache_ok_def pool_ok_def)

lemma new_pool_cache: "wf_pm pm \<Longrightarrow> cache_ok {} (new_pool pm cap wal)"
  by (simp add: cache_ok_def pool_ok_def wf_pool_new) (simp add: no_pending_def new_pool_def empty_frame_def)

lemma no_pending_list_update: "no_pending bp \<Longrightarrow> fr_pending_mutations fr = 0 \<Longrightarrow> no_pending (bp\<lparr>bp_frames := (bp_frames bp)[f := fr]\<rparr>)"
  using set_update_subset_insert [of "bp_frames bp" f fr] by (auto simp: no_pending_def)

lemma no_pending_upd:
  assumes "no_pending bp" "fr_pending_mutations (g (bp_frames bp ! f)) = fr_pending_mutations (bp_frames bp ! f)"
  shows "no_pending (bp\<lparr>bp_frames := (bp_frames bp)[f := g (bp_frames bp ! f)]\<rparr>)"
proof (cases "f < length (bp_frames bp)")
  case True
  then have "fr_pending_mutations (bp_frames bp ! f) = 0" using assms(1) by (simp add: no_pending_def)
  with assms show ?thesis by (simp add: no_pending_list_update)
qed (use assms(1) in \<open>simp add: no_pending_def list_update_beyond\<close>)

lemma no_pending_keeps [keeps_intros]:
  "keeps no_pending (count_stat g)" "keeps no_pending (on_disk m)" "keeps no_pending (remove_from_lru f)"
  "(\<And>fr. fr_pending_mutations (k fr) = fr_pending_mutations fr) \<Longrightarrow> keeps no_pending (upd_frame f k)"
  by (auto simp: keeps_def no_pending_upd upd_frame_def count_stat_def modify_def on_disk_def zoom_def remove_from_lru_def
      split: prod.split) (auto simp: no_pending_def)

lemma no_pending_reset: "no_pending bp \<Longrightarrow> no_pending (reset_frame f bp)" "no_pending (push_free f bp) = no_pending bp"
  using no_pending_list_update [of bp empty_frame f] by (simp_all add: reset_frame_def empty_frame_def push_free_def no_pending_def)

lemma no_pending_modify:
  "(\<And>bp. no_pending bp \<Longrightarrow> no_pending (h bp)) \<Longrightarrow> keeps no_pending (modify h)"
  by (simp add: keeps_def modify_def)

lemma keeps_case_option [keeps_intros]: "keeps I m \<Longrightarrow> (\<And>x. keeps I (g x)) \<Longrightarrow> keeps I (case r of None \<Rightarrow> m | Some x \<Rightarrow> g x)"
  by (cases r) simp_all

lemma keeps_on_error [keeps_intros]:
  assumes "keeps I m" "\<And>s. I s \<Longrightarrow> I (h s)"
  shows "keeps I (on_error m h)"
  unfolding keeps_def
proof (intro allI impI)
  fix s assume "I s"
  with assms(1) have "I (snd (m s))" by (simp add: keeps_def)
  with assms(2) show "I (snd (on_error m h s))" by (auto simp: on_error_def split: prod.split sum.split)
qed

lemma no_pending_write_dirty_frame [keeps_intros]: "keeps no_pending (write_dirty_frame f)"
  unfolding write_dirty_frame_def require_mutations_finalized_def require_wal_durable_def Let_def
  by (intro keeps_intros) simp_all

lemma no_pending_acquire_frame [keeps_intros]: "keeps no_pending acquire_frame"
  unfolding acquire_frame_def Let_def
  by (intro keeps_intros no_pending_modify) (simp_all add: no_pending_reset, simp_all add: no_pending_def erase_entry_def)

lemma no_pending_fetch_page: "keeps no_pending (fetch_page i)"
  unfolding fetch_page_def
  by (intro keeps_intros no_pending_modify) (simp_all add: no_pending_reset, simp_all add: no_pending_def)

lemma no_pending_unpin_page: "keeps no_pending (unpin_page i d)"
  unfolding unpin_page_def make_evictable_def
  by (intro keeps_intros no_pending_modify) (simp_all add: no_pending_def)

lemma no_pending_write: "keeps no_pending (set_payload f bs)" "keeps no_pending (set_page_lsn f lsn)"
  unfolding set_payload_def set_page_lsn_def by (intro keeps_intros, simp)+

lemma pinned_at_pins: "pinned_at bp i f \<Longrightarrow> pool_pins bp i \<noteq> 0"
  by (simp add: pinned_at_def pool_pins_def pin_count_def unat_eq_0)

lemma pool_pins_pinned: "pool_pins bp i \<noteq> 0 \<longleftrightarrow> (\<exists>f. pinned_at bp i f)"
  by (auto simp: pinned_at_def pool_pins_def pin_count_def unat_eq_0 unat_gt_0 split: option.splits)

lemma pins_kept_pinned:
  assumes "pins_kept J bp bp'" "wf_pool bp" "wf_pool bp'" "j \<notin> J"
  shows "pinned_at bp j g \<Longrightarrow> pinned_at bp' j g" "pool_pins bp' j = pool_pins bp j"
proof -
  have step: "pinned_at b' j g \<and> pool_pins b' j = pool_pins b j" if "pins_kept J b b'" "wf_pool b'" "pinned_at b j g" for b b' g
  proof -
    have g: "find_frame j b = Some g" "fr_pin_count (bp_frames b ! g) \<noteq> 0" using that(3) by (simp_all add: pinned_at_def)
    have "(j, g) \<in> set (bp_page_table b')" "bp_frames b' ! g = bp_frames b ! g"
      using pins_keptD [OF that(1) find_frame_entry [OF g(1)] assms(4) g(2)] by simp_all
    with g pool_inv_entry(7) [OF that(2)] show ?thesis by (simp add: pinned_at_def pool_pins_def pin_count_def)
  qed
  from step [OF assms(1,3)] show "pinned_at bp j g \<Longrightarrow> pinned_at bp' j g" by blast
  from step [OF assms(1,3)] step [OF pins_kept_sym [OF assms(1)] assms(2)]
  show "pool_pins bp' j = pool_pins bp j" by (metis pool_pins_pinned)
qed

lemma pool_fetch_law:
  assumes "cache_ok I bp"
  shows "wp (fetch_page i)
      (\<lambda>r bp'. cache_ok I bp' \<and> pool_view bp' = pool_view bp \<and> moved pinned_at pool_pins bp bp' \<and>
         (case r of None \<Rightarrow> pool_pins bp' = pool_pins bp
          | Some f \<Rightarrow> pool_pins bp' = (pool_pins bp)(i := Suc (pool_pins bp i)) \<and> pinned_at bp' i f \<and> pool_view bp i \<noteq> None))
      (\<lambda>_ bp'. cache_ok I bp' \<and> pool_view bp' = pool_view bp \<and> pool_pins bp' = pool_pins bp \<and> moved pinned_at pool_pins bp bp') bp"
proof (rule wp_mono [OF wp_conj [OF fetch_page_spec [OF cache_okD(2,3) [OF assms]] keeps_wp [OF no_pending_fetch_page cache_okD(4) [OF assms]]]], goal_cases)
  case (1 r bp')
  then have f: "fetched I i bp r bp'" "no_pending bp'" by simp_all
  then have ok: "cache_ok I bp'" "wf_pool bp'" and view: "pool_view bp' = pool_view bp"
    by (simp_all add: fetched_def cache_ok_def pool_ok_def pool_kept_def)
  show ?case
  proof (cases r)
    case None
    then have "pins_kept {} bp bp'" using f(1) by (simp add: fetched_def)
    note k = pins_kept_pinned [OF this cache_okD(2) [OF assms] ok(2)]
    with None ok view show ?thesis by (auto simp: moved_def)
  next
    case (Some g)
    then have p: "pins_kept {i} bp bp'" "find_frame i bp' = Some g" "fr_pin_count (bp_frames bp' ! g) \<noteq> 0"
      and v: "pool_view bp i \<noteq> None" and fr: "\<exists>p. bp_frames bp' ! g = pinned_frame i bp p"
      using f(1) by (auto simp: fetched_def)
    note k = pins_kept_pinned [OF p(1) cache_okD(2) [OF assms] ok(2)]
    have at: "pinned_at bp' i g" using p by (simp add: pinned_at_def)
    have "pool_pins bp' i = Suc (pool_pins bp i)"
    proof (cases "find_frame i bp")
      case None
      with fr p(2) show ?thesis by (auto simp: pool_pins_def pin_count_def pinned_frame_def)
    next
      case (Some h)
      with fr p(2,3) word_less_add_one(2) [of "fr_pin_count (bp_frames bp ! h)"] show ?thesis
        by (auto simp: pool_pins_def pin_count_def pinned_frame_def)
    qed
    then have "pool_pins bp' = (pool_pins bp)(i := Suc (pool_pins bp i))" using k(2) by (auto simp: fun_eq_iff)
    moreover have "pinned_at bp' j h" if "pinned_at bp j h" for j h
    proof (cases "j = i")
      case True
      have "pinned_at bp i h \<Longrightarrow> h = g" using Some f(1) by (auto simp: pinned_at_def fetched_def)
      with True that at show ?thesis by simp
    next
      case False
      with k(1) that show ?thesis by simp
    qed
    ultimately show ?thesis using Some ok view v at by (simp add: moved_def)
  qed
next
  case (2 e bp')
  then have ok: "cache_ok I bp'" "wf_pool bp'" and view: "pool_view bp' = pool_view bp" and p: "pins_kept {} bp bp'"
    by (auto simp: cache_ok_def pool_ok_def pool_kept_def)
  from pins_kept_pinned [OF p cache_okD(2) [OF assms] ok(2)] ok view show ?case by (auto simp: moved_def)
qed

lemma pool_unpin_law:
  assumes "cache_ok I bp" "pool_pins bp i \<noteq> 0" "d \<or> i \<notin> I"
  shows "wp (unpin_page i d)
      (\<lambda>r bp'. r \<and> cache_ok (I - {i}) bp' \<and> pool_view bp' = pool_view bp \<and>
         pool_pins bp' = (pool_pins bp)(i := pool_pins bp i - 1) \<and> moved pinned_at pool_pins bp bp' \<and> (d \<longrightarrow> is_dirty i bp' = Some True))
      (\<lambda>_ _. False) bp"
proof (rule wp_mono [OF wp_conj [OF unpin_page_spec [OF cache_okD(2) [OF assms(1)], where I = I] keeps_wp [OF no_pending_unpin_page cache_okD(4) [OF assms(1)]]]], goal_cases)
  case (1 r bp')
  obtain f where f: "find_frame i bp = Some f" "fr_pin_count (bp_frames bp ! f) \<noteq> 0"
    using assms(2) unfolding pool_pins_pinned pinned_at_def by blast
  then have "pin_count i bp \<notin> {None, Some 0}" by (simp add: pin_count_def)
  with 1 have u: "r" "unpinned I i d bp bp'" "no_pending bp'" by (auto split: if_splits)
  then have w: "wf_pool bp'" "pins_kept {i} bp bp'" "pool_view bp' = pool_view bp" "bp_page_table bp' = bp_page_table bp"
    and c: "coherent (I - {i}) bp'" using cache_okD(3) [OF assms(1)] assms(3) by (simp_all add: unpinned_def)
  have fr: "find_frame i bp' = Some f" "fr_pin_count (bp_frames bp' ! f) = fr_pin_count (bp_frames bp ! f) - 1"
    using u(2) f(1) w(4) by (auto simp: unpinned_def find_frame_def)
  note k = pins_kept_pinned [OF w(2) cache_okD(2) [OF assms(1)] w(1)]
  have "pool_pins bp' i = pool_pins bp i - 1"
    using f fr unat_minus_one [of "fr_pin_count (bp_frames bp ! f)"] by (simp add: pool_pins_def pin_count_def)
  then have p: "pool_pins bp' = (pool_pins bp)(i := pool_pins bp i - 1)" using k(2) by (auto simp: fun_eq_iff)
  have "pinned_at bp' j g" if "pinned_at bp j g" "pool_pins bp' j \<noteq> 0" for j g
  proof (cases "j = i")
    case True
    with that f fr show ?thesis by (auto simp: pinned_at_def pool_pins_def pin_count_def unat_eq_0)
  next
    case False
    with k(1) that show ?thesis by simp
  qed
  moreover have "is_dirty i bp' = Some True" if "d" using u(2) f(1) fr(1) that by (auto simp: unpinned_def is_dirty_def)
  ultimately show ?case using u w c p by (simp add: moved_def cache_ok_def pool_ok_def)
qed simp

lemma pool_edit_law:
  assumes "cache_ok I bp" "pinned_at bp i f" "pool_view bp i = Some p" "pg_id p' = i" "page_ok p'"
    "bp' = bp\<lparr>bp_frames := (bp_frames bp)[f := (bp_frames bp ! f)\<lparr>fr_page := p'\<rparr>]\<rparr>"
  shows "cache_ok (insert i I) bp' \<and> pool_view bp' = (pool_view bp)(i \<mapsto> p') \<and> pool_pins bp' = pool_pins bp \<and> pinned_at bp' = pinned_at bp"
proof -
  note ok = cache_okD [OF assms(1)]
  have f: "find_frame i bp = Some f" "fr_pin_count (bp_frames bp ! f) \<noteq> 0" using assms(2) by (simp_all add: pinned_at_def)
  note t = find_frame_entry [OF f(1)]
  note e = pool_inv_entry [OF ok(2) t]
  let ?fr = "(bp_frames bp ! f)\<lparr>fr_page := p'\<rparr>"
  have "edited (insert i I) i (fr_page ?fr) bp bp'"
    unfolding assms(6) using e(2) f(2) assms(4,5) by (intro edit_frame_spec [OF ok(2,3) t]) auto
  then have ed: "pool_ok (insert i I) bp'" "pool_view bp' = (pool_view bp)(i \<mapsto> p')"
    using assms(3) by (auto simp: edited_def pool_ok_def pool_view_def split: if_splits)
  have "no_pending bp'" using ok(4) no_pending_upd [OF ok(4), of "\<lambda>fr. fr\<lparr>fr_page := p'\<rparr>" f] by (simp add: assms(6))
  moreover have "fr_pin_count (bp_frames bp' ! g) = fr_pin_count (bp_frames bp ! g)" for g
    using e(1) by (cases "g = f") (simp_all add: assms(6))
  moreover have "find_frame j bp' = find_frame j bp" for j by (simp add: assms(6) find_frame_def)
  ultimately show ?thesis
    using ed by (simp add: cache_ok_def pool_pins_def pin_count_def pinned_at_def fun_eq_iff)
qed

lemma pool_view_page:
  assumes "wf_pool bp" "pool_view bp i = Some p"
  shows "page_ok p \<and> pg_id p = i"
proof (cases "find_frame i bp")
  case None
  with assms(2) have "pm_pages (bp_page_manager bp) i = Some p" by (simp add: pool_view_def split: if_splits)
  from pm_pages_page [OF pool_invD(1) [OF assms(1)] this] show ?thesis by auto
next
  case (Some f)
  with assms(2) have "p = fr_page (bp_frames bp ! f)" by (simp add: pool_view_def split: if_splits)
  with pool_inv_entry(3,4) [OF assms(1) find_frame_entry [OF Some]] show ?thesis by simp
qed

lemma pinned_at_view: "pinned_at bp i f \<Longrightarrow> pool_view bp i = Some p \<Longrightarrow> page_at f bp = p"
  by (auto simp: pinned_at_def pool_view_def page_at_def split: if_splits)

lemma pool_restore_law:
  assumes "cache_ok I bp" "i \<in> I \<or> is_dirty i bp = Some True" "pool_view bp i = Some p"
  shows "wp (restore_page_lsn_after_undo i lsn)
    (\<lambda>_ bp'. cache_ok I bp' \<and> pool_view bp' = (pool_view bp)(i \<mapsto> p\<lparr>pg_lsn := lsn\<rparr>) \<and> pool_pins bp' = pool_pins bp \<and> pinned_at bp' = pinned_at bp)
    (\<lambda>_ _. False) bp"
proof -
  note ok = cache_okD [OF assms(1)]
  obtain f where f: "find_frame i bp = Some f"
    using assms(2) coherent_pinned [OF ok(3), of i] by (auto simp: is_dirty_def)
  note e = pool_inv_entry [OF ok(2) find_frame_entry [OF f]]
  let ?fr = "(bp_frames bp ! f)\<lparr>fr_page := (fr_page (bp_frames bp ! f))\<lparr>pg_lsn := lsn\<rparr>\<rparr>"
  let ?bp = "bp\<lparr>bp_frames := (bp_frames bp)[f := ?fr]\<rparr>"
  have p: "fr_page (bp_frames bp ! f) = p" using assms(3) f by (simp add: pool_view_def split: if_splits)
  have pend: "fr_pending_mutations (bp_frames bp ! f) = 0" using ok(4) e(1) by (simp add: no_pending_def)
  have "edited I i (p\<lparr>pg_lsn := lsn\<rparr>) bp ?bp"
    using set_lsn_edited [OF ok(2,3) f, where fr' = ?fr and lsn = lsn and n = 0] assms(2) f p pend by (auto simp: is_dirty_def)
  then have "pool_ok I ?bp" "pool_view ?bp = (pool_view bp)(i \<mapsto> p\<lparr>pg_lsn := lsn\<rparr>)"
    using assms(3) by (auto simp: edited_def pool_ok_def pool_view_def split: if_splits)
  moreover have "no_pending ?bp" using no_pending_upd [OF ok(4), of "\<lambda>fr. fr\<lparr>fr_page := (fr_page fr)\<lparr>pg_lsn := lsn\<rparr>\<rparr>" f] by simp
  moreover have pins: "fr_pin_count (bp_frames ?bp ! g) = fr_pin_count (bp_frames bp ! g)" "find_frame j ?bp = find_frame j bp" for g j
    using e(1) by (cases "g = f") (simp_all add: find_frame_def)
  have "pool_pins ?bp = pool_pins bp" "pinned_at ?bp = pinned_at bp"
    unfolding pool_pins_def pin_count_def pinned_at_def fun_eq_iff pins by simp_all
  ultimately show ?thesis
    using f pend by (simp add: restore_page_lsn_after_undo_def upd_frame_def wp_simps cache_ok_def)
qed

interpretation pc: page_cache pool_view pool_pins pinned_at page_at cache_ok fetch_page unpin_page set_payload set_page_lsn
  "\<lambda>bp i. is_dirty i bp = Some True" restore_page_lsn_after_undo
proof (unfold_locales, goal_cases)
  case (1 I s i)
  then show ?case by (rule pool_fetch_law)
next
  case (2 I s i d)
  then show ?case by (rule pool_unpin_law)
next
  case (3 I s i f p)
  then show ?case using pinned_at_view by blast
next
  case (4 s i f)
  then show ?case by (rule pinned_at_pins)
next
  case (5 I s i p)
  then show ?case using pool_view_page cache_okD(2) by blast
next
  case (6 I s i f p bs)
  have "page_ok p \<and> pg_id p = i" by (rule pool_view_page [OF cache_okD(2) [OF 6(1)] 6(3)])
  moreover have "page_at f s = p" by (rule pinned_at_view [OF 6(2,3)])
  ultimately show ?case
    using pool_edit_law [OF 6(1-3), of "p\<lparr>pg_payload := bs\<rparr>"] 6(4)
    by (simp add: set_payload_def upd_frame_def wp_simps page_at_def page_ok_def)
next
  case (7 I s i f p lsn)
  have "page_ok p \<and> pg_id p = i" by (rule pool_view_page [OF cache_okD(2) [OF 7(1)] 7(3)])
  moreover have "page_at f s = p" by (rule pinned_at_view [OF 7(2,3)])
  ultimately show ?case
    using pool_edit_law [OF 7(1-3), of "p\<lparr>pg_lsn := lsn\<rparr>"]
    by (simp add: set_page_lsn_def upd_frame_def wp_simps page_at_def page_ok_def)
next
  case (8 I s i p lsn)
  then show ?case by (rule pool_restore_law)
qed

section \<open>The durability provider is left alone\<close>

abbreviation provider :: "uint64 option \<Rightarrow> pool \<Rightarrow> bool" where
  "provider d bp \<equiv> bp_wal_durability bp = d"

lemma provider_keeps [keeps_intros]:
  "keeps (provider d) (count_stat g)" "keeps (provider d) (on_disk m)" "keeps (provider d) (remove_from_lru f)"
  "keeps (provider d) (upd_frame f k)"
  by (auto simp: keeps_def upd_frame_def count_stat_def modify_def on_disk_def zoom_def remove_from_lru_def split: prod.split)

lemma provider_modify: "(\<And>bp. bp_wal_durability (h bp) = bp_wal_durability bp) \<Longrightarrow> keeps (provider d) (modify h)"
  by (simp add: keeps_def modify_def)

lemma provider_write_dirty_frame [keeps_intros]: "keeps (provider d) (write_dirty_frame f)"
  unfolding write_dirty_frame_def require_mutations_finalized_def require_wal_durable_def Let_def
  by (intro keeps_intros)

lemma provider_acquire_frame [keeps_intros]: "keeps (provider d) acquire_frame"
  unfolding acquire_frame_def Let_def by (intro keeps_intros provider_modify) (simp_all add: erase_entry_def reset_frame_def)

lemma provider_ops [keeps_intros]:
  "keeps (provider d) (fetch_page i)" "keeps (provider d) (unpin_page i b)" "keeps (provider d) (set_payload f bs)"
  "keeps (provider d) (set_page_lsn f lsn)" "keeps (provider d) (restore_page_lsn_after_undo i lsn)"
  unfolding fetch_page_def unpin_page_def make_evictable_def set_payload_def set_page_lsn_def restore_page_lsn_after_undo_def
  by (intro keeps_intros provider_modify; simp add: push_free_def reset_frame_def)+

end
