(* ===== verification/Residents.thy ===== *)
theory Residents
  imports PageCache
begin

text \<open>
  Which pages a pool caches and how many pages its file has: two invariants of the pool's operations that the clients of the
  pool need when they allocate or release pages.
\<close>

section \<open>Cached pages\<close>

text \<open>\<open>residents A bp\<close>: only pages of \<open>A\<close> are cached.\<close>

definition residents :: "PageId set \<Rightarrow> pool \<Rightarrow> bool" where
  "residents A bp \<longleftrightarrow> fst ` set (bp_page_table bp) \<subseteq> A"

lemma residents_simps [simp]:
  "residents A (bp\<lparr>bp_page_manager := pm\<rparr>) = residents A bp" "residents A (bp\<lparr>bp_frames := fs\<rparr>) = residents A bp"
  "residents A (bp\<lparr>bp_stats := st\<rparr>) = residents A bp" "residents A (bp\<lparr>bp_lru := l, bp_lru_positions := q\<rparr>) = residents A bp"
  "residents A (bp\<lparr>bp_free_frames := ff\<rparr>) = residents A bp" "residents A (reset_frame f bp) = residents A bp"
  "residents A (push_free f bp) = residents A bp"
  "i \<in> A \<Longrightarrow> residents A (bp\<lparr>bp_page_table := (i, f) # bp_page_table bp\<rparr>) = residents A bp"
  by (auto simp: residents_def reset_frame_def push_free_def)

lemma residents_erase: "residents A bp \<Longrightarrow> residents A (erase_entry i bp)"
  by (auto simp: residents_def erase_entry_def)

lemma residents_modify: "(\<And>bp. residents A bp \<Longrightarrow> residents A (h bp)) \<Longrightarrow> keeps (residents A) (modify h)"
  by (simp add: keeps_def modify_def)

lemma residents_keeps [keeps_intros]:
  "keeps (residents A) (count_stat g)" "keeps (residents A) (on_disk m)" "keeps (residents A) (remove_from_lru f)"
  "keeps (residents A) (upd_frame f k)"
  by (auto simp: keeps_def upd_frame_def count_stat_def modify_def on_disk_def zoom_def remove_from_lru_def residents_def split: prod.split)

lemma residents_write_dirty_frame [keeps_intros]: "keeps (residents A) (write_dirty_frame f)"
  unfolding write_dirty_frame_def require_mutations_finalized_def require_wal_durable_def Let_def
  by (intro keeps_intros)

lemma residents_acquire_frame [keeps_intros]: "keeps (residents A) acquire_frame"
  unfolding acquire_frame_def Let_def by (intro keeps_intros residents_modify) (simp_all add: residents_erase)

lemma residents_fetch_page:
  assumes "i \<in> A"
  shows "keeps (residents A) (fetch_page i)"
  unfolding fetch_page_def by (intro keeps_intros residents_modify) (simp_all add: assms)

lemma residents_ops [keeps_intros]:
  "keeps (residents A) (unpin_page i b)" "keeps (residents A) (set_payload f bs)" "keeps (residents A) (set_page_lsn f lsn)"
  unfolding unpin_page_def make_evictable_def set_payload_def set_page_lsn_def
  by (intro keeps_intros residents_modify; simp add: residents_def)+

lemma residents_delete_page: "keeps (residents A) (delete_page i)"
  unfolding delete_page_def by (intro keeps_intros residents_modify; simp add: residents_erase)

lemma resident_entry: "residents A bp \<Longrightarrow> (i, f) \<in> set (bp_page_table bp) \<Longrightarrow> i \<in> A"
  by (force simp: residents_def)

text \<open>Reading and writing pages does not change the number of pages in the file.\<close>

definition counts :: "uint64 \<Rightarrow> pool \<Rightarrow> bool" where
  "counts n bp \<longleftrightarrow> pm_page_count (bp_page_manager bp) = n"

lemma counts_simps [simp]:
  "counts n (bp\<lparr>bp_frames := fs\<rparr>) = counts n bp" "counts n (bp\<lparr>bp_page_table := t\<rparr>) = counts n bp"
  "counts n (bp\<lparr>bp_lru := l, bp_lru_positions := q\<rparr>) = counts n bp" "counts n (bp\<lparr>bp_free_frames := ff\<rparr>) = counts n bp"
  "counts n (reset_frame f bp) = counts n bp" "counts n (push_free f bp) = counts n bp" "counts n (erase_entry i bp) = counts n bp"
  by (simp_all add: counts_def reset_frame_def push_free_def erase_entry_def)

lemma counts_modify: "(\<And>bp. counts n (h bp) = counts n bp) \<Longrightarrow> keeps (counts n) (modify h)"
  by (simp add: keeps_def modify_def)

lemma counts_keeps [keeps_intros]:
  "keeps (counts n) (count_stat g)" "keeps (counts n) (remove_from_lru f)" "keeps (counts n) (upd_frame f k)"
  "keeps (counts n) (on_disk (read_page i))" "keeps (counts n) (on_disk (write_page i p))"
  by (auto simp: keeps_def upd_frame_def count_stat_def modify_def on_disk_def zoom_def remove_from_lru_def counts_def read_page_def write_page_def
      bindE_def validate_logically_allocated_def validate_allocated_def gets_def require_def ret_def throw_def lift_result_def pm_io_def ensure_stream_good_def
      split: prod.splits sum.splits)

lemma counts_write_dirty_frame [keeps_intros]: "keeps (counts n) (write_dirty_frame f)"
  unfolding write_dirty_frame_def require_mutations_finalized_def require_wal_durable_def Let_def
  by (intro keeps_intros)

lemma counts_acquire_frame [keeps_intros]: "keeps (counts n) acquire_frame"
  unfolding acquire_frame_def Let_def by (intro keeps_intros counts_modify) simp_all

lemma counts_ops [keeps_intros]:
  "keeps (counts n) (fetch_page i)" "keeps (counts n) (unpin_page i b)" "keeps (counts n) (set_payload f bs)" "keeps (counts n) (set_page_lsn f lsn)"
  unfolding fetch_page_def unpin_page_def make_evictable_def set_payload_def set_page_lsn_def
  by (intro keeps_intros counts_modify; simp)+

section \<open>Another page manager under the pool\<close>

text \<open>Replacing the page manager under a pool that caches none of the pages it newly shows.\<close>

lemma cache_ok_disk:
  assumes "cache_ok {} bp" "wf_pm pm" "\<And>i f. (i, f) \<in> set (bp_page_table bp) \<Longrightarrow> pm_pages pm i \<in> {None, pm_pages (bp_page_manager bp) i}"
  shows "cache_ok {} (bp\<lparr>bp_page_manager := pm\<rparr>)"
proof -
  note c = cache_okD [OF assms(1)]
  have "wf_pool (bp\<lparr>bp_page_manager := pm\<rparr>)" using c(2) assms(2) by (simp add: pool_inv_def)
  moreover have "coherent {} (bp\<lparr>bp_page_manager := pm\<rparr>)"
  proof (intro coherentI)
    fix i f assume "(i, f) \<in> set (bp_page_table (bp\<lparr>bp_page_manager := pm\<rparr>))" "i \<notin> {}" "\<not> fr_dirty (bp_frames (bp\<lparr>bp_page_manager := pm\<rparr>) ! f)"
    with coherent_clean [OF c(3), of i f] assms(3) [of i f]
    show "pm_pages (bp_page_manager (bp\<lparr>bp_page_manager := pm\<rparr>)) i \<in> {None, Some (fr_page (bp_frames (bp\<lparr>bp_page_manager := pm\<rparr>) ! f))}" by auto
  qed simp
  ultimately show ?thesis using c(4) by (simp add: cache_ok_def pool_ok_def no_pending_def)
qed

lemma pool_pins_disk [simp]: "pool_pins (bp\<lparr>bp_page_manager := pm\<rparr>) = pool_pins bp"
  by (simp add: pool_pins_def pin_count_def find_frame_def fun_eq_iff)

text \<open>The pages after the page manager has changed one entry for a page that is not cached.\<close>

lemma pool_view_disk:
  assumes "pm_pages pm = (pm_pages (bp_page_manager bp))(i := v)" "find_frame i bp = None"
  shows "pool_view (bp\<lparr>bp_page_manager := pm\<rparr>) = (pool_view bp)(i := v)"
  using assms by (auto simp: pool_view_def find_frame_def fun_eq_iff split: option.split)

end
