(* ===== verification/Undisturbed.thy ===== *)
theory Undisturbed
  imports Residents
begin

text \<open>
  A pool that can always make room for a page: the device has no faults, the log is durable up to the sequence number of
  every page, and no page is pinned. Fetching a page that exists then returns it.
\<close>

section \<open>Room for a page\<close>

definition allocated :: "pool \<Rightarrow> PageId set" where
  "allocated bp = dom (pm_pages (bp_page_manager bp))"

definition undisturbed :: "uint64 \<Rightarrow> pool \<Rightarrow> bool" where
  "undisturbed d bp \<longleftrightarrow> fault_free (pm_file (bp_page_manager bp)) \<and> bp_wal_durability bp = Some d \<and> bp_frames bp \<noteq> []"

text \<open>\<open>pool_ready d bp\<close>: the log is durable up to \<open>d\<close>, no page is newer than that, and every frame can be used.\<close>

definition pool_ready :: "uint64 \<Rightarrow> pool \<Rightarrow> bool" where
  "pool_ready d bp \<longleftrightarrow> cache_ok {} bp \<and> residents (allocated bp) bp \<and> (\<forall>i. pool_pins bp i = 0) \<and> undisturbed d bp \<and>
     (\<forall>i p. pool_view bp i = Some p \<longrightarrow> pg_lsn p \<le> d)"

lemma allocated_view: "allocated bp = dom (pool_view bp)"
  by (auto simp: allocated_def pool_view_def dom_def split: option.splits)

text \<open>A fetch of a page that is not allocated throws and changes no page; otherwise only allocated pages are cached afterwards.\<close>

lemma fetch_residents:
  assumes "residents (allocated bp) bp"
  shows "wp (fetch_page i) (\<lambda>_. residents (allocated bp)) (\<lambda>_. residents (allocated bp)) bp"
proof (cases "i \<in> allocated bp")
  case True
  then show ?thesis using keeps_wp [OF residents_fetch_page assms] by simp
next
  case False
  then have "\<not> is_page_allocated i (bp_page_manager bp)" by (simp add: allocated_def dom_pm_pages)
  with assms show ?thesis by (simp add: fetch_page_def wp_simps count_stat_def)
qed

lemma undisturbed_kept: "undisturbed d bp \<Longrightarrow> pool_kept I bp bp' \<Longrightarrow> undisturbed d bp'"
  by (auto simp: undisturbed_def pool_kept_def simp flip: length_greater_0_conv)

lemma undisturbed_frames [simp]: "undisturbed d (bp\<lparr>bp_frames := (bp_frames bp)[f := fr]\<rparr>) = undisturbed d bp"
  by (simp add: undisturbed_def)

lemma undisturbed_modify: "(\<And>bp. undisturbed d bp \<Longrightarrow> undisturbed d (h bp)) \<Longrightarrow> keeps (undisturbed d) (modify h)"
  by (simp add: keeps_def modify_def)

lemma undisturbed_keeps [keeps_intros]:
  "keeps (undisturbed d) (count_stat g)" "keeps (undisturbed d) (remove_from_lru f)" "keeps (undisturbed d) (upd_frame f k)"
  by (auto simp: keeps_def upd_frame_def count_stat_def modify_def remove_from_lru_def) (auto simp: undisturbed_def)

lemma undisturbed_ops [keeps_intros]:
  "keeps (undisturbed d) (unpin_page i b)" "keeps (undisturbed d) (set_payload f bs)" "keeps (undisturbed d) (set_page_lsn f lsn)"
  unfolding unpin_page_def make_evictable_def set_payload_def set_page_lsn_def
  by (intro keeps_intros undisturbed_modify; simp add: undisturbed_def)+

text \<open>A frame of an allocated page may be written.\<close>

lemma pool_ready_write_allowed:
  assumes "pool_ready d bp" "(i, f) \<in> set (bp_page_table bp)"
  shows "write_allowed bp (bp_frames bp ! f)" "pm_pages (bp_page_manager bp) i \<noteq> None"
proof -
  have r: "cache_ok {} bp" "residents (allocated bp) bp" "bp_wal_durability bp = Some d"
    using assms(1) by (simp_all add: pool_ready_def undisturbed_def)
  note e = pool_inv_entry [OF cache_okD(2) [OF r(1)] assms(2)]
  from resident_entry [OF r(2) assms(2)] show some: "pm_pages (bp_page_manager bp) i \<noteq> None" by (auto simp: allocated_def)
  then have "pool_view bp i = Some (fr_page (bp_frames bp ! f))" using e(7) by (auto simp: pool_view_def)
  then have "pg_lsn (fr_page (bp_frames bp ! f)) \<le> d" using assms(1) by (auto simp: pool_ready_def)
  with r(3) cache_okD(4) [OF r(1)] e(1) show "write_allowed bp (bp_frames bp ! f)" by (simp add: write_allowed_def no_pending_def)
qed

lemma fetch_pool_ready:
  assumes "pool_ready d bp" "pool_view bp i \<noteq> None"
  shows "wp (fetch_page i) (\<lambda>r bp. r \<noteq> None \<and> undisturbed d bp) (\<lambda>_ _. False) bp"
proof -
  have r: "cache_ok {} bp" "\<forall>i. pool_pins bp i = 0" "undisturbed d bp" using assms(1) by (simp_all add: pool_ready_def)
  note w = cache_okD [OF r(1)]
  have al: "is_page_allocated i (bp_page_manager bp)"
    using assms(2) dom_pm_pages [of "bp_page_manager bp"] by (auto simp: pool_view_def split: if_splits)
  then have valid: "is_valid i" by (simp add: is_page_allocated_def)
  have lru: "f \<in> set (bp_lru bp) \<longleftrightarrow> f \<in> snd ` set (bp_page_table bp)" for f
  proof -
    have "fr_pin_count (bp_frames bp ! f) = 0" if "(j, f) \<in> set (bp_page_table bp)" for j
      using r(2) [rule_format, of j] pool_inv_entry(7) [OF w(2) that] by (simp add: pool_pins_def pin_count_def unat_eq_0)
    then show ?thesis using w(2) by (auto simp: pool_inv_def)
  qed
  have room: "bp_free_frames bp \<noteq> [] \<or> bp_lru bp \<noteq> []"
    using r(3) pool_inv_parts(1) [OF w(2)] lru [of 0] by (force simp: undisturbed_def)
  have "\<not> blocked_victim bp"
  proof
    assume b: "blocked_victim bp"
    then have "hd (bp_lru bp) \<in> snd ` set (bp_page_table bp)" using lru [of "hd (bp_lru bp)"] by (simp add: blocked_victim_def)
    then obtain j where j: "(j, hd (bp_lru bp)) \<in> set (bp_page_table bp)" by force
    with b pool_ready_write_allowed [OF assms(1) j] pool_inv_entry(3) [OF w(2) j] r(3) show False
      by (simp add: blocked_victim_def Let_def undisturbed_def)
  qed
  moreover have "pin_count i bp \<noteq> Some 0xFFFFFFFF" using r(2) [rule_format, of i] by (auto simp: pool_pins_def)
  ultimately show ?thesis
    using al valid room r(3) undisturbed_kept [OF r(3)]
    by (intro wp_mono [OF fetch_page_spec [OF w(2,3)]]) (auto simp: fetched_def undisturbed_def split: option.splits)
qed

end
