(* ===== verification/Replay.thy ===== *)
theory Replay
  imports RecoveryAnalysis Undisturbed
begin

text \<open>
  The replay context (\<^verbatim>\<open>src/src/recovery/replay_context.cpp\<close>): the operations recovery applies to pages, each
  of them without writing to the log, and what they do to the pages a client sees.

  The context refers to a page manager and to a pool over it; the state holds the pool with its page manager.
\<close>

section \<open>State\<close>

record replay =
  rc_pool :: pool
  rc_active :: bool
  rc_undone_lsns :: "uint64 set"
  rc_reconstructed_pages :: "uint64 set"

definition new_replay :: "pool \<Rightarrow> replay" where
  "new_replay bp = \<lparr>rc_pool = bp, rc_active = True, rc_undone_lsns = {}, rc_reconstructed_pages = {}\<rparr>"

definition close_replay :: "replay \<Rightarrow> replay" where
  "close_replay rc = rc\<lparr>rc_active := False\<rparr>"

definition in_pool :: "(pool, 'a) op \<Rightarrow> (replay, 'a) op" where
  "in_pool = zoom rc_pool (\<lambda>bp rc. rc\<lparr>rc_pool := bp\<rparr>)"

abbreviation rc_pages :: "replay \<Rightarrow> page_manager" where
  "rc_pages rc \<equiv> bp_page_manager (rc_pool rc)"

section \<open>Operations\<close>

text \<open>The second half of the redo of an allocation: the page exists in the file and is activated if necessary.\<close>

definition activate_for_redo :: "PageId \<Rightarrow> (replay, unit) op" where
  "activate_for_redo i =
     bindE (in_pool (on_disk (validate_physical_page_for_recovery i))) (\<lambda>_.
     bindE (gets (\<lambda>rc. is_page_allocated i (rc_pages rc))) (\<lambda>allocated.
     if \<not> allocated then in_pool (on_disk (activate_reserved_page i)) else ret ()))"

definition redo_page_allocate :: "PageId \<Rightarrow> (replay, bool) op" where
  "redo_page_allocate i =
     bindE (gets rc_active) (\<lambda>active.
     bindE (require active (LogicError Replay_inactive)) (\<lambda>_.
     bindE (require (is_valid i) (StorageError Invalid_recovery_allocation_id)) (\<lambda>_.
     bindE (gets (\<lambda>rc. pm_page_count (rc_pages rc))) (\<lambda>count.
     bindE (if i = count then
         bindE (gets (\<lambda>rc. contains i (rc_pool rc))) (\<lambda>resident.
         bindE (require (\<not> resident) (LogicError Materialize_resident)) (\<lambda>_.
         bindE (in_pool (on_disk (materialize_page_for_recovery i))) (\<lambda>_.
         ret True)))
       else bindE (require (\<not> i > count) (StorageError Recovery_allocation_gap)) (\<lambda>_. ret False)) (\<lambda>materialized.
     bindE (activate_for_redo i) (\<lambda>_.
     ret materialized))))))"

definition redo_physical_mutation :: "uint64 \<Rightarrow> physical_mutation \<Rightarrow> (replay, bool) op" where
  "redo_physical_mutation lsn m =
     bindE (gets rc_active) (\<lambda>active.
     bindE (require active (LogicError Replay_inactive)) (\<lambda>_.
     bindE (require (lsn \<noteq> 0 \<and> is_valid (mu_page_id m) \<and> mu_kind m = PayloadWrite \<and>
         length (mu_after_image m) = kPagePayloadSize \<and> length (mu_before_image m) = kPagePayloadSize)
       (InvalidArgument Invalid_recovery_mutation)) (\<lambda>_.
     in_pool
       (bindE (fetch_page (mu_page_id m)) (\<lambda>r.
        case r of
          None \<Rightarrow> throw (RuntimeError Cannot_pin_recovery_page)
        | Some f \<Rightarrow>
            bindE (gets (page_at f)) (\<lambda>p.
            if pg_lsn p \<ge> lsn then
              bindE (unpin_page (mu_page_id m) False) (\<lambda>unpinned.
              bindE (require unpinned (RuntimeError Cannot_unpin_skipped_page)) (\<lambda>_.
              ret False))
            else
              bindE (bindE (set_payload f (mu_after_image m)) (\<lambda>_. set_page_lsn f lsn)) (\<lambda>_.
              bindE (unpin_page (mu_page_id m) True) (\<lambda>unpinned.
              bindE (require unpinned (RuntimeError Cannot_unpin_recovery_page)) (\<lambda>_.
              ret True)))))))))"

definition undo_physical_mutation :: "uint64 \<Rightarrow> uint64 \<Rightarrow> physical_mutation \<Rightarrow> (replay, bool) op" where
  "undo_physical_mutation lsn restored_lsn m =
     bindE (gets rc_active) (\<lambda>active.
     bindE (require active (LogicError Undo_inactive)) (\<lambda>_.
     bindE (require (lsn \<noteq> 0 \<and> is_valid (mu_page_id m) \<and> mu_kind m = PayloadWrite \<and>
         length (mu_before_image m) = kPagePayloadSize) (InvalidArgument Invalid_undo_mutation)) (\<lambda>_.
     bindE (gets (\<lambda>rc. lsn \<in> rc_undone_lsns rc)) (\<lambda>seen.
     if seen then ret False
     else
       bindE (in_pool
         (bindE (fetch_page (mu_page_id m)) (\<lambda>r.
          case r of
            None \<Rightarrow> throw (RuntimeError Cannot_pin_undo_page)
          | Some f \<Rightarrow>
              bindE (gets (page_at f)) (\<lambda>p.
              if pg_lsn p < lsn then
                bindE (unpin_page (mu_page_id m) False) (\<lambda>unpinned.
                bindE (require unpinned (RuntimeError Cannot_unpin_skipped_page)) (\<lambda>_.
                ret False))
              else if pg_lsn p > lsn then
                bindE (unpin_page (mu_page_id m) False) (\<lambda>_.
                throw (LogicError Impossible_undo_transition))
              else
                bindE (set_payload f (mu_before_image m)) (\<lambda>_.
                bindE (restore_page_lsn_after_undo (mu_page_id m) restored_lsn) (\<lambda>_.
                bindE (unpin_page (mu_page_id m) True) (\<lambda>unpinned.
                bindE (require unpinned (RuntimeError Cannot_unpin_undo_page)) (\<lambda>_.
                ret True))))))))  (\<lambda>undone.
       bindE (modify (\<lambda>rc. rc\<lparr>rc_undone_lsns := insert lsn (rc_undone_lsns rc)\<rparr>)) (\<lambda>_.
       ret undone))))))"

definition undo_page_allocate :: "PageId \<Rightarrow> (replay, bool) op" where
  "undo_page_allocate i =
     bindE (gets rc_active) (\<lambda>active.
     bindE (require active (LogicError Undo_inactive)) (\<lambda>_.
     bindE (require (is_valid i) (StorageError Invalid_undo_allocation_id)) (\<lambda>_.
     bindE (gets (\<lambda>rc. i \<ge> pm_page_count (rc_pages rc) \<or> \<not> is_page_allocated i (rc_pages rc))) (\<lambda>absent.
     if absent then ret False
     else
       bindE (in_pool (delete_page i)) (\<lambda>deleted.
       bindE (require deleted (LogicError Release_pinned_undo)) (\<lambda>_.
       bindE (in_pool (on_disk (deallocate_page i))) (\<lambda>_.
       ret True)))))))"

definition overwrite_page :: "PageId \<Rightarrow> byte list \<Rightarrow> uint64 \<Rightarrow> (pool, unit) op" where
  "overwrite_page i payload page_lsn =
     bindE (fetch_page i) (\<lambda>r.
     case r of
       None \<Rightarrow> throw (RuntimeError Cannot_pin_reconstructed_page)
     | Some f \<Rightarrow>
         bindE (bindE (set_payload f payload) (\<lambda>_. set_page_lsn f page_lsn)) (\<lambda>_.
         bindE (unpin_page i True) (\<lambda>unpinned.
         bindE (require unpinned (RuntimeError Cannot_unpin_reconstructed_page)) (\<lambda>_.
         ret ()))))"

definition reconstruct_page :: "PageId \<Rightarrow> byte list \<Rightarrow> uint64 \<Rightarrow> (replay, bool) op" where
  "reconstruct_page i payload page_lsn =
     bindE (gets rc_active) (\<lambda>active.
     bindE (require active (LogicError Reconstruction_inactive)) (\<lambda>_.
     bindE (require (is_valid i \<and> length payload = kPagePayloadSize) (InvalidArgument Invalid_reconstructed_image)) (\<lambda>_.
     bindE (gets (\<lambda>rc. i \<in> rc_reconstructed_pages rc)) (\<lambda>seen.
     if seen then ret False
     else
       bindE (in_pool (overwrite_page i payload page_lsn)) (\<lambda>_.
       bindE (modify (\<lambda>rc. rc\<lparr>rc_reconstructed_pages := insert i (rc_reconstructed_pages rc)\<rparr>)) (\<lambda>_.
       ret True))))))"

section \<open>The invariant\<close>

text \<open>The invariant of a replay: the pool is in order and caches only allocated pages.\<close>

definition replay_ok :: "replay \<Rightarrow> bool" where
  "replay_ok rc \<longleftrightarrow> rc_active rc \<and> cache_ok {} (rc_pool rc) \<and> residents (allocated (rc_pool rc)) (rc_pool rc) \<and> (\<forall>i. pool_pins (rc_pool rc) i = 0)"

lemma new_replay_ok: "wf_pm pm \<Longrightarrow> replay_ok (new_replay (new_pool pm cap wal))"
  using new_pool_cache [of pm cap wal] by (simp add: replay_ok_def new_replay_def) (simp add: residents_def new_pool_def pool_pins_def pin_count_def find_frame_def)

abbreviation rc_view :: "replay \<Rightarrow> PageId \<rightharpoonup> page" where
  "rc_view rc \<equiv> pool_view (rc_pool rc)"

lemma wp_in_pool: "wp (in_pool m) Q E rc = wp m (\<lambda>x bp. Q x (rc\<lparr>rc_pool := bp\<rparr>)) (\<lambda>e bp. E e (rc\<lparr>rc_pool := bp\<rparr>)) (rc_pool rc)"
  by (simp add: in_pool_def wp_zoom)

text \<open>Redo of one mutation, on the pages.\<close>

definition redo_view :: "uint64 \<Rightarrow> physical_mutation \<Rightarrow> (PageId \<rightharpoonup> page) \<Rightarrow> PageId \<rightharpoonup> page" where
  "redo_view lsn m V = (case V (mu_page_id m) of None \<Rightarrow> V
     | Some p \<Rightarrow> if pg_lsn p \<ge> lsn then V else V(mu_page_id m \<mapsto> p\<lparr>pg_payload := mu_after_image m, pg_lsn := lsn\<rparr>))"

lemma residents_program:
  assumes "residents (allocated bp) bp" "\<And>r. keeps (residents (allocated bp)) (m r)"
  shows "wp (bindE (fetch_page i) m) (\<lambda>_. residents (allocated bp)) (\<lambda>_. residents (allocated bp)) bp"
  unfolding wp_bindE by (rule wp_mono [OF fetch_residents [OF assms(1)]]) (simp_all add: keeps_wp [OF assms(2)])

text \<open>How a program on the pool that starts with a fetch carries the invariant of the replay.\<close>

lemma replay_program:
  assumes "replay_ok rc" "\<And>r. keeps (residents (allocated (rc_pool rc))) (m r)" "\<And>r. keeps (counts (pm_page_count (rc_pages rc))) (m r)"
    and "wp (bindE (fetch_page i) m)
      (\<lambda>x bp. cache_ok {} bp \<and> pool_pins bp = pool_pins (rc_pool rc) \<and> dom (pool_view bp) = dom (pool_view (rc_pool rc)) \<and> Q x bp)
      (\<lambda>_ bp. cache_ok {} bp \<and> pool_pins bp = pool_pins (rc_pool rc) \<and> pool_view bp = pool_view (rc_pool rc)) (rc_pool rc)"
  shows "wp (in_pool (bindE (fetch_page i) m)) (\<lambda>x rc'. replay_ok rc' \<and> pm_page_count (rc_pages rc') = pm_page_count (rc_pages rc) \<and> (\<exists>bp. rc' = rc\<lparr>rc_pool := bp\<rparr> \<and> Q x bp))
      (\<lambda>_ rc'. replay_ok rc' \<and> rc_view rc' = rc_view rc) rc"
proof -
  let ?A = "allocated (rc_pool rc)"
  have a: "rc_active rc" "residents ?A (rc_pool rc)" "\<forall>i. pool_pins (rc_pool rc) i = 0" using assms(1) by (simp_all add: replay_ok_def)
  have n: "counts (pm_page_count (rc_pages rc)) (rc_pool rc)" by (simp add: counts_def)
  have k: "keeps (counts (pm_page_count (rc_pages rc))) (bindE (fetch_page i) m)" by (intro keeps_intros assms(3))
  show ?thesis
    unfolding wp_in_pool
    by (rule wp_mono [OF wp_conj [OF assms(4) wp_conj [OF residents_program [OF a(2) assms(2)] keeps_wp [OF k n]]]])
       (use a in \<open>auto simp: replay_ok_def allocated_view counts_def\<close>)
qed

lemma redo_physical_mutation_spec:
  assumes "replay_ok rc"
  shows "wp (redo_physical_mutation lsn m)
    (\<lambda>b rc'. replay_ok rc' \<and> (\<exists>bp. rc' = rc\<lparr>rc_pool := bp\<rparr>) \<and> pm_page_count (rc_pages rc') = pm_page_count (rc_pages rc) \<and> rc_view rc' = redo_view lsn m (rc_view rc) \<and> rc_view rc (mu_page_id m) \<noteq> None \<and>
       (b \<longleftrightarrow> (\<exists>p. rc_view rc (mu_page_id m) = Some p \<and> pg_lsn p < lsn)))
    (\<lambda>_ rc'. replay_ok rc' \<and> rc_view rc' = rc_view rc) rc"
proof -
  let ?i = "mu_page_id m" and ?bp = "rc_pool rc"
  let ?valid = "lsn \<noteq> 0 \<and> is_valid ?i \<and> mu_kind m = PayloadWrite \<and> length (mu_after_image m) = kPagePayloadSize \<and> length (mu_before_image m) = kPagePayloadSize"
  have a: "rc_active rc" "cache_ok {} ?bp" using assms by (simp_all add: replay_ok_def)
  show ?thesis
  proof (cases ?valid)
    case False
    then show ?thesis
      using assms a by (simp only: redo_physical_mutation_def wp_bindE wp_gets wp_require simp_thms if_True if_False)
  next
    case True
    then have len: "length (mu_after_image m) = kPagePayloadSize" by simp
    show ?thesis
      unfolding redo_physical_mutation_def wp_bindE [of "gets rc_active"] wp_bindE [of "require _ _"] wp_gets wp_require if_P [OF a(1)] if_P [OF True]
    proof (rule wp_mono [OF replay_program [OF assms, where Q = "\<lambda>b bp. pool_view bp = redo_view lsn m (pool_view ?bp) \<and> pool_view ?bp ?i \<noteq> None \<and>
         (b \<longleftrightarrow> (\<exists>p. pool_view ?bp ?i = Some p \<and> pg_lsn p < lsn))"]], goal_cases)
      case (1 r)
      show ?case by (intro keeps_intros)
    next
      case (2 r)
      show ?case by (intro keeps_intros)
    next
      case 3
      show ?case
      proof (rule pc.fetch_then [OF a(2)], goal_cases)
        case (1 f s1)
        then have v: "pool_view ?bp ?i = Some (page_at f s1)" by (simp add: pc.fetched_at_def)
        show ?case
        proof (cases "pg_lsn (page_at f s1) \<ge> lsn")
          case True
          with v show ?thesis
            using pc.release_clean [OF 1] by (auto simp: wp_simps redo_view_def not_less elim!: wp_mono)
        next
          case False
          have ch: "pc.changes {} ?i (\<lambda>p. p\<lparr>pg_payload := mu_after_image m, pg_lsn := lsn\<rparr>) f (bindE (set_payload f (mu_after_image m)) (\<lambda>_. set_page_lsn f lsn))"
            by (rule pc.changes_bind [OF pc.changes_payload [OF len] pc.changes_lsn])
          show ?thesis
            unfolding option.case wp_bindE [of "gets _"] wp_gets if_not_P [OF False]
            by (rule wp_mono [OF pc.change_then_release [OF 1 ch]]) (use False v in \<open>auto simp: redo_view_def\<close>)
        qed
      qed (simp_all add: wp_throw)
    qed auto
  qed
qed

text \<open>Reconstruction of a page, once per replay.\<close>

lemma reconstruct_page_spec:
  assumes "replay_ok rc"
  shows "wp (reconstruct_page i bs lsn)
    (\<lambda>b rc'. replay_ok rc' \<and> b = (i \<notin> rc_reconstructed_pages rc) \<and>
       rc_reconstructed_pages rc' = insert i (rc_reconstructed_pages rc) \<and>
       (if b then \<exists>p. rc_view rc i = Some p \<and> rc_view rc' = (rc_view rc)(i \<mapsto> p\<lparr>pg_payload := bs, pg_lsn := lsn\<rparr>) else rc' = rc))
    (\<lambda>_ rc'. replay_ok rc' \<and> rc_view rc' = rc_view rc) rc"
proof -
  let ?bp = "rc_pool rc" and ?valid = "is_valid i \<and> length bs = kPagePayloadSize"
  have a: "rc_active rc" "cache_ok {} ?bp" using assms by (simp_all add: replay_ok_def)
  have run: "wp (reconstruct_page i bs lsn) Q E rc = (if \<not> ?valid then E (InvalidArgument Invalid_reconstructed_image) rc else if i \<in> rc_reconstructed_pages rc then Q False rc
      else wp (in_pool (overwrite_page i bs lsn)) (\<lambda>_ rc'. Q True (rc'\<lparr>rc_reconstructed_pages := insert i (rc_reconstructed_pages rc')\<rparr>)) E rc)" for Q E
    using a(1) by (simp add: reconstruct_page_def wp_bindE wp_gets wp_require wp_if wp_funs)
  show ?thesis
  proof (cases "?valid \<and> i \<notin> rc_reconstructed_pages rc")
    case False
    then show ?thesis unfolding run using assms by (auto simp: insert_absorb)
  next
    case True
    then have len: "length bs = kPagePayloadSize" and run2: "?valid" "i \<notin> rc_reconstructed_pages rc" by simp_all
    have ch: "pc.changes {} i (\<lambda>p. p\<lparr>pg_payload := bs, pg_lsn := lsn\<rparr>) f (bindE (set_payload f bs) (\<lambda>_. set_page_lsn f lsn))" for f
      by (rule pc.changes_bind [OF pc.changes_payload [OF len] pc.changes_lsn])
    show ?thesis
      unfolding run overwrite_page_def if_not_P [OF run2(2)] if_not_P [OF not_not [THEN iffD2, OF run2(1)]]
    proof (rule wp_mono [OF replay_program [OF assms, where Q = "\<lambda>_ bp. \<exists>p. pool_view ?bp i = Some p \<and> pool_view bp = (pool_view ?bp)(i \<mapsto> p\<lparr>pg_payload := bs, pg_lsn := lsn\<rparr>)"]], goal_cases)
      case (1 r)
      show ?case by (intro keeps_intros)
    next
      case (2 r)
      show ?case by (intro keeps_intros)
    next
      case 3
      show ?case
      proof (rule pc.fetch_then [OF a(2)], goal_cases)
        case (1 f s1)
        show ?case unfolding option.case by (rule wp_mono [OF pc.change_then_release [OF 1 ch]]) (auto split: if_splits)
      qed (simp_all add: wp_throw)
    qed (use run2 in \<open>auto simp: replay_ok_def\<close>)
  qed
qed

section \<open>Allocation\<close>

lemma not_resident: "residents (allocated bp) bp \<Longrightarrow> pool_view bp i = None \<Longrightarrow> find_frame i bp = None"
  using resident_entry [of "allocated bp" bp i] find_frame_entry [of i bp] by (force simp: allocated_view dom_def)

lemma replay_ok_disk:
  assumes "replay_ok rc" "wf_pm pm" "pm_pages pm = (pm_pages (rc_pages rc))(i := v)" "find_frame i (rc_pool rc) = None"
  shows "replay_ok (rc\<lparr>rc_pool := (rc_pool rc)\<lparr>bp_page_manager := pm\<rparr>\<rparr>)"
proof -
  let ?bp = "rc_pool rc"
  have r: "cache_ok {} ?bp" "residents (allocated ?bp) ?bp" using assms(1) by (simp_all add: replay_ok_def)
  have ne: "j \<noteq> i" if "(j, f) \<in> set (bp_page_table ?bp)" for j f
    using that pool_inv_entry(7) [OF cache_okD(2) [OF r(1)] that] assms(4) by auto
  have "cache_ok {} (?bp\<lparr>bp_page_manager := pm\<rparr>)"
    by (rule cache_ok_disk [OF r(1) assms(2)]) (use ne assms(3) in auto)
  moreover have "residents (allocated (?bp\<lparr>bp_page_manager := pm\<rparr>)) ?bp"
    using r(2) ne assms(3) by (fastforce simp: residents_def allocated_def)
  ultimately show ?thesis using assms(1) by (simp add: replay_ok_def)
qed

text \<open>The next page number, and what redoing an allocation does to the pages.\<close>

definition redo_allocated :: "PageId \<Rightarrow> replay \<Rightarrow> replay \<Rightarrow> bool" where
  "redo_allocated i rc rc' \<longleftrightarrow> (\<exists>p. rc_view rc' = (rc_view rc)(i \<mapsto> p) \<and> (rc_view rc i = Some p \<or> rc_view rc i = None \<and>
     (i = pm_page_count (rc_pages rc) \<longrightarrow> p = new_page i))) \<and> i \<le> pm_page_count (rc_pages rc) \<and>
     pm_page_count (rc_pages rc') = (if i = pm_page_count (rc_pages rc) then i + 1 else pm_page_count (rc_pages rc))"

lemma wp_pages: "wp (in_pool (on_disk m)) Q E rc =
    wp m (\<lambda>x pm. Q x (rc\<lparr>rc_pool := (rc_pool rc)\<lparr>bp_page_manager := pm\<rparr>\<rparr>)) (\<lambda>e pm. E e (rc\<lparr>rc_pool := (rc_pool rc)\<lparr>bp_page_manager := pm\<rparr>\<rparr>)) (rc_pages rc)"
  by (simp add: wp_in_pool on_disk_def wp_zoom)

text \<open>A page manager operation that shows the same pages.\<close>

lemma replay_same_pages:
  assumes "replay_ok rc" "wf_pm pm" "pm_pages pm = pm_pages (rc_pages rc)"
  shows "replay_ok (rc\<lparr>rc_pool := (rc_pool rc)\<lparr>bp_page_manager := pm\<rparr>\<rparr>)"
    "pool_view ((rc_pool rc)\<lparr>bp_page_manager := pm\<rparr>) = rc_view rc"
proof -
  have "cache_ok {} ((rc_pool rc)\<lparr>bp_page_manager := pm\<rparr>)"
    using assms by (intro cache_ok_disk) (auto simp: replay_ok_def)
  with assms(1,3) show "replay_ok (rc\<lparr>rc_pool := (rc_pool rc)\<lparr>bp_page_manager := pm\<rparr>\<rparr>)" by (simp add: replay_ok_def allocated_def)
  show "pool_view ((rc_pool rc)\<lparr>bp_page_manager := pm\<rparr>) = rc_view rc"
    using assms(3) by (simp add: pool_view_def find_frame_def fun_eq_iff split: option.split)
qed

lemma activate_for_redo_spec:
  assumes "replay_ok rc"
  shows "wp (activate_for_redo i)
    (\<lambda>_ rc'. replay_ok rc' \<and> (\<exists>bp. rc' = rc\<lparr>rc_pool := bp\<rparr>) \<and> pm_page_count (rc_pages rc') = pm_page_count (rc_pages rc) \<and> (\<exists>p. rc_view rc' = (rc_view rc)(i \<mapsto> p) \<and>
       (rc_view rc i = Some p \<or> rc_view rc i = None \<and> p = decode_page i (segment (slot i) kPageSize (contents (pm_file (rc_pages rc)))))))
    (\<lambda>_ rc'. replay_ok rc' \<and> (rc_view rc' = rc_view rc \<or> (\<exists>p. rc_view rc i = None \<and> rc_view rc' = (rc_view rc)(i \<mapsto> p)))) rc"
proof -
  let ?bp = "rc_pool rc" and ?pm = "rc_pages rc"
  have wf: "wf_pm ?pm" and res: "residents (allocated ?bp) ?bp"
    using assms cache_okD(2) [of "{}" ?bp] by (simp_all add: replay_ok_def pool_inv_def)
  show ?thesis
    unfolding activate_for_redo_def wp_bindE [of "in_pool _"] wp_pages
  proof (rule wp_mono [OF validate_physical_page_spec [OF wf]], goal_cases)
    case (1 u pm)
    let ?rc = "rc\<lparr>rc_pool := ?bp\<lparr>bp_page_manager := pm\<rparr>\<rparr>"
    have pm: "wf_pm pm" "pm_pages pm = pm_pages ?pm" "contents (pm_file pm) = contents (pm_file ?pm)" "pm_page_count pm = pm_page_count ?pm"
      using 1 same_metaD(1) [of ?pm pm] by auto
    note ok = replay_same_pages [OF assms pm(1,2)]
    show ?case
    proof (cases "is_page_allocated i pm")
      case True
      then have "pm_pages ?pm i \<noteq> None" using dom_pm_pages [of pm] pm(2) by (auto simp: dom_def)
      then obtain p where "rc_view rc i = Some p" using allocated_view [of ?bp] by (auto simp: allocated_def dom_def)
      moreover have "(rc_view rc)(i \<mapsto> p) = rc_view rc" using calculation by (simp add: fun_upd_idem)
      ultimately show ?thesis using True ok pm(4) by (simp add: wp_simps) metis
    next
      case False
      then have "pm_pages ?pm i = None" using dom_pm_pages [of pm] pm(2) by (auto simp: dom_def)
      then have v: "rc_view rc i = None" by (simp add: pool_view_def)
      have nf: "find_frame i (rc_pool ?rc) = None" using not_resident [OF res v] by (simp add: find_frame_def)
      show ?thesis
        using False
      proof (simp add: wp_bindE wp_gets, unfold wp_pages, intro wp_mono [OF activate_reserved_page_spec], goal_cases)
        case 1
        show ?case using pm(1) by simp
      next
        case (2 u' pm')
        then have pm': "wf_pm pm'" "pm_pages pm' = (pm_pages (rc_pages ?rc))(i \<mapsto> decode_page i (segment (slot i) kPageSize (contents (pm_file ?pm))))"
          "pm_page_count pm' = pm_page_count ?pm" using pm by auto
        show ?case using replay_ok_disk [OF ok(1) pm'(1,2) nf] pool_view_disk [OF pm'(2) nf] ok(2) v pm'(3) by auto
      next
        case (3 e pm')
        then consider "pm' = pm" | p where "wf_pm pm'" "pm_pages pm' = (pm_pages (rc_pages ?rc))(i \<mapsto> p)" by (auto split: if_splits)
        then show ?case
        proof cases
          case 1
          then show ?thesis using ok by simp
        next
          case 2
          then show ?thesis using replay_ok_disk [OF ok(1) 2 nf] pool_view_disk [OF 2(2) nf] ok(2) v by auto
        qed
      qed
    qed
  next
    case (2 e pm)
    then show ?case using replay_same_pages [OF assms, of pm] by simp
  qed
qed

lemma redo_page_allocate_spec:
  assumes "replay_ok rc"
  shows "wp (redo_page_allocate i) (\<lambda>_ rc'. replay_ok rc' \<and> (\<exists>bp. rc' = rc\<lparr>rc_pool := bp\<rparr>) \<and> redo_allocated i rc rc')
    (\<lambda>_ rc'. replay_ok rc' \<and> (rc_view rc' = rc_view rc \<or> (\<exists>p. rc_view rc i = None \<and> rc_view rc' = (rc_view rc)(i \<mapsto> p)))) rc"
proof -
  let ?bp = "rc_pool rc" and ?pm = "rc_pages rc"
  let ?E = "\<lambda>_ rc'. replay_ok rc' \<and> (rc_view rc' = rc_view rc \<or> (\<exists>p. rc_view rc i = None \<and> rc_view rc' = (rc_view rc)(i \<mapsto> p)))"
  have a: "rc_active rc" and wf: "wf_pm ?pm" and res: "residents (allocated ?bp) ?bp"
    using assms cache_okD(2) [of "{}" ?bp] by (simp_all add: replay_ok_def pool_inv_def)
  show ?thesis
  proof (cases "is_valid i")
    case False
    with assms a show ?thesis by (simp add: redo_page_allocate_def wp_bindE wp_gets wp_require)
  next
    case valid: True
    show ?thesis
    proof (cases "i = pm_page_count ?pm")
      case False
      then have run: "wp (redo_page_allocate i) Q E rc = (if i > pm_page_count ?pm then E (StorageError Recovery_allocation_gap) rc
          else wp (activate_for_redo i) (\<lambda>_. Q False) E rc)" for Q E
        using a valid by (simp add: redo_page_allocate_def wp_bindE wp_gets wp_require wp_if wp_funs)
      show ?thesis
      proof (cases "i > pm_page_count ?pm")
        case True
        then show ?thesis unfolding run using assms by simp
      next
        case le: False
        show ?thesis
          unfolding run if_not_P [OF le]
          by (rule wp_mono [OF activate_for_redo_spec [OF assms]]) (use False le in \<open>auto simp: redo_allocated_def not_less\<close>)
      qed
    next
      case True
      have none: "pm_pages ?pm i = None" using True by (auto simp: pm_pages_def dest: is_page_allocated_count)
      then have v: "rc_view rc i = None" by (simp add: pool_view_def)
      then have nf: "find_frame i ?bp = None" by (rule not_resident [OF res])
      then have run: "wp (redo_page_allocate i) Q E rc = wp (in_pool (on_disk (materialize_page_for_recovery i))) (\<lambda>_.
          wp (activate_for_redo i) (\<lambda>_. Q True) E) E rc" for Q E
        using a valid True by (simp add: redo_page_allocate_def wp_bindE wp_gets wp_require wp_if wp_funs contains_def)
      show ?thesis
        unfolding run wp_pages
      proof (rule wp_mono [OF materialize_page_spec [OF wf]], goal_cases)
        case (1 u pm)
        then have pm: "wf_pm pm" "pm_pages pm = pm_pages ?pm" "pm_page_count pm = i + 1"
            "decode_page i (segment (slot i) kPageSize (contents (pm_file pm))) = new_page i"
          using same_metaD [of "?pm\<lparr>pm_page_count := i + 1\<rparr>" pm] by auto
        note ok = replay_same_pages [OF assms pm(1,2)]
        show ?case
          by (rule wp_mono [OF activate_for_redo_spec [OF ok(1)]]) (use ok(2) pm(3,4) True v in \<open>auto simp: redo_allocated_def\<close>)
      next
        case (2 e pm)
        then show ?case using replay_same_pages [OF assms, of pm] by simp
      qed
    qed
  qed
qed

lemma no_pending_delete_page: "keeps no_pending (delete_page i)"
  unfolding delete_page_def
  by (intro keeps_intros no_pending_modify) (simp_all add: no_pending_reset, simp_all add: no_pending_def erase_entry_def)

lemma undo_page_allocate_spec:
  assumes "replay_ok rc"
  shows "wp (undo_page_allocate i)
    (\<lambda>b rc'. replay_ok rc' \<and> (\<exists>bp. rc' = rc\<lparr>rc_pool := bp\<rparr>) \<and> b = (rc_view rc i \<noteq> None) \<and> rc_view rc' = (rc_view rc)(i := None))
    (\<lambda>_ rc'. replay_ok rc' \<and> (rc_view rc' = rc_view rc \<or> rc_view rc' = (rc_view rc)(i := None))) rc"
proof -
  let ?bp = "rc_pool rc" and ?pm = "rc_pages rc"
  have a: "rc_active rc" "\<forall>i. pool_pins ?bp i = 0" and c: "cache_ok {} ?bp" and res: "residents (allocated ?bp) ?bp"
    using assms by (simp_all add: replay_ok_def)
  note w = cache_okD [OF c]
  show ?thesis
  proof (cases "is_valid i \<and> is_page_allocated i ?pm")
    case False
    then have "rc_view rc i = None" by (auto simp: pool_view_def pm_pages_def is_page_allocated_def)
    moreover have "\<exists>bp. rc = rc\<lparr>rc_pool := bp\<rparr>" by (rule exI [of _ ?bp]) simp
    ultimately show ?thesis
      using False a(1) assms by (auto simp: undo_page_allocate_def wp_bindE wp_gets wp_require wp_if wp_ret fun_upd_idem)
  next
    case True
    then have some: "rc_view rc i \<noteq> None" using allocated_view [of ?bp] dom_pm_pages [of ?pm] by (auto simp: allocated_def dom_def)
    have "\<not> pm_page_count ?pm \<le> i" using True by (simp add: is_page_allocated_count not_le)
    then have run: "wp (undo_page_allocate i) Q E rc = wp (in_pool (delete_page i)) (\<lambda>deleted.
        wp (bindE (require deleted (LogicError Release_pinned_undo)) (\<lambda>_. bindE (in_pool (on_disk (deallocate_page i))) (\<lambda>_. ret True))) Q E) E rc" for Q E
      using True a(1) by (simp add: undo_page_allocate_def wp_bindE wp_gets wp_require wp_if)
    show ?thesis
      unfolding run wp_in_pool
    proof (rule wp_mono [OF wp_conj [OF delete_page_spec [OF w(2,3)] wp_conj [OF keeps_wp [OF no_pending_delete_page w(4)] keeps_wp [OF residents_delete_page res]]]], goal_cases)
      case (1 deleted bp1)
      then have b1: "wf_pool bp1" "pool_kept {} ?bp bp1" "pins_kept {} ?bp bp1" "no_pending bp1" "residents (allocated ?bp) bp1"
        and r: "deleted \<longleftrightarrow> pin_count i ?bp \<in> {None, Some 0}" "deleted \<longrightarrow> find_frame i bp1 = None" by simp_all
      have "deleted" using a(2) [rule_format, of i] r(1) by (auto simp: pool_pins_def unat_eq_0 split: option.splits)
      with r have nf: "find_frame i bp1 = None" by simp
      let ?rc1 = "rc\<lparr>rc_pool := bp1\<rparr>"
      have "\<forall>j. pool_pins bp1 j = 0" using pins_kept_pinned(2) [OF b1(3) w(2) b1(1)] a(2) by simp
      then have ok: "replay_ok ?rc1" and view: "pool_view bp1 = pool_view ?bp"
        using b1 a by (simp_all add: replay_ok_def cache_ok_def pool_ok_def pool_kept_def allocated_view)
      have wf: "wf_pm (rc_pages ?rc1)" using b1(1) by (simp add: pool_inv_def)
      show ?case
        using \<open>deleted\<close>
      proof (simp add: wp_bindE wp_require, unfold wp_pages, intro wp_mono [OF deallocate_page_spec], goal_cases)
        case 1
        show ?case by (rule wf)
      next
        case (2 u pm)
        then have pm: "wf_pm pm" "pm_pages pm = (pm_pages (rc_pages ?rc1))(i := None)" by auto
        have nf': "find_frame i (rc_pool ?rc1) = None" using nf by simp
        show ?case using replay_ok_disk [OF ok pm nf'] pool_view_disk [OF pm(2) nf'] view some by (simp add: wp_ret) blast
      next
        case (3 e pm)
        then consider "pm = rc_pages ?rc1" | "wf_pm pm" "pm_pages pm = (pm_pages (rc_pages ?rc1))(i := None)" by (auto split: if_splits)
        then show ?case
        proof cases
          case 1
          then show ?thesis using ok view by simp
        next
          case 2
          have nf': "find_frame i (rc_pool ?rc1) = None" using nf by simp
          show ?thesis using replay_ok_disk [OF ok 2 nf'] pool_view_disk [OF 2(2) nf'] view by simp
        qed
      qed
    next
      case (2 e bp1)
      then have b1: "wf_pool bp1" "pool_kept {} ?bp bp1" "no_pending bp1" "residents (allocated ?bp) bp1" "\<exists>pm. bp1 = ?bp\<lparr>bp_page_manager := pm\<rparr>" by simp_all
      then have "pool_pins bp1 = pool_pins ?bp" by auto
      then show ?case using b1 a by (auto simp: replay_ok_def cache_ok_def pool_ok_def pool_kept_def allocated_view)
    qed
  qed
qed

end
