(* ===== verification/RecoveryEngines.thy ===== *)
theory RecoveryEngines
  imports Replay
begin

text \<open>
  The two passes of recovery over an analysed log: REDO of the committed transactions
  (\<^verbatim>\<open>src/src/recovery/redo_engine.cpp\<close>) and UNDO of the others (\<^verbatim>\<open>src/src/recovery/undo_engine.cpp\<close>), which rebuilds every
  page a loser touched from its earliest image and the byte changes of the committed mutations.

  Durations are left out of the metrics. \<^verbatim>\<open>std::sort\<close> is modelled by a stable sort; the sequence numbers it compares
  are all different in a log the scanner accepts.
\<close>

section \<open>REDO\<close>

record redo_metrics =
  rm_records_considered :: nat
  rm_committed_transactions :: nat
  rm_page_allocates_processed :: nat
  rm_pages_materialized :: nat
  rm_physical_mutations_considered :: nat
  rm_mutations_applied :: nat
  rm_mutations_skipped_page_lsn :: nat

definition redo_record :: "recovery_state \<Rightarrow> wal_record \<Rightarrow> redo_metrics \<Rightarrow> (replay, redo_metrics) op" where
  "redo_record st r me0 =
     (let me = me0\<lparr>rm_records_considered := rm_records_considered me0 + 1\<rparr> in
      case transaction_at (wr_transaction_id r) st of
        None \<Rightarrow> throw (LogicError No_transaction_analysis)
      | Some ta \<Rightarrow>
          if ta_status ta \<noteq> StatusCommitted then ret me
          else if wr_type r = PageAllocate then
            (case find (\<lambda>a. al_lsn a = wr_lsn r \<and> al_transaction_id a = wr_transaction_id r) (rv_allocations st) of
               None \<Rightarrow> throw (LogicError Missing_allocation)
             | Some a \<Rightarrow>
                 bindE (redo_page_allocate (al_page_id a)) (\<lambda>materialized.
                 ret (me\<lparr>rm_page_allocates_processed := rm_page_allocates_processed me + 1,
                   rm_pages_materialized := rm_pages_materialized me + (if materialized then 1 else 0)\<rparr>)))
          else if wr_type r = PhysicalMutation then
            (case find (\<lambda>m. mr_lsn m = wr_lsn r \<and> mr_transaction_id m = wr_transaction_id r) (rv_mutations st) of
               None \<Rightarrow> throw (LogicError Missing_mutation)
             | Some m \<Rightarrow>
                 bindE (redo_physical_mutation (wr_lsn r) (mr_mutation m)) (\<lambda>applied.
                 ret (me\<lparr>rm_physical_mutations_considered := rm_physical_mutations_considered me + 1,
                   rm_mutations_applied := rm_mutations_applied me + (if applied then 1 else 0),
                   rm_mutations_skipped_page_lsn := rm_mutations_skipped_page_lsn me + (if applied then 0 else 1)\<rparr>)))
          else ret me)"

fun redo_records :: "recovery_state \<Rightarrow> wal_record list \<Rightarrow> redo_metrics \<Rightarrow> (replay, redo_metrics) op" where
  "redo_records st [] me = ret me"
| "redo_records st (r # rs) me = bindE (redo_record st r me) (redo_records st rs)"

definition redo_run :: "recovery_state \<Rightarrow> (replay, redo_metrics) op" where
  "redo_run st =
     bindE (gets rc_active) (\<lambda>active.
     bindE (require active (LogicError Redo_inactive)) (\<lambda>_.
     redo_records st (rv_records st)
       \<lparr>rm_records_considered = 0, rm_committed_transactions = count_status StatusCommitted (rv_transactions st), rm_page_allocates_processed = 0,
        rm_pages_materialized = 0, rm_physical_mutations_considered = 0, rm_mutations_applied = 0, rm_mutations_skipped_page_lsn = 0\<rparr>))"

section \<open>UNDO\<close>

record undo_metrics =
  um_records_considered :: nat
  um_committed_transactions_skipped :: nat
  um_aborted_transactions :: nat
  um_incomplete_transactions :: nat
  um_mutations_considered :: nat
  um_mutations_undone :: nat
  um_mutations_skipped :: nat
  um_pages_touched :: nat
  um_allocations_released :: nat

text \<open>\<^verbatim>\<open>vector::at\<close> for each index of a list.\<close>

definition at_all :: "'a list \<Rightarrow> nat list \<Rightarrow> error + 'a list" where
  "at_all xs ks = (if list_all (\<lambda>k. k < length xs) ks then Inr (map (\<lambda>k. xs ! k) ks) else Inl OutOfRange)"

text \<open>The mutations and allocations of the transactions that did not commit.\<close>

fun collect_losers :: "recovery_state \<Rightarrow> (uint64 \<times> transaction_analysis) list \<Rightarrow>
    error + (mutation_record list \<times> allocation_record list)" where
  "collect_losers st [] = Inr ([], [])"
| "collect_losers st ((k, ta) # ts) =
     (if ta_status ta = StatusCommitted then collect_losers st ts
      else
        (case at_all (rv_mutations st) (ta_mutation_indexes ta) of Inl e \<Rightarrow> Inl e | Inr ms \<Rightarrow>
        (case at_all (rv_allocations st) (ta_allocation_indexes ta) of Inl e \<Rightarrow> Inl e | Inr as \<Rightarrow>
        (case collect_losers st ts of Inl e \<Rightarrow> Inl e | Inr (ms', as') \<Rightarrow> Inr (ms @ ms', as @ as')))))"

definition page_history :: "recovery_state \<Rightarrow> PageId \<Rightarrow> mutation_record list" where
  "page_history st i = sort_key mr_lsn (mutations_for_page i st)"

text \<open>The bytes a mutation changed are copied to an image.\<close>

definition apply_delta :: "physical_mutation \<Rightarrow> byte list \<Rightarrow> byte list" where
  "apply_delta m img = map (\<lambda>k. if mu_before_image m ! k \<noteq> mu_after_image m ! k then mu_after_image m ! k else img ! k) [0..<length img]"

fun apply_survivors :: "recovery_state \<Rightarrow> mutation_record list \<Rightarrow> byte list \<Rightarrow> uint64 \<Rightarrow> error + (byte list \<times> uint64)" where
  "apply_survivors st [] img survivor_lsn = Inr (img, survivor_lsn)"
| "apply_survivors st (m # ms) img survivor_lsn =
     (case transaction_at (mr_transaction_id m) st of
        None \<Rightarrow> Inl (LogicError Mutation_without_transaction)
      | Some ta \<Rightarrow>
          if ta_status ta \<noteq> StatusCommitted then apply_survivors st ms img survivor_lsn
          else apply_survivors st ms (apply_delta (mr_mutation m) img) (mr_lsn m))"

definition lost_count :: "recovery_state \<Rightarrow> mutation_record list \<Rightarrow> nat" where
  "lost_count st ms = length (filter (\<lambda>m. map_option ta_status (transaction_at (mr_transaction_id m) st) \<noteq> Some StatusCommitted) ms)"

definition undo_page :: "recovery_state \<Rightarrow> PageId \<Rightarrow> undo_metrics \<Rightarrow> (replay, undo_metrics) op" where
  "undo_page st i me =
     (let history = page_history st i in
      bindE (lift_result (apply_survivors st history (mu_before_image (mr_mutation (hd history))) 0)) (\<lambda>(img, survivor_lsn).
      bindE (reconstruct_page i img survivor_lsn) (\<lambda>reconstructed.
      ret (if reconstructed then
          me\<lparr>um_mutations_undone := um_mutations_undone me + lost_count st history, um_pages_touched := um_pages_touched me + 1\<rparr>
        else me\<lparr>um_mutations_skipped := um_mutations_skipped me + lost_count st history\<rparr>))))"

fun undo_pages :: "recovery_state \<Rightarrow> PageId list \<Rightarrow> undo_metrics \<Rightarrow> (replay, undo_metrics) op" where
  "undo_pages st [] me = ret me"
| "undo_pages st (i # is) me = bindE (undo_page st i me) (undo_pages st is)"

fun release_allocations :: "allocation_record list \<Rightarrow> undo_metrics \<Rightarrow> (replay, undo_metrics) op" where
  "release_allocations [] me = ret me"
| "release_allocations (a # as) me =
     bindE (undo_page_allocate (al_page_id a)) (\<lambda>released.
     release_allocations as (me\<lparr>um_records_considered := um_records_considered me + 1,
       um_allocations_released := um_allocations_released me + (if released then 1 else 0)\<rparr>))"

text \<open>The affected pages are kept in a \<^verbatim>\<open>std::set\<close> and so visited in increasing order.\<close>

definition affected_pages :: "mutation_record list \<Rightarrow> PageId list" where
  "affected_pages ms = sort (remdups (map (\<lambda>m. mu_page_id (mr_mutation m)) ms))"

definition undo_run :: "recovery_state \<Rightarrow> (replay, undo_metrics) op" where
  "undo_run st =
     bindE (gets rc_active) (\<lambda>active.
     bindE (require active (LogicError Undo_inactive)) (\<lambda>_.
     bindE (lift_result (collect_losers st (rv_transactions st))) (\<lambda>(mutations, allocations).
     bindE (undo_pages st (affected_pages mutations)
       \<lparr>um_records_considered = 0, um_committed_transactions_skipped = count_status StatusCommitted (rv_transactions st),
        um_aborted_transactions = count_status StatusAborted (rv_transactions st),
        um_incomplete_transactions = count_status StatusIncomplete (rv_transactions st), um_mutations_considered = 0,
        um_mutations_undone = 0, um_mutations_skipped = 0, um_pages_touched = 0, um_allocations_released = 0\<rparr>) (\<lambda>me.
     bindE (release_allocations (rev (sort_key al_lsn allocations)) me) (\<lambda>me.
     ret (me\<lparr>um_records_considered := length mutations + length allocations, um_mutations_considered := length mutations\<rparr>))))))"

section \<open>Finding the analysed entries\<close>

lemma find_map_filter:
  assumes "r \<in> set rs" "f r = Some x" "P x" "\<And>q y. q \<in> set rs \<Longrightarrow> f q = Some y \<Longrightarrow> P y \<Longrightarrow> q = r"
  shows "find P (List.map_filter f rs) = Some x"
  using assms(1,4)
proof (induction rs)
  case (Cons q rs)
  have IH: "r \<in> set rs \<Longrightarrow> find P (List.map_filter f rs) = Some x" using Cons.IH Cons.prems(2) by simp
  show ?case
  proof (cases "q = r")
    case True
    with assms(2,3) show ?thesis by (simp add: List.map_filter_simps)
  next
    case False
    with Cons.prems have "r \<in> set rs" "\<And>y. f q = Some y \<Longrightarrow> \<not> P y" by auto
    with IH show ?thesis by (cases "f q") (simp_all add: List.map_filter_simps)
  qed
qed simp

end
