(* ===== verification/RecoveryPasses.thy ===== *)
theory RecoveryPasses
  imports RecoveryEngines
begin

text \<open>
  What the two passes of recovery do to the pages: REDO brings them up to the
  committed mutations, UNDO removes every trace of the others.
\<close>

section \<open>The analysed log\<close>

text \<open>\<open>log_state rs st\<close>: \<open>st\<close> is the analysis of a log the scanner accepted, with the records \<open>rs\<close>.\<close>

definition log_state :: "wal_record list \<Rightarrow> recovery_state \<Rightarrow> bool" where
  "log_state rs st \<longleftrightarrow> analysis_of rs st \<and> log_ok rs \<and> (\<forall>r \<in> set rs. payload_fine r)"

lemma analyze_log_state:
  assumes "analyze False wal = Inr st"
  obtains rs where "read_records wal = Inr rs" "log_state rs st" "\<And>tid. \<not> (has_record rs tid Commit \<and> has_record rs tid Abort)"
proof -
  from assms obtain rs where rs: "read_records wal = Inr rs" by (auto simp: analyze_def split: sum.splits)
  then obtain c where c: "wal = Some c" "scan_records c [] = Inr rs" by (cases wal) (auto simp: read_records_def)
  have "log_ok rs" using scan_sound [OF c(2)] by (simp add: log_ok_def increasing_def)
  with analyze_spec [OF rs] assms rs show thesis by (intro that) (auto simp: log_state_def)
qed

lemma log_stateD:
  assumes "log_state rs st"
  shows "rv_records st = rs" "rv_allocations st = log_allocations rs" "rv_mutations st = log_mutations rs"
    "r \<in> set rs \<Longrightarrow> payload_fine r" "r \<in> set rs \<Longrightarrow> wr_lsn r \<noteq> 0"
    "r \<in> set rs \<Longrightarrow> map_option ta_status (transaction_at (wr_transaction_id r) st) = Some (status_in rs (wr_transaction_id r))"
    "q \<in> set rs \<Longrightarrow> r \<in> set rs \<Longrightarrow> wr_lsn q = wr_lsn r \<Longrightarrow> q = r"
    "sorted_wrt (<) (map fst (rv_transactions st))"
proof -
  show "rv_records st = rs" "rv_allocations st = log_allocations rs" "rv_mutations st = log_mutations rs"
    "sorted_wrt (<) (map fst (rv_transactions st))"
    "r \<in> set rs \<Longrightarrow> payload_fine r" "r \<in> set rs \<Longrightarrow> map_option ta_status (transaction_at (wr_transaction_id r) st) = Some (status_in rs (wr_transaction_id r))"
    using assms by (auto simp: log_state_def analysis_of_def)
  show "r \<in> set rs \<Longrightarrow> wr_lsn r \<noteq> 0" using assms by (auto simp: log_state_def log_ok_def record_ok_def)
  have "sorted_wrt (<) (map wr_lsn rs)" using assms by (simp add: log_state_def log_ok_def increasing_def sorted_wrt_map)
  then have "distinct (map wr_lsn rs)" by (simp add: strict_sorted_iff)
  then show "q \<in> set rs \<Longrightarrow> r \<in> set rs \<Longrightarrow> wr_lsn q = wr_lsn r \<Longrightarrow> q = r" by (auto simp: distinct_map dest: inj_onD)
qed

text \<open>The entries of the analysis and the records they come from.\<close>

lemma mutation_of_Some:
  "mutation_of r = Some m \<Longrightarrow> mr_lsn m = wr_lsn r \<and> mr_transaction_id m = wr_transaction_id r \<and> wr_type r = PhysicalMutation \<and>
     decode_physical_mutation (wr_payload r) = Inr (mr_mutation m)"
  by (auto simp: mutation_of_def split: if_splits sum.splits)

lemma allocation_of_Some:
  "allocation_of r = Some a \<Longrightarrow> al_lsn a = wr_lsn r \<and> al_transaction_id a = wr_transaction_id r \<and> wr_type r = PageAllocate \<and>
     decode_page_allocate (wr_payload r) = Inr (al_page_id a)"
  by (auto simp: allocation_of_def split: if_splits sum.splits)

lemma decoded_mutation:
  "decode_physical_mutation bs = Inr m \<Longrightarrow> is_valid (mu_page_id m) \<and> mu_kind m = PayloadWrite \<and> length (mu_before_image m) = kPagePayloadSize \<and>
     length (mu_after_image m) = kPagePayloadSize"
  by (auto simp: decode_physical_mutation_def Let_def split: if_splits)

lemma decoded_allocation: "decode_page_allocate bs = Inr i \<Longrightarrow> is_valid i"
  by (auto simp: decode_page_allocate_def split: if_splits)

lemma find_entry:
  assumes "log_state rs st" "r \<in> set rs"
  shows "wr_type r = PhysicalMutation \<Longrightarrow> \<exists>m. mutation_of r = Some m \<and>
      find (\<lambda>m. mr_lsn m = wr_lsn r \<and> mr_transaction_id m = wr_transaction_id r) (rv_mutations st) = Some m"
    and "wr_type r = PageAllocate \<Longrightarrow> \<exists>a. allocation_of r = Some a \<and>
      find (\<lambda>a. al_lsn a = wr_lsn r \<and> al_transaction_id a = wr_transaction_id r) (rv_allocations st) = Some a"
proof -
  note d = log_stateD [OF assms(1)]
  note f = d(4) [OF assms(2)]
  assume t: "wr_type r = PhysicalMutation"
  then obtain m where m: "mutation_of r = Some m" using f by (cases "decode_physical_mutation (wr_payload r)") (auto simp: mutation_of_def payload_fine_def)
  have "find (\<lambda>m. mr_lsn m = wr_lsn r \<and> mr_transaction_id m = wr_transaction_id r) (log_mutations rs) = Some m"
    by (rule find_map_filter [where r = r and f = mutation_of, OF assms(2) m]) (use mutation_of_Some [OF m] mutation_of_Some d(7) [OF _ assms(2)] in auto)
  with m d(3) show "\<exists>m. mutation_of r = Some m \<and>
      find (\<lambda>m. mr_lsn m = wr_lsn r \<and> mr_transaction_id m = wr_transaction_id r) (rv_mutations st) = Some m" by simp
next
  note d = log_stateD [OF assms(1)]
  note f = d(4) [OF assms(2)]
  assume t: "wr_type r = PageAllocate"
  then obtain a where a: "allocation_of r = Some a" using f by (cases "decode_page_allocate (wr_payload r)") (auto simp: allocation_of_def payload_fine_def)
  have "find (\<lambda>a. al_lsn a = wr_lsn r \<and> al_transaction_id a = wr_transaction_id r) (log_allocations rs) = Some a"
    by (rule find_map_filter [where r = r and f = allocation_of, OF assms(2) a]) (use allocation_of_Some [OF a] allocation_of_Some d(7) [OF _ assms(2)] in auto)
  with a d(2) show "\<exists>a. allocation_of r = Some a \<and>
      find (\<lambda>a. al_lsn a = wr_lsn r \<and> al_transaction_id a = wr_transaction_id r) (rv_allocations st) = Some a" by simp
qed

section \<open>REDO\<close>

text \<open>
  REDO on the pages: a committed allocation adds a page that is missing, and a committed mutation replaces an older
  payload. \<open>contiguous rs rc\<close>: every page a committed transaction allocated is allocated or lies beyond the file.
\<close>

abbreviation committed :: "wal_record list \<Rightarrow> uint64 \<Rightarrow> bool" where
  "committed rs tid \<equiv> status_in rs tid = StatusCommitted"

definition redo_step :: "wal_record list \<Rightarrow> wal_record \<Rightarrow> (PageId \<rightharpoonup> page) \<Rightarrow> PageId \<rightharpoonup> page" where
  "redo_step rs r V =
     (if \<not> committed rs (wr_transaction_id r) then V
      else case allocation_of r of
        Some a \<Rightarrow> (if V (al_page_id a) = None then V(al_page_id a \<mapsto> new_page (al_page_id a)) else V)
      | None \<Rightarrow> (case mutation_of r of Some m \<Rightarrow> redo_view (mr_lsn m) (mr_mutation m) V | None \<Rightarrow> V))"

definition contiguous :: "wal_record list \<Rightarrow> replay \<Rightarrow> bool" where
  "contiguous rs rc \<longleftrightarrow> (\<forall>r \<in> set rs. \<forall>a. allocation_of r = Some a \<and> committed rs (wr_transaction_id r) \<longrightarrow>
     rc_view rc (al_page_id a) \<noteq> None \<or> pm_page_count (rc_pages rc) \<le> al_page_id a)"

text \<open>Nothing of a record is left to do.\<close>

definition caught_up :: "wal_record list \<Rightarrow> wal_record \<Rightarrow> (PageId \<rightharpoonup> page) \<Rightarrow> bool" where
  "caught_up rs r V \<longleftrightarrow> (committed rs (wr_transaction_id r) \<longrightarrow> (\<forall>a. allocation_of r = Some a \<longrightarrow> V (al_page_id a) \<noteq> None) \<and>
     (\<forall>m. mutation_of r = Some m \<longrightarrow> (\<exists>p. V (mu_page_id (mr_mutation m)) = Some p \<and> mr_lsn m \<le> pg_lsn p)))"

lemma redo_view_dom [simp]: "redo_view l m V i = None \<longleftrightarrow> V i = None"
  by (auto simp: redo_view_def split: option.split)

lemma redo_step_none: "redo_step rs r V i = None \<Longrightarrow> V i = None"
  by (auto simp: redo_step_def split: if_splits option.splits)

lemma redo_step_lsn: "V i = Some p \<Longrightarrow> \<exists>q. redo_step rs r V i = Some q \<and> pg_lsn p \<le> pg_lsn q"
  by (auto simp: redo_step_def redo_view_def split: option.split)

lemma caught_up_step: "caught_up rs r V \<Longrightarrow> caught_up rs r (redo_step rs q V)"
proof -
  assume c: "caught_up rs r V"
  have "\<exists>p'. redo_step rs q V i = Some p' \<and> l \<le> pg_lsn p'" if "V i = Some p" "l \<le> pg_lsn p" for i l p
    using redo_step_lsn [of V i p rs q] that by (auto intro: order_trans)
  with c show ?thesis unfolding caught_up_def using redo_step_none by metis
qed

lemma caught_up_done: "caught_up rs r V \<Longrightarrow> redo_step rs r V = V"
  by (auto simp: caught_up_def redo_step_def redo_view_def split: option.split)

lemma caught_up_fold: "\<forall>r \<in> set rs'. caught_up rs r V \<Longrightarrow> fold (redo_step rs) rs' V = V"
  by (induction rs' arbitrary: V) (simp_all add: caught_up_done)

text \<open>What a record makes REDO do, found through the analysis, and the number of pages in the file afterwards.\<close>

lemma redo_record_run:
  assumes "log_state rs st" "r \<in> set rs"
  shows "wp (redo_record st r me) (\<lambda>_. Q) E rc =
    (if \<not> committed rs (wr_transaction_id r) then Q rc
     else case allocation_of r of
       Some a \<Rightarrow> wp (redo_page_allocate (al_page_id a)) (\<lambda>_. Q) E rc
     | None \<Rightarrow> (case mutation_of r of
         Some m \<Rightarrow> wp (redo_physical_mutation (mr_lsn m) (mr_mutation m)) (\<lambda>_. Q) E rc
       | None \<Rightarrow> Q rc))"
proof -
  obtain ta where ta: "transaction_at (wr_transaction_id r) st = Some ta" "ta_status ta = status_in rs (wr_transaction_id r)"
    using log_stateD(6) [OF assms] by auto
  consider "wr_type r = PageAllocate" | "wr_type r = PhysicalMutation" | "wr_type r \<notin> {PageAllocate, PhysicalMutation}" by blast
  then show ?thesis
  proof cases
    case 1
    then show ?thesis using find_entry(2) [OF assms 1] ta by (auto simp: redo_record_def Let_def wp_ret wp_bindE wp_funs)
  next
    case 2
    then obtain m where m: "mutation_of r = Some m"
        "find (\<lambda>m. mr_lsn m = wr_lsn r \<and> mr_transaction_id m = wr_transaction_id r) (rv_mutations st) = Some m"
      using find_entry(1) [OF assms 2] by blast
    with 2 ta mutation_of_Some [OF m(1)] show ?thesis by (simp add: redo_record_def Let_def wp_ret wp_bindE wp_funs allocation_of_def)
  next
    case 3
    then show ?thesis using ta by (simp add: redo_record_def Let_def wp_ret allocation_of_def mutation_of_def)
  qed
qed

definition next_count :: "wal_record list \<Rightarrow> wal_record \<Rightarrow> uint64 \<Rightarrow> uint64" where
  "next_count rs r n = (case allocation_of r of None \<Rightarrow> n | Some a \<Rightarrow> if committed rs (wr_transaction_id r) \<and> al_page_id a = n then n + 1 else n)"

lemma redo_record_spec:
  assumes "log_state rs st" "r \<in> set rs" "replay_ok rc" "contiguous rs rc"
  shows "wp (redo_record st r me)
    (\<lambda>_ rc'. replay_ok rc' \<and> contiguous rs rc' \<and> rc_reconstructed_pages rc' = rc_reconstructed_pages rc \<and> rc_view rc' = redo_step rs r (rc_view rc) \<and>
       caught_up rs r (rc_view rc') \<and> pm_page_count (rc_pages rc') = next_count rs r (pm_page_count (rc_pages rc)))
    (\<lambda>_ rc'. replay_ok rc') rc"
proof (cases "committed rs (wr_transaction_id r)")
  case False
  then show ?thesis
    using assms(3,4) by (simp add: redo_record_run [OF assms(1,2)] redo_step_def caught_up_def next_count_def split: option.split)
next
  case c: True
  show ?thesis
  proof (cases "allocation_of r")
    case a: (Some a)
    let ?i = "al_page_id a" and ?n = "pm_page_count (rc_pages rc)"
    have step: "redo_step rs r V = (if V ?i = None then V(?i \<mapsto> new_page ?i) else V)" for V by (simp add: redo_step_def c a)
    have none: "mutation_of r = None" using allocation_of_Some [OF a] by (simp add: mutation_of_def)
    show ?thesis
      unfolding redo_record_run [OF assms(1,2)] a option.case if_not_P [OF not_not [THEN iffD2, OF c]]
    proof (rule wp_mono [OF redo_page_allocate_spec [OF assms(3)]], goal_cases)
      case (1 u rc')
      then obtain p where rc': "replay_ok rc'" "rc_reconstructed_pages rc' = rc_reconstructed_pages rc"
          "rc_view rc' = (rc_view rc)(?i \<mapsto> p)" "rc_view rc ?i = Some p \<or> rc_view rc ?i = None \<and> (?i = ?n \<longrightarrow> p = new_page ?i)"
          "?i \<le> ?n" "pm_page_count (rc_pages rc') = (if ?i = ?n then ?i + 1 else ?n)"
        by (auto simp: redo_allocated_def)
      have "?n \<le> ?i" if "rc_view rc ?i = None" using assms(2,4) a c that by (auto simp: contiguous_def)
      with rc'(4,5) have "rc_view rc ?i = Some p \<or> rc_view rc ?i = None \<and> p = new_page ?i" by auto
      with rc'(3) have view: "rc_view rc' = redo_step rs r (rc_view rc)" by (auto simp: step fun_upd_idem)
      have "contiguous rs rc'"
        unfolding contiguous_def rc'(3)
      proof (intro ballI allI impI)
        fix q b assume q: "q \<in> set rs" "allocation_of q = Some b \<and> committed rs (wr_transaction_id q)"
        then have "rc_view rc (al_page_id b) \<noteq> None \<or> ?n \<le> al_page_id b" using assms(4) by (auto simp: contiguous_def)
        moreover have "?i + 1 \<le> al_page_id b" if "?i = ?n" "?n \<le> al_page_id b" "al_page_id b \<noteq> ?i"
          using that by (intro inc_le) auto
        ultimately show "((rc_view rc)(?i \<mapsto> p)) (al_page_id b) \<noteq> None \<or> pm_page_count (rc_pages rc') \<le> al_page_id b"
          using rc'(6) by auto
      qed
      moreover have "caught_up rs r (rc_view rc')" by (simp add: caught_up_def rc'(3) a none)
      moreover have "pm_page_count (rc_pages rc') = next_count rs r ?n" using rc'(6) c by (simp add: next_count_def a)
      ultimately show ?case using rc'(1,2) view by simp
    qed simp
  next
    case none: None
    show ?thesis
    proof (cases "mutation_of r")
      case None
      then show ?thesis using assms(3,4) c none by (simp add: redo_record_run [OF assms(1,2)] redo_step_def caught_up_def next_count_def)
    next
      case m: (Some m)
      show ?thesis
        unfolding redo_record_run [OF assms(1,2)] none m option.case if_not_P [OF not_not [THEN iffD2, OF c]]
        by (rule wp_mono [OF redo_physical_mutation_spec [OF assms(3)]])
           (use assms(4) mutation_of_Some [OF m] in \<open>auto simp: redo_step_def c m none contiguous_def caught_up_def redo_view_def next_count_def\<close>)
    qed
  qed
qed

lemma redo_records_spec:
  assumes "log_state rs st" "set rs' \<subseteq> set rs" "replay_ok rc" "contiguous rs rc"
  shows "wp (redo_records st rs' me)
    (\<lambda>_ rc'. replay_ok rc' \<and> contiguous rs rc' \<and> rc_reconstructed_pages rc' = rc_reconstructed_pages rc \<and> rc_view rc' = fold (redo_step rs) rs' (rc_view rc) \<and>
       (\<forall>r \<in> set rs'. caught_up rs r (rc_view rc')))
    (\<lambda>_ rc'. replay_ok rc') rc"
  using assms(2-4)
proof (induction rs' arbitrary: me rc)
  case Nil
  then show ?case by (simp add: wp_ret)
next
  case (Cons r rs')
  have keep: "caught_up rs r V \<Longrightarrow> caught_up rs r (fold (redo_step rs) qs V)" for qs V
    by (induction qs arbitrary: V) (simp_all add: caught_up_step)
  have r: "r \<in> set rs" "set rs' \<subseteq> set rs" using Cons.prems(1) by simp_all
  show ?case
    unfolding redo_records.simps wp_bindE
  proof (rule wp_mono [OF redo_record_spec [OF assms(1) r(1) Cons.prems(2,3)]], goal_cases)
    case (1 me' rc')
    then have rc': "replay_ok rc'" "contiguous rs rc'" by simp_all
    show ?case by (rule wp_mono [OF Cons.IH [OF r(2) rc', of me']]) (use 1 keep in auto)
  qed simp
qed

lemma redo_run_spec:
  assumes "log_state rs st" "replay_ok rc" "contiguous rs rc"
  shows "wp (redo_run st)
    (\<lambda>_ rc'. replay_ok rc' \<and> contiguous rs rc' \<and> rc_reconstructed_pages rc' = rc_reconstructed_pages rc \<and> rc_view rc' = fold (redo_step rs) rs (rc_view rc) \<and>
       (\<forall>r \<in> set rs. caught_up rs r (rc_view rc')))
    (\<lambda>_ rc'. replay_ok rc') rc"
proof -
  have "rc_active rc" using assms(2) by (simp add: replay_ok_def)
  then show ?thesis
    using redo_records_spec [OF assms(1) order_refl assms(2,3)] log_stateD(1) [OF assms(1)] by (simp add: redo_run_def wp_bindE wp_gets wp_require)
qed

section \<open>UNDO\<close>

text \<open>The history of a page in the log, the mutations of it that committed, and those that did not.\<close>

definition history :: "wal_record list \<Rightarrow> PageId \<Rightarrow> mutation_record list" where
  "history rs i = filter (\<lambda>m. mu_page_id (mr_mutation m) = i) (log_mutations rs)"

definition winners :: "wal_record list \<Rightarrow> PageId \<Rightarrow> mutation_record list" where
  "winners rs i = filter (\<lambda>m. committed rs (mr_transaction_id m)) (history rs i)"

definition losers :: "wal_record list \<Rightarrow> PageId \<Rightarrow> mutation_record list" where
  "losers rs i = filter (\<lambda>m. \<not> committed rs (mr_transaction_id m)) (history rs i)"

definition base_image :: "wal_record list \<Rightarrow> PageId \<Rightarrow> byte list" where
  "base_image rs i = mu_before_image (mr_mutation (hd (history rs i)))"

definition rebuilt_image :: "wal_record list \<Rightarrow> PageId \<Rightarrow> byte list" where
  "rebuilt_image rs i = fold (\<lambda>m. apply_delta (mr_mutation m)) (winners rs i) (base_image rs i)"

definition rebuilt_lsn :: "wal_record list \<Rightarrow> PageId \<Rightarrow> uint64" where
  "rebuilt_lsn rs i = (if winners rs i = [] then 0 else mr_lsn (last (winners rs i)))"

definition lost_allocations :: "wal_record list \<Rightarrow> PageId set" where
  "lost_allocations rs = {al_page_id a |a. a \<in> set (log_allocations rs) \<and> \<not> committed rs (al_transaction_id a)}"

lemma map_indexes: "map (\<lambda>k. xs ! k) (indexes P xs) = filter P xs"
proof (induction xs rule: rev_induct)
  case (snoc x xs)
  have "map (\<lambda>k. (xs @ [x]) ! k) (indexes P xs) = map (\<lambda>k. xs ! k) (indexes P xs)"
    by (rule map_cong) (auto simp: indexes_def nth_append)
  with snoc show ?case by (simp add: indexes_snoc)
qed (simp add: indexes_def)

lemma at_all_indexes: "at_all xs (indexes P xs) = Inr (filter P xs)"
  by (simp add: at_all_def map_indexes) (simp add: indexes_def list_all_iff)

lemma log_mutation_record:
  assumes "m \<in> set (log_mutations rs)"
  obtains r where "r \<in> set rs" "mutation_of r = Some m"
  using assms by (auto simp: List.map_filter_def)

lemma log_allocation_record:
  assumes "a \<in> set (log_allocations rs)"
  obtains r where "r \<in> set rs" "allocation_of r = Some a"
  using assms by (auto simp: List.map_filter_def)

lemma collect_losers_entries:
  assumes "log_state rs st" "\<And>k ta. (k, ta) \<in> set ts \<Longrightarrow> ta = (summary rs k)\<lparr>ta_status := status_in rs k\<rparr>"
  shows "\<exists>ms as. collect_losers st ts = Inr (ms, as) \<and>
    set ms = {m \<in> set (log_mutations rs). mr_transaction_id m \<in> fst ` set ts \<and> \<not> committed rs (mr_transaction_id m)} \<and>
    set as = {a \<in> set (log_allocations rs). al_transaction_id a \<in> fst ` set ts \<and> \<not> committed rs (al_transaction_id a)}"
  using assms(2)
proof (induction ts)
  case (Cons e ts)
  obtain k ta where e: "e = (k, ta)" by (cases e)
  have ta: "ta = (summary rs k)\<lparr>ta_status := status_in rs k\<rparr>" using Cons.prems [of k ta] by (simp add: e)
  from Cons obtain ms as where IH: "collect_losers st ts = Inr (ms, as)"
      "set ms = {m \<in> set (log_mutations rs). mr_transaction_id m \<in> fst ` set ts \<and> \<not> committed rs (mr_transaction_id m)}"
      "set as = {a \<in> set (log_allocations rs). al_transaction_id a \<in> fst ` set ts \<and> \<not> committed rs (al_transaction_id a)}" by auto
  note l = log_stateD [OF assms(1)]
  show ?case
  proof (cases "committed rs k")
    case True
    then have "collect_losers st (e # ts) = Inr (ms, as)" by (simp add: e ta IH(1))
    with IH(2,3) True show ?thesis by (auto simp: e)
  next
    case False
    then have "collect_losers st (e # ts) = Inr (filter (\<lambda>m. mr_transaction_id m = k) (log_mutations rs) @ ms, filter (\<lambda>a. al_transaction_id a = k) (log_allocations rs) @ as)"
      by (simp add: e ta summary_def IH(1) l(2,3) at_all_indexes)
    with IH(2,3) False show ?thesis by (auto simp: e)
  qed
qed simp

lemma collect_losers_spec:
  assumes "log_state rs st"
  obtains ms as where "collect_losers st (rv_transactions st) = Inr (ms, as)"
    "set ms = {m \<in> set (log_mutations rs). \<not> committed rs (mr_transaction_id m)}"
    "set as = {a \<in> set (log_allocations rs). \<not> committed rs (al_transaction_id a)}"
proof -
  have tr: "transaction_at k st = (if k \<in> wr_transaction_id ` set rs then Some ((summary rs k)\<lparr>ta_status := status_in rs k\<rparr>) else None)" for k
    using assms by (simp add: log_state_def analysis_of_def)
  have "ta = (summary rs k)\<lparr>ta_status := status_in rs k\<rparr>" if "(k, ta) \<in> set (rv_transactions st)" for k ta
    using that entry_iff [OF log_stateD(8) [OF assms], of k ta] tr [of k] by (auto simp: transaction_at_def split: if_splits)
  from collect_losers_entries [OF assms this] obtain ms as where c: "collect_losers st (rv_transactions st) = Inr (ms, as)"
    "set ms = {m \<in> set (log_mutations rs). mr_transaction_id m \<in> fst ` set (rv_transactions st) \<and> \<not> committed rs (mr_transaction_id m)}"
    "set as = {a \<in> set (log_allocations rs). al_transaction_id a \<in> fst ` set (rv_transactions st) \<and> \<not> committed rs (al_transaction_id a)}" by blast
  have known: "wr_transaction_id r \<in> fst ` set (rv_transactions st)" if "r \<in> set rs" for r
    using tr [of "wr_transaction_id r"] that map_of_SomeD [of "rv_transactions st"] unfolding transaction_at_def by force
  have "mr_transaction_id m \<in> fst ` set (rv_transactions st)" if "m \<in> set (log_mutations rs)" for m
    using known that by (auto elim!: log_mutation_record dest!: mutation_of_Some)
  moreover have "al_transaction_id a \<in> fst ` set (rv_transactions st)" if "a \<in> set (log_allocations rs)" for a
    using known that by (auto elim!: log_allocation_record dest!: allocation_of_Some)
  ultimately show thesis using that [OF c(1)] c(2,3) by auto
qed

text \<open>The history the engine sorts is already in order.\<close>

lemma page_history_eq:
  assumes "log_state rs st"
  shows "page_history st i = history rs i"
proof -
  have "sorted_wrt (<) (map wr_lsn rs)" using assms by (simp add: log_state_def log_ok_def increasing_def sorted_wrt_map)
  then have "sorted_wrt (<) (map mr_lsn (log_mutations rs))"
  proof (induction rs)
    case (Cons r rs)
    have "wr_lsn r < mr_lsn m" if "m \<in> set (log_mutations rs)" for m
      using that Cons.prems by (auto elim!: log_mutation_record dest!: mutation_of_Some)
    with Cons show ?case by (auto simp: List.map_filter_simps dest: mutation_of_Some split: option.split)
  qed (simp add: List.map_filter_simps)
  then have "sorted (map mr_lsn (log_mutations rs))" by (simp add: strict_sorted_iff)
  then have "sorted (map mr_lsn (history rs i))" by (simp add: history_def sorted_filter)
  with log_stateD(3) [OF assms] show ?thesis by (simp add: page_history_def mutations_for_page_def history_def sorted_sort_id sort_key_id_if_sorted)
qed

lemma apply_survivors_spec:
  assumes "log_state rs st" "set ms \<subseteq> set (log_mutations rs)"
  shows "apply_survivors st ms img l = Inr (let ws = filter (\<lambda>m. committed rs (mr_transaction_id m)) ms in
     (fold (\<lambda>m. apply_delta (mr_mutation m)) ws img, if ws = [] then l else mr_lsn (last ws)))"
  using assms(2)
proof (induction ms arbitrary: img l)
  case (Cons m ms)
  then obtain r where "r \<in> set rs" "mutation_of r = Some m" by (auto elim: log_mutation_record)
  then obtain ta where "transaction_at (mr_transaction_id m) st = Some ta" "ta_status ta = status_in rs (mr_transaction_id m)"
    using log_stateD(6) [OF assms(1)] mutation_of_Some by fastforce
  with Cons show ?case by (simp add: Let_def)
qed simp

lemma history_record:
  assumes "m \<in> set (history rs i)"
  obtains r where "r \<in> set rs" "mutation_of r = Some m" "mu_page_id (mr_mutation m) = i" "is_valid i"
    "length (mu_before_image (mr_mutation m)) = kPagePayloadSize" "length (mu_after_image (mr_mutation m)) = kPagePayloadSize"
  using assms decoded_mutation mutation_of_Some by (fastforce simp: history_def elim!: log_mutation_record)

lemma length_apply_delta [simp]: "length (apply_delta m img) = length img"
  by (simp add: apply_delta_def)

lemma undo_page_run:
  assumes "log_state rs st"
  shows "wp (undo_page st i me) (\<lambda>_. Q) E rc = wp (reconstruct_page i (rebuilt_image rs i) (rebuilt_lsn rs i)) (\<lambda>_. Q) E rc"
proof -
  have h: "apply_survivors st (history rs i) img l = Inr (fold (\<lambda>m. apply_delta (mr_mutation m)) (winners rs i) img, if winners rs i = [] then l else mr_lsn (last (winners rs i)))" for img l
    using apply_survivors_spec [OF assms, of "history rs i"] by (auto simp: history_def winners_def Let_def)
  show ?thesis
    by (simp add: undo_page_def Let_def page_history_eq [OF assms] h wp_bindE wp_lift_result rebuilt_image_def base_image_def rebuilt_lsn_def wp_funs)
qed

lemma undo_page_spec:
  assumes "log_state rs st" "replay_ok rc" "history rs i \<noteq> []" "i \<notin> rc_reconstructed_pages rc"
  shows "wp (undo_page st i me)
    (\<lambda>_ rc'. replay_ok rc' \<and> rc_reconstructed_pages rc' = insert i (rc_reconstructed_pages rc) \<and>
       (\<exists>p. rc_view rc i = Some p \<and> rc_view rc' = (rc_view rc)(i \<mapsto> p\<lparr>pg_payload := rebuilt_image rs i, pg_lsn := rebuilt_lsn rs i\<rparr>)))
    (\<lambda>_ rc'. replay_ok rc' \<and> rc_view rc' = rc_view rc) rc"
  unfolding undo_page_run [OF assms(1)] by (rule wp_mono [OF reconstruct_page_spec [OF assms(2)]]) (use assms(4) in auto)

text \<open>The pages after UNDO of a set of pages, and after the release of pages.\<close>

definition rebuilt :: "wal_record list \<Rightarrow> PageId set \<Rightarrow> (PageId \<rightharpoonup> page) \<Rightarrow> PageId \<rightharpoonup> page" where
  "rebuilt rs A V i = (if i \<in> A then map_option (\<lambda>p. p\<lparr>pg_payload := rebuilt_image rs i, pg_lsn := rebuilt_lsn rs i\<rparr>) (V i) else V i)"

lemma undo_pages_spec:
  assumes "log_state rs st" "replay_ok rc" "distinct is" "\<forall>i \<in> set is. history rs i \<noteq> []" "set is \<inter> rc_reconstructed_pages rc = {}"
  shows "wp (undo_pages st is me)
    (\<lambda>_ rc'. replay_ok rc' \<and> rc_view rc' = rebuilt rs (set is) (rc_view rc) \<and> (\<forall>i \<in> set is. rc_view rc i \<noteq> None))
    (\<lambda>_ rc'. replay_ok rc') rc"
  using assms(2-5)
proof (induction "is" arbitrary: me rc)
  case Nil
  then show ?case by (simp add: wp_ret rebuilt_def fun_eq_iff)
next
  case (Cons i "is")
  have i: "history rs i \<noteq> []" "i \<notin> rc_reconstructed_pages rc" using Cons.prems by simp_all
  show ?case
    unfolding undo_pages.simps wp_bindE
  proof (rule wp_mono [OF undo_page_spec [OF assms(1) Cons.prems(1) i]], goal_cases)
    case (1 me' rc')
    then obtain p where rc': "replay_ok rc'" "rc_reconstructed_pages rc' = insert i (rc_reconstructed_pages rc)" "rc_view rc i = Some p"
        "rc_view rc' = (rc_view rc)(i \<mapsto> p\<lparr>pg_payload := rebuilt_image rs i, pg_lsn := rebuilt_lsn rs i\<rparr>)" by auto
    have d: "distinct is" "\<forall>i \<in> set is. history rs i \<noteq> []" "set is \<inter> rc_reconstructed_pages rc' = {}" "i \<notin> set is"
      using Cons.prems rc'(2) by auto
    show ?case
    proof (rule wp_mono [OF Cons.IH [OF rc'(1) d(1-3), of me']], goal_cases)
      case (1 u rc2)
      have "rebuilt rs (set is) (rc_view rc') = rebuilt rs (set (i # is)) (rc_view rc)"
        using d(4) rc'(3,4) by (auto simp: rebuilt_def fun_eq_iff)
      moreover have "\<forall>j \<in> set (i # is). rc_view rc j \<noteq> None" using 1 rc'(3,4) d(4) by (auto split: if_splits)
      ultimately show ?case using 1 by simp
    qed simp
  qed simp
qed

lemma release_allocations_spec:
  assumes "replay_ok rc"
  shows "wp (release_allocations as me)
    (\<lambda>_ rc'. replay_ok rc' \<and> rc_view rc' = (\<lambda>i. if i \<in> al_page_id ` set as then None else rc_view rc i)) (\<lambda>_ rc'. replay_ok rc') rc"
  using assms
proof (induction as arbitrary: me rc)
  case (Cons a as)
  show ?case
    unfolding release_allocations.simps wp_bindE
  proof (rule wp_mono [OF undo_page_allocate_spec [OF Cons.prems]], goal_cases)
    case (1 b rc')
    then show ?case by (intro wp_mono [OF Cons.IH [of rc']]) auto
  qed simp
qed (simp add: wp_ret)

lemma affected_pages_spec:
  assumes "set ms = {m \<in> set (log_mutations rs). \<not> committed rs (mr_transaction_id m)}"
  shows "distinct (affected_pages ms)" "set (affected_pages ms) = {i. losers rs i \<noteq> []}"
  using assms by (auto simp: affected_pages_def losers_def history_def filter_empty_conv)

lemma undo_run_spec:
  assumes "log_state rs st" "replay_ok rc" "rc_reconstructed_pages rc = {}"
  shows "wp (undo_run st)
    (\<lambda>_ rc'. replay_ok rc' \<and> rc_view rc' = (\<lambda>i. if i \<in> lost_allocations rs then None else rebuilt rs {i. losers rs i \<noteq> []} (rc_view rc) i) \<and>
       (\<forall>i. losers rs i \<noteq> [] \<longrightarrow> rc_view rc i \<noteq> None))
    (\<lambda>_ rc'. replay_ok rc') rc"
proof -
  obtain ms as where c: "collect_losers st (rv_transactions st) = Inr (ms, as)"
      and ms: "set ms = {m \<in> set (log_mutations rs). \<not> committed rs (mr_transaction_id m)}"
      and as: "set as = {a \<in> set (log_allocations rs). \<not> committed rs (al_transaction_id a)}"
    by (rule collect_losers_spec [OF assms(1)])
  note aff = affected_pages_spec [OF ms]
  have lost: "lost_allocations rs = al_page_id ` set (rev (sort_key al_lsn as))" by (auto simp: lost_allocations_def as)
  have h: "\<forall>i \<in> set (affected_pages ms). history rs i \<noteq> []" "set (affected_pages ms) \<inter> rc_reconstructed_pages rc = {}"
    using aff(2) assms(3) by (auto simp: losers_def)
  have act: "rc_active rc" using assms(2) by (simp add: replay_ok_def)
  show ?thesis
    unfolding undo_run_def using act
  proof (simp add: wp_bindE wp_gets wp_require wp_lift_result c, intro wp_mono [OF undo_pages_spec [OF assms(1,2) aff(1) h]], goal_cases)
    case (1 me rc1)
    then have rc1: "replay_ok rc1" by simp
    show ?case unfolding wp_bindE by (rule wp_mono [OF release_allocations_spec [OF rc1]]) (use 1 aff(2) lost in \<open>auto simp: wp_ret\<close>)
  qed simp
qed

section \<open>The bytes that survive\<close>

text \<open>A byte of a page after recovery: the one written by the last committed mutation that changed it, or that of the earliest image.\<close>

definition surviving_byte :: "wal_record list \<Rightarrow> PageId \<Rightarrow> nat \<Rightarrow> byte" where
  "surviving_byte rs i k =
     (case find (\<lambda>m. mu_before_image (mr_mutation m) ! k \<noteq> mu_after_image (mr_mutation m) ! k) (rev (winners rs i)) of
        None \<Rightarrow> base_image rs i ! k | Some m \<Rightarrow> mu_after_image (mr_mutation m) ! k)"

lemma fold_delta_nth:
  fixes ws :: "mutation_record list"
  shows "length (fold (\<lambda>m. apply_delta (mr_mutation m)) ws img) = length img"
    and "k < length img \<Longrightarrow> fold (\<lambda>m. apply_delta (mr_mutation m)) ws img ! k =
      (case find (\<lambda>m. mu_before_image (mr_mutation m) ! k \<noteq> mu_after_image (mr_mutation m) ! k) (rev ws) of
         None \<Rightarrow> img ! k | Some m \<Rightarrow> mu_after_image (mr_mutation m) ! k)"
proof -
  show len: "length (fold (\<lambda>m. apply_delta (mr_mutation m)) ws img) = length img" for ws :: "mutation_record list"
    by (induction ws rule: rev_induct) simp_all
  show "k < length img \<Longrightarrow> fold (\<lambda>m. apply_delta (mr_mutation m)) ws img ! k =
      (case find (\<lambda>m. mu_before_image (mr_mutation m) ! k \<noteq> mu_after_image (mr_mutation m) ! k) (rev ws) of
         None \<Rightarrow> img ! k | Some m \<Rightarrow> mu_after_image (mr_mutation m) ! k)"
    by (induction ws rule: rev_induct) (simp_all add: apply_delta_def len)
qed

lemma rebuilt_image_bytes:
  assumes "history rs i \<noteq> []"
  shows "rebuilt_image rs i = map (surviving_byte rs i) [0..<kPagePayloadSize]"
proof -
  have "hd (history rs i) \<in> set (history rs i)" using assms by simp
  then have len: "length (base_image rs i) = kPagePayloadSize" unfolding base_image_def by (rule history_record)
  show ?thesis
    by (rule nth_equalityI) (simp_all add: rebuilt_image_def fold_delta_nth len surviving_byte_def)
qed

text \<open>If every committed mutation started from what the previous one left, the last one gives the page.\<close>

fun chained :: "byte list \<Rightarrow> mutation_record list \<Rightarrow> bool" where
  "chained img [] \<longleftrightarrow> True"
| "chained img (m # ms) \<longleftrightarrow> mu_before_image (mr_mutation m) = img \<and> chained (mu_after_image (mr_mutation m)) ms"

definition committed_image :: "wal_record list \<Rightarrow> PageId \<Rightarrow> byte list" where
  "committed_image rs i = (if winners rs i = [] then base_image rs i else mu_after_image (mr_mutation (last (winners rs i))))"

lemma apply_delta_before: "length (mu_after_image m) = length (mu_before_image m) \<Longrightarrow> apply_delta m (mu_before_image m) = mu_after_image m"
  by (rule nth_equalityI) (simp_all add: apply_delta_def)

lemma fold_chained:
  fixes ws :: "mutation_record list"
  assumes "chained img ws" "\<forall>m \<in> set ws. length (mu_after_image (mr_mutation m)) = length (mu_before_image (mr_mutation m))"
  shows "fold (\<lambda>m. apply_delta (mr_mutation m)) ws img = (if ws = [] then img else mu_after_image (mr_mutation (last ws)))"
  using assms by (induction ws arbitrary: img) (auto simp: apply_delta_before)

lemma rebuilt_chained:
  assumes "chained (base_image rs i) (winners rs i)"
  shows "rebuilt_image rs i = committed_image rs i"
proof -
  have "length (mu_after_image (mr_mutation m)) = length (mu_before_image (mr_mutation m))" if "m \<in> set (winners rs i)" for m
    using that by (auto simp: winners_def elim!: history_record)
  with fold_chained [OF assms] show ?thesis by (simp add: rebuilt_image_def committed_image_def)
qed

section \<open>Pages without losers\<close>

text \<open>Where REDO has left a page: it is as before, new, or holds the after image of a committed mutation.\<close>

lemma redo_fold_origin:
  assumes "set rs' \<subseteq> set rs" "fold (redo_step rs) rs' V i = Some p"
  shows "V i = Some p \<or> V i = None \<and> p = new_page i \<or>
    (\<exists>m \<in> set (winners rs i). pg_payload p = mu_after_image (mr_mutation m) \<and> pg_lsn p = mr_lsn m)"
  using assms
proof (induction rs' arbitrary: p rule: rev_induct)
  case (snoc r rs')
  let ?V = "fold (redo_step rs) rs' V"
  have r: "r \<in> set rs" and IH: "\<And>q. ?V i = Some q \<Longrightarrow> V i = Some q \<or> V i = None \<and> q = new_page i \<or>
    (\<exists>m \<in> set (winners rs i). pg_payload q = mu_after_image (mr_mutation m) \<and> pg_lsn q = mr_lsn m)"
    using snoc by simp_all
  have none: "V i = None" if "?V i = None"
  proof -
    have "fold (redo_step rs) qs W i = None \<Longrightarrow> W i = None" for qs W
      by (induction qs arbitrary: W) (auto dest: redo_step_none)
    then show ?thesis using that .
  qed
  have step: "redo_step rs r ?V i = Some p" using snoc.prems(2) by simp
  consider "?V i = Some p" | "?V i = None" "p = new_page i"
    | m where "mutation_of r = Some m" "committed rs (wr_transaction_id r)" "mu_page_id (mr_mutation m) = i"
        "pg_payload p = mu_after_image (mr_mutation m)" "pg_lsn p = mr_lsn m"
    using step by (auto simp: redo_step_def redo_view_def split: if_splits option.splits)
  then show ?case
  proof cases
    case 1
    then show ?thesis using IH by blast
  next
    case 2
    then show ?thesis using none by blast
  next
    case (3 m)
    have "m \<in> set (log_mutations rs)" using r 3(1) by (force simp: List.map_filter_def)
    with 3 mutation_of_Some [OF 3(1)] have "m \<in> set (winners rs i)" by (simp add: winners_def history_def)
    with 3 show ?thesis by blast
  qed
qed simp

text \<open>\<open>stored_version rs i p\<close>: the page a crash left is not newer than the log and is the newest version if it claims so.\<close>

definition stored_version :: "wal_record list \<Rightarrow> PageId \<Rightarrow> page \<Rightarrow> bool" where
  "stored_version rs i p \<longleftrightarrow> pg_lsn p \<le> mr_lsn (last (winners rs i)) \<and>
     (pg_lsn p = mr_lsn (last (winners rs i)) \<longrightarrow> pg_payload p = mu_after_image (mr_mutation (last (winners rs i))))"

lemma winner_record:
  assumes "m \<in> set (winners rs i)"
  obtains r where "r \<in> set rs" "mutation_of r = Some m"
proof -
  have "m \<in> set (log_mutations rs)" using assms by (simp add: winners_def history_def)
  then show thesis using that by (rule log_mutation_record)
qed

lemma last_winner:
  assumes "log_state rs st" "m \<in> set (winners rs i)"
  defines "w \<equiv> last (winners rs i)"
  shows "mr_lsn m \<le> mr_lsn w" "mr_lsn m = mr_lsn w \<Longrightarrow> m = w" "mr_lsn m \<noteq> 0"
proof -
  have "sorted (map mr_lsn (page_history st i))" by (simp add: page_history_def)
  then have srt: "sorted (map mr_lsn (winners rs i))" by (simp add: page_history_eq [OF assms(1)] winners_def sorted_filter)
  obtain us where us: "winners rs i = us @ [w]" using assms(2) unfolding w_def by (metis append_butlast_last_id empty_iff empty_set)
  from srt assms(2) show "mr_lsn m \<le> mr_lsn w" unfolding us by (auto simp: sorted_append)
  obtain r where r: "r \<in> set rs" "mutation_of r = Some m" by (rule winner_record [OF assms(2)])
  have "w \<in> set (winners rs i)" by (simp add: us)
  then obtain q where q: "q \<in> set rs" "mutation_of q = Some w" by (rule winner_record)
  note rm = mutation_of_Some [OF r(2)] and qm = mutation_of_Some [OF q(2)]
  show "mr_lsn m \<noteq> 0" using log_stateD(5) [OF assms(1) r(1)] rm by simp
  assume "mr_lsn m = mr_lsn w"
  then have "wr_lsn q = wr_lsn r" using rm qm by metis
  then have "q = r" by (rule log_stateD(7) [OF assms(1) q(1) r(1)])
  with r(2) q(2) show "m = w" by simp
qed

lemma redo_reaches_last:
  assumes "log_state rs st" "winners rs i \<noteq> []" "\<forall>r \<in> set rs. caught_up rs r (fold (redo_step rs) rs V)"
    "\<And>p. V i = Some p \<Longrightarrow> stored_version rs i p"
  obtains p where "fold (redo_step rs) rs V i = Some p" "pg_payload p = committed_image rs i" "pg_lsn p = rebuilt_lsn rs i"
proof -
  let ?w = "last (winners rs i)" and ?V = "fold (redo_step rs) rs V"
  have w: "?w \<in> set (winners rs i)" using assms(2) by simp
  then obtain r where r: "r \<in> set rs" "mutation_of r = Some ?w" by (rule winner_record)
  have i: "mu_page_id (mr_mutation ?w) = i" "committed rs (wr_transaction_id r)"
    using w mutation_of_Some [OF r(2)] by (simp_all add: winners_def history_def)
  then obtain p where p: "?V i = Some p" "mr_lsn ?w \<le> pg_lsn p" using assms(3) r by (fastforce simp: caught_up_def)
  have nz: "mr_lsn ?w \<noteq> 0" by (rule last_winner(3) [OF assms(1) w])
  from redo_fold_origin [OF order_refl p(1)] have "pg_payload p = mu_after_image (mr_mutation ?w) \<and> pg_lsn p = mr_lsn ?w"
  proof (elim disjE bexE)
    assume "V i = Some p"
    with assms(4) p(2) show ?thesis by (auto simp: stored_version_def)
  next
    assume "V i = None \<and> p = new_page i"
    with p(2) nz show ?thesis by (simp add: new_page_def)
  next
    fix m assume m: "m \<in> set (winners rs i)" "pg_payload p = mu_after_image (mr_mutation m) \<and> pg_lsn p = mr_lsn m"
    with p(2) last_winner(1) [OF assms(1) m(1)] have "mr_lsn m = mr_lsn ?w" by simp
    then have "m = ?w" by (rule last_winner(2) [OF assms(1) m(1)])
    with m(2) show ?thesis by simp
  qed
  then have "pg_payload p = mu_after_image (mr_mutation ?w)" "pg_lsn p = mr_lsn ?w" by blast+
  then show thesis using that [OF p(1)] assms(2) unfolding committed_image_def rebuilt_lsn_def by argo
qed

text \<open>A page without records in the log is left alone by REDO.\<close>

lemma redo_other:
  assumes "history rs i = []" "\<And>a. a \<in> set (log_allocations rs) \<Longrightarrow> al_page_id a \<noteq> i"
  shows "fold (redo_step rs) rs V i = V i"
proof -
  have "set rs' \<subseteq> set rs \<Longrightarrow> fold (redo_step rs) rs' V i = V i" for rs'
  proof (induction rs' arbitrary: V)
    case (Cons r rs')
    have "al_page_id a \<noteq> i" if "allocation_of r = Some a" for a
      using that assms(2) [of a] Cons.prems by (force simp: List.map_filter_def)
    moreover have "mu_page_id (mr_mutation m) \<noteq> i" if "mutation_of r = Some m" for m
      using that assms(1) Cons.prems by (force simp: history_def filter_empty_conv List.map_filter_def)
    ultimately have "redo_step rs r V i = V i" by (auto simp: redo_step_def redo_view_def split: option.split)
    with Cons show ?case by simp
  qed simp
  then show ?thesis by simp
qed

end
