(* ===== verification/RecoveryReturns.thy ===== *)
theory RecoveryReturns
  imports RecoveryPasses
begin

text \<open>
  Recovery returns: on a device without faults, with a pool of at least one frame whose log is durable up to the
  sequence number of every page, no operation of a replay throws except for what the log itself asks for.
\<close>

section \<open>A replay that can always make room\<close>

text \<open>\<open>ready d rc\<close>: the log is durable up to \<open>d\<close> and no page is newer than that.\<close>

definition ready :: "uint64 \<Rightarrow> replay \<Rightarrow> bool" where
  "ready d rc \<longleftrightarrow> replay_ok rc \<and> undisturbed d (rc_pool rc) \<and> (\<forall>i p. rc_view rc i = Some p \<longrightarrow> pg_lsn p \<le> d)"

lemma ready_pool: "ready d rc \<Longrightarrow> pool_ready d (rc_pool rc)"
  by (simp add: ready_def replay_ok_def pool_ready_def)

section \<open>The operations of the replay\<close>

text \<open>A program that fetches a page which exists and then cannot fail returns.\<close>

lemma fetch_program_returns:
  assumes "ready d rc" "rc_view rc i \<noteq> None"
    and "\<And>f bp. pc.fetched_at {} i f (rc_pool rc) bp \<Longrightarrow> wp (m (Some f)) (\<lambda>_ _. True) (\<lambda>_ _. False) bp"
    and "\<And>r. keeps (undisturbed d) (m r)"
  shows "wp (in_pool (bindE (fetch_page i) m)) (\<lambda>_ rc'. undisturbed d (rc_pool rc')) (\<lambda>_ _. False) rc"
proof -
  have c: "cache_ok {} (rc_pool rc)" using assms(1) by (simp add: ready_def replay_ok_def)
  show ?thesis
    unfolding wp_in_pool wp_bindE
  proof (rule wp_mono [OF wp_conj [OF fetch_pool_ready [OF ready_pool [OF assms(1)] assms(2)] pc.fetch_law [OF c]]], goal_cases)
    case (1 r bp)
    then obtain f where f: "r = Some f" "pinned_at bp i f" "undisturbed d bp" "pool_view (rc_pool rc) i \<noteq> None" by auto
    with 1 have "pc.fetched_at {} i f (rc_pool rc) bp" by (auto simp: pc.fetched_at_def dest: pinned_at_view)
    from wp_conj [OF assms(3) [OF this] keeps_wp [OF assms(4) f(3)]] f(1) show ?case by (auto elim: wp_mono)
  qed simp
qed

lemma redo_physical_mutation_returns:
  assumes "ready d rc" "rc_view rc (mu_page_id m) \<noteq> None" "lsn \<noteq> 0" "is_valid (mu_page_id m)" "mu_kind m = PayloadWrite"
    "length (mu_after_image m) = kPagePayloadSize" "length (mu_before_image m) = kPagePayloadSize"
  shows "wp (redo_physical_mutation lsn m) (\<lambda>_ rc'. undisturbed d (rc_pool rc')) (\<lambda>_ _. False) rc"
proof -
  have a: "rc_active rc" using assms(1) by (simp add: ready_def replay_ok_def)
  have ch: "pc.changes {} (mu_page_id m) (\<lambda>p. p\<lparr>pg_payload := mu_after_image m, pg_lsn := lsn\<rparr>) f (bindE (set_payload f (mu_after_image m)) (\<lambda>_. set_page_lsn f lsn))" for f
    by (rule pc.changes_bind [OF pc.changes_payload [OF assms(6)] pc.changes_lsn])
  show ?thesis
    unfolding redo_physical_mutation_def wp_bindE [of "gets rc_active"] wp_bindE [of "require _ _"] wp_gets wp_require if_P [OF a]
    unfolding if_P [OF conjI [OF assms(3) conjI [OF assms(4) conjI [OF assms(5) conjI [OF assms(6,7)]]]]]
  proof (rule fetch_program_returns [OF assms(1,2)], goal_cases)
    case (1 f bp)
    show ?case
    proof (cases "lsn \<le> pg_lsn (page_at f bp)")
      case True
      then show ?thesis using pc.release_clean [OF 1] by (auto simp: wp_simps elim!: wp_mono)
    next
      case False
      show ?thesis
        unfolding option.case wp_bindE [of "gets _"] wp_gets if_not_P [OF False]
        by (rule wp_mono [OF pc.change_then_release [OF 1 ch]]) auto
    qed
  next
    case (2 r)
    show ?case by (intro keeps_intros)
  qed
qed

lemma reconstruct_page_returns:
  assumes "ready d rc" "rc_view rc i \<noteq> None" "length bs = kPagePayloadSize"
  shows "wp (reconstruct_page i bs lsn) (\<lambda>_ rc'. undisturbed d (rc_pool rc')) (\<lambda>_ _. False) rc"
proof -
  have a: "rc_active rc" "undisturbed d (rc_pool rc)" using assms(1) by (simp_all add: ready_def replay_ok_def)
  have valid: "is_valid i" using assms(2) dom_pm_pages [of "rc_pages rc"] by (auto simp: pool_view_def is_page_allocated_def split: if_splits)
  have ch: "pc.changes {} i (\<lambda>p. p\<lparr>pg_payload := bs, pg_lsn := lsn\<rparr>) f (bindE (set_payload f bs) (\<lambda>_. set_page_lsn f lsn))" for f
    by (rule pc.changes_bind [OF pc.changes_payload [OF assms(3)] pc.changes_lsn])
  have "wp (in_pool (overwrite_page i bs lsn)) (\<lambda>_ rc'. undisturbed d (rc_pool rc')) (\<lambda>_ _. False) rc"
    unfolding overwrite_page_def
  proof (rule fetch_program_returns [OF assms(1,2)], goal_cases)
    case (1 f bp)
    show ?case unfolding option.case by (rule wp_mono [OF pc.change_then_release [OF 1 ch]]) auto
  next
    case (2 r)
    show ?case by (intro keeps_intros)
  qed
  then show ?thesis
    using a valid assms(3) by (simp add: reconstruct_page_def wp_bindE wp_gets wp_require wp_if wp_funs)
qed

lemma undisturbed_disk: "undisturbed d bp \<Longrightarrow> (fault_free (pm_file (bp_page_manager bp)) \<longrightarrow> fault_free (pm_file pm)) \<Longrightarrow> undisturbed d (bp\<lparr>bp_page_manager := pm\<rparr>)"
  by (simp add: undisturbed_def)

lemma activate_for_redo_returns:
  assumes "replay_ok rc" "undisturbed d (rc_pool rc)" "i < pm_page_count (rc_pages rc)"
  shows "wp (activate_for_redo i) (\<lambda>_ rc'. undisturbed d (rc_pool rc')) (\<lambda>_ _. False) rc"
proof -
  let ?pm = "rc_pages rc"
  have wf: "wf_pm ?pm" and ff: "fault_free (pm_file ?pm)"
    using assms(1,2) cache_okD(2) [of "{}" "rc_pool rc"] by (simp_all add: replay_ok_def pool_inv_def undisturbed_def)
  show ?thesis
    unfolding activate_for_redo_def wp_bindE [of "in_pool _"] wp_pages
  proof (rule wp_mono [OF validate_physical_page_spec [OF wf]], goal_cases)
    case (1 u pm)
    then have pm: "wf_pm pm" "pm_page_count pm = pm_page_count ?pm" "fault_free (pm_file pm)" using ff same_metaD(1) [of ?pm pm] by auto
    show ?case
    proof (cases "is_page_allocated i pm")
      case True
      then show ?thesis using assms(2) pm(3) by (simp add: wp_bindE wp_gets wp_ret undisturbed_disk)
    next
      case False
      then have none: "pm_pages pm i = None" by (simp add: pm_pages_def)
      show ?thesis
        using False
      proof (simp add: wp_bindE wp_gets, unfold wp_pages, intro wp_mono [OF activate_reserved_page_spec], goal_cases)
        case 1
        show ?case using pm(1) by simp
      next
        case (2 u' pm')
        then show ?case using assms(2) pm(3) by (simp add: undisturbed_disk)
      next
        case (3 e pm')
        then show ?case using assms(3) pm none by simp
      qed
    qed
  next
    case (2 e pm)
    then show ?case using ff assms(3) by simp
  qed
qed

lemma redo_page_allocate_returns:
  assumes "replay_ok rc" "undisturbed d (rc_pool rc)" "i \<le> pm_page_count (rc_pages rc)" "unat i < kCatalogBits"
  shows "wp (redo_page_allocate i) (\<lambda>_ rc'. undisturbed d (rc_pool rc')) (\<lambda>_ _. False) rc"
proof -
  let ?bp = "rc_pool rc" and ?pm = "rc_pages rc"
  have a: "rc_active rc" and wf: "wf_pm ?pm" and res: "residents (allocated ?bp) ?bp" and ff: "fault_free (pm_file ?pm)"
    using assms(1,2) cache_okD(2) [of "{}" ?bp] by (simp_all add: replay_ok_def pool_inv_def undisturbed_def)
  have valid: "is_valid i" using assms(4) by (auto simp: is_valid_def kInvalidValue_def catalog_defs)
  show ?thesis
  proof (cases "i = pm_page_count ?pm")
    case False
    then have run: "wp (redo_page_allocate i) Q E rc = wp (activate_for_redo i) (\<lambda>_. Q False) E rc" for Q E
      using a valid assms(3) by (simp add: redo_page_allocate_def wp_bindE wp_gets wp_require wp_if wp_funs leD)
    show ?thesis unfolding run using False assms(3) by (intro activate_for_redo_returns [OF assms(1,2)]) simp
  next
    case True
    have "rc_view rc i = None" using True by (auto simp: pool_view_def pm_pages_def dest: is_page_allocated_count)
    then have nf: "find_frame i ?bp = None" by (rule not_resident [OF res])
    then have run: "wp (redo_page_allocate i) Q E rc = wp (in_pool (on_disk (materialize_page_for_recovery i))) (\<lambda>_.
        wp (activate_for_redo i) (\<lambda>_. Q True) E) E rc" for Q E
      using a valid True by (simp add: redo_page_allocate_def wp_bindE wp_gets wp_require wp_if wp_funs contains_def)
    show ?thesis
      unfolding run wp_pages
    proof (rule wp_mono [OF materialize_page_spec [OF wf]], goal_cases)
      case (1 u pm)
      then have pm: "wf_pm pm" "pm_pages pm = pm_pages ?pm" "pm_page_count pm = i + 1" "fault_free (pm_file pm)" "unat i < kCatalogBits"
        using ff same_metaD [of "?pm\<lparr>pm_page_count := i + 1\<rparr>" pm] by auto
      have "i < i + 1" using valid by (intro word_less_add_one(1)) (auto simp: is_valid_def kInvalidValue_def simp flip: eq_neg_iff_add_eq_0)
      then show ?case
        by (intro activate_for_redo_returns replay_same_pages(1) [OF assms(1) pm(1,2)]) (use assms(2) pm in \<open>simp_all add: undisturbed_disk\<close>)
    next
      case (2 e pm)
      then show ?case using ff True assms(4) by simp
    qed
  qed
qed

lemma undo_page_allocate_returns:
  assumes "ready d rc" "is_valid i"
  shows "wp (undo_page_allocate i) (\<lambda>_ rc'. undisturbed d (rc_pool rc')) (\<lambda>_ _. False) rc"
proof -
  let ?bp = "rc_pool rc" and ?pm = "rc_pages rc"
  have a: "rc_active rc" "\<forall>i. pool_pins ?bp i = 0" and c: "cache_ok {} ?bp" and u: "undisturbed d ?bp"
    using assms(1) by (simp_all add: ready_def replay_ok_def)
  note w = cache_okD [OF c]
  show ?thesis
  proof (cases "is_page_allocated i ?pm")
    case False
    then show ?thesis using a(1) assms(2) u by (simp add: undo_page_allocate_def wp_bindE wp_gets wp_require wp_if wp_ret)
  next
    case True
    have "\<not> pm_page_count ?pm \<le> i" using True by (simp add: is_page_allocated_count not_le)
    then have run: "wp (undo_page_allocate i) Q E rc = wp (in_pool (delete_page i)) (\<lambda>deleted.
        wp (bindE (require deleted (LogicError Release_pinned_undo)) (\<lambda>_. bindE (in_pool (on_disk (deallocate_page i))) (\<lambda>_. ret True))) Q E) E rc" for Q E
      using True a(1) assms(2) by (simp add: undo_page_allocate_def wp_bindE wp_gets wp_require wp_if)
    have some: "pm_pages ?pm i \<noteq> None" using True by (simp add: pm_pages_def)
    show ?thesis
      unfolding run wp_in_pool
    proof (rule wp_mono [OF delete_page_spec [OF w(2,3)]], goal_cases)
      case (1 deleted bp1)
      then have b1: "wf_pm (bp_page_manager bp1)" "undisturbed d bp1" "pm_pages (bp_page_manager bp1) i \<noteq> None"
        using undisturbed_kept [OF u] some by (auto simp: pool_inv_def pool_kept_def dom_def set_eq_iff)
      have "deleted" using 1 a(2) [rule_format, of i] by (auto simp: pool_pins_def unat_eq_0 split: option.splits)
      then show ?case
      proof (simp add: wp_bindE wp_require, unfold wp_pages, intro wp_mono [OF deallocate_page_spec], goal_cases)
        case 1
        show ?case using b1(1) by simp
      next
        case (2 u pm)
        then show ?case using b1(2) by (simp add: wp_ret undisturbed_disk)
      next
        case (3 e pm)
        then show ?case using b1(2,3) by (simp add: undisturbed_def split: if_splits)
      qed
    next
      case (2 e bp1)
      then obtain f where "find_frame i ?bp = Some f" by (auto simp: pin_count_def)
      with 2 pool_ready_write_allowed [OF ready_pool [OF assms(1)] find_frame_entry] u show ?case by (auto simp: undisturbed_def)
    qed
  qed
qed

section \<open>REDO returns\<close>

text \<open>
  What the log must offer: with \<open>n\<close> pages in the file and the pages \<open>D\<close> allocated, every committed mutation is of an
  allocated page and every committed allocation is of a page of the file or the next one.
\<close>

fun replayable :: "wal_record list \<Rightarrow> wal_record list \<Rightarrow> uint64 \<Rightarrow> PageId set \<Rightarrow> bool" where
  "replayable rs [] n D = True"
| "replayable rs (r # rs') n D =
     (if \<not> committed rs (wr_transaction_id r) then replayable rs rs' n D
      else case allocation_of r of
        Some a \<Rightarrow> al_page_id a \<le> n \<and> unat (al_page_id a) < kCatalogBits \<and> replayable rs rs' (next_count rs r n) (insert (al_page_id a) D)
      | None \<Rightarrow> (case mutation_of r of
          Some m \<Rightarrow> mu_page_id (mr_mutation m) \<in> D \<and> replayable rs rs' n D
        | None \<Rightarrow> replayable rs rs' n D))"

lemma readyD: "ready d rc \<Longrightarrow> replay_ok rc" "ready d rc \<Longrightarrow> undisturbed d (rc_pool rc)" "ready d rc \<Longrightarrow> rc_view rc i = Some p \<Longrightarrow> pg_lsn p \<le> d"
  by (simp_all add: ready_def)

lemma dom_redo_view: "dom (redo_view l m V) = dom V"
  using redo_view_dom [of l m V] by (simp add: dom_def)

lemma redo_step_recent:
  assumes "\<And>i p. V i = Some p \<Longrightarrow> pg_lsn p \<le> d" "wr_lsn r \<le> d" "redo_step rs r V i = Some p"
  shows "pg_lsn p \<le> d"
  using assms(3) assms(1,2) mutation_of_Some [of r]
  by (auto simp: redo_step_def redo_view_def new_page_def split: if_splits option.splits)

lemma redo_record_returns:
  assumes "log_state rs st" "r \<in> set rs" "ready d rc" "contiguous rs rc" "wr_lsn r \<le> d"
    "replayable rs (r # rs') (pm_page_count (rc_pages rc)) (dom (rc_view rc))"
  shows "wp (redo_record st r me) (\<lambda>_ rc'. ready d rc' \<and> contiguous rs rc' \<and> rc_view rc' = redo_step rs r (rc_view rc) \<and>
       replayable rs rs' (pm_page_count (rc_pages rc')) (dom (rc_view rc'))) (\<lambda>_ _. False) rc"
proof -
  note spec = redo_record_spec [OF assms(1,2) readyD(1) [OF assms(3)] assms(4), of me]
  have "wp (redo_record st r me) (\<lambda>_ rc'. undisturbed d (rc_pool rc')) (\<lambda>_ _. False) rc"
  proof (cases "\<not> committed rs (wr_transaction_id r) \<or> allocation_of r = None \<and> mutation_of r = None")
    case True
    then show ?thesis using readyD(2) [OF assms(3)] by (auto simp: redo_record_run [OF assms(1,2)])
  next
    case False
    then have c: "committed rs (wr_transaction_id r)" by simp
    show ?thesis
    proof (cases "allocation_of r")
      case (Some a)
      then show ?thesis
        using c assms(6) readyD(1,2) [OF assms(3)] by (simp add: redo_record_run [OF assms(1,2)] redo_page_allocate_returns)
    next
      case None
      with False obtain m where m: "mutation_of r = Some m" by auto
      have "m \<in> set (history rs (mu_page_id (mr_mutation m)))" using m assms(2) by (auto simp: history_def List.map_filter_def intro!: image_eqI [of _ _ r])
      then obtain q where q: "is_valid (mu_page_id (mr_mutation m))" "length (mu_before_image (mr_mutation m)) = kPagePayloadSize"
          "length (mu_after_image (mr_mutation m)) = kPagePayloadSize" by (rule history_record)
      have "mu_kind (mr_mutation m) = PayloadWrite" by (cases "mu_kind (mr_mutation m)") simp
      moreover have "mr_lsn m \<noteq> 0" using mutation_of_Some [OF m] log_stateD(5) [OF assms(1,2)] by simp
      ultimately show ?thesis
        using None c m assms(6) q by (auto simp: redo_record_run [OF assms(1,2)] intro!: redo_physical_mutation_returns [OF assms(3)])
    qed
  qed
  from wp_conj [OF spec this] show ?thesis
  proof (rule wp_mono, goal_cases)
    case (1 u rc')
    then have "ready d rc'" using redo_step_recent [OF readyD(3) [OF assms(3)] assms(5)] by (auto simp: ready_def)
    moreover have "replayable rs rs' (pm_page_count (rc_pages rc')) (dom (rc_view rc'))"
    proof -
      have "dom (rc_view rc') = (if committed rs (wr_transaction_id r) then (case allocation_of r of Some a \<Rightarrow> insert (al_page_id a) (dom (rc_view rc)) | None \<Rightarrow> dom (rc_view rc)) else dom (rc_view rc))"
        using 1 by (simp add: redo_step_def dom_redo_view domIff insert_absorb split: option.split)
      with 1 assms(6) show ?thesis by (auto simp: next_count_def split: if_splits option.splits)
    qed
    ultimately show ?case using 1 by blast
  qed simp
qed

lemma redo_run_returns:
  assumes "log_state rs st" "ready d rc" "contiguous rs rc" "\<forall>r \<in> set rs. wr_lsn r \<le> d"
    "replayable rs rs (pm_page_count (rc_pages rc)) (dom (rc_view rc))"
  shows "wp (redo_run st) (\<lambda>_ rc'. ready d rc') (\<lambda>_ _. False) rc"
proof -
  have "wp (redo_records st rs' me) (\<lambda>_ rc'. ready d rc') (\<lambda>_ _. False) rc"
    if "ready d rc" "contiguous rs rc" "replayable rs rs' (pm_page_count (rc_pages rc)) (dom (rc_view rc))" "set rs' \<subseteq> set rs" for rs' me rc
    using that
  proof (induction rs' arbitrary: me rc)
    case Nil
    then show ?case by (simp add: wp_ret)
  next
    case (Cons r rs')
    have r: "r \<in> set rs" "wr_lsn r \<le> d" "set rs' \<subseteq> set rs" using Cons.prems(4) assms(4) by auto
    show ?case
      unfolding redo_records.simps wp_bindE
      by (rule wp_mono [OF redo_record_returns [OF assms(1) r(1) Cons.prems(1,2) r(2) Cons.prems(3)]]) (use Cons.IH r(3) in auto)
  qed
  moreover have "rc_active rc" "rv_records st = rs" using readyD(1) [OF assms(2)] log_stateD(1) [OF assms(1)] by (simp_all add: replay_ok_def)
  ultimately show ?thesis using assms(2,3,5) by (simp add: redo_run_def wp_bindE wp_gets wp_require)
qed

section \<open>UNDO returns\<close>

lemma undo_page_returns:
  assumes "log_state rs st" "ready d rc" "history rs i \<noteq> []" "i \<notin> rc_reconstructed_pages rc" "rc_view rc i \<noteq> None" "\<forall>r \<in> set rs. wr_lsn r \<le> d"
  shows "wp (undo_page st i me)
    (\<lambda>_ rc'. ready d rc' \<and> rc_reconstructed_pages rc' = insert i (rc_reconstructed_pages rc) \<and> dom (rc_view rc') = dom (rc_view rc)) (\<lambda>_ _. False) rc"
proof -
  have "length (rebuilt_image rs i) = kPagePayloadSize" using rebuilt_image_bytes [OF assms(3)] by simp
  then have "wp (undo_page st i me) (\<lambda>_ rc'. undisturbed d (rc_pool rc')) (\<lambda>_ _. False) rc"
    using reconstruct_page_returns [OF assms(2,5)] by (simp add: undo_page_run [OF assms(1)])
  from wp_conj [OF undo_page_spec [OF assms(1) readyD(1) [OF assms(2)] assms(3,4), of me] this] show ?thesis
  proof (rule wp_mono, goal_cases)
    case (1 u rc')
    have "rebuilt_lsn rs i \<le> d"
    proof (cases "winners rs i = []")
      case False
      then obtain r where "r \<in> set rs" "mutation_of r = Some (last (winners rs i))" 
        using winner_record [of "last (winners rs i)" rs i] by auto
      with assms(6) show ?thesis using False mutation_of_Some by (fastforce simp: rebuilt_lsn_def)
    qed (simp add: rebuilt_lsn_def)
    with 1 readyD(3) [OF assms(2)] have "ready d rc'" by (auto simp: ready_def split: if_splits)
    with 1 show ?case by (auto simp: domIff split: if_splits)
  qed simp
qed

lemma undo_pages_returns:
  assumes "log_state rs st" "\<forall>r \<in> set rs. wr_lsn r \<le> d"
    "ready d rc" "distinct is" "\<forall>i \<in> set is. history rs i \<noteq> [] \<and> rc_view rc i \<noteq> None" "set is \<inter> rc_reconstructed_pages rc = {}"
  shows "wp (undo_pages st is me) (\<lambda>_ rc'. ready d rc') (\<lambda>_ _. False) rc"
  using assms(3-6)
proof (induction "is" arbitrary: me rc)
  case Nil
  then show ?case by (simp add: wp_ret)
next
  case (Cons i "is")
  have i: "history rs i \<noteq> []" "i \<notin> rc_reconstructed_pages rc" "rc_view rc i \<noteq> None" using Cons.prems by auto
  show ?case
    unfolding undo_pages.simps wp_bindE
  proof (rule wp_mono [OF undo_page_returns [OF assms(1) Cons.prems(1) i assms(2)]], goal_cases)
    case (1 me' rc')
    then show ?case using Cons.prems by (intro Cons.IH) (auto simp: domIff set_eq_iff)
  qed simp
qed

lemma release_allocations_returns:
  assumes "ready d rc" "\<forall>a \<in> set as. is_valid (al_page_id a)"
  shows "wp (release_allocations as me) (\<lambda>_ rc'. ready d rc') (\<lambda>_ _. False) rc"
  using assms
proof (induction as arbitrary: me rc)
  case Nil
  then show ?case by (simp add: wp_ret)
next
  case (Cons a as)
  have v: "is_valid (al_page_id a)" using Cons.prems(2) by simp
  show ?case
    unfolding release_allocations.simps wp_bindE
  proof (rule wp_mono [OF wp_conj [OF undo_page_allocate_spec [OF readyD(1) [OF Cons.prems(1)]] undo_page_allocate_returns [OF Cons.prems(1) v]]], goal_cases)
    case (1 b rc')
    then have "ready d rc'" using readyD(3) [OF Cons.prems(1)] by (auto simp: ready_def split: if_splits)
    then show ?case using Cons.prems(2) by (intro Cons.IH) simp_all
  qed simp
qed

lemma undo_run_returns:
  assumes "log_state rs st" "ready d rc" "rc_reconstructed_pages rc = {}" "\<forall>r \<in> set rs. wr_lsn r \<le> d"
    "\<And>i. losers rs i \<noteq> [] \<Longrightarrow> rc_view rc i \<noteq> None"
  shows "wp (undo_run st) (\<lambda>_ rc'. ready d rc') (\<lambda>_ _. False) rc"
proof -
  obtain ms as where c: "collect_losers st (rv_transactions st) = Inr (ms, as)"
      and ms: "set ms = {m \<in> set (log_mutations rs). \<not> committed rs (mr_transaction_id m)}"
      and as: "set as = {a \<in> set (log_allocations rs). \<not> committed rs (al_transaction_id a)}"
    by (rule collect_losers_spec [OF assms(1)])
  note aff = affected_pages_spec [OF ms]
  have h: "\<forall>i \<in> set (affected_pages ms). history rs i \<noteq> [] \<and> rc_view rc i \<noteq> None" "set (affected_pages ms) \<inter> rc_reconstructed_pages rc = {}"
    using aff(2) assms(3,5) by (auto simp: losers_def)
  have v: "\<forall>a \<in> set (rev (sort_key al_lsn as)). is_valid (al_page_id a)"
    using as decoded_allocation by (auto elim!: log_allocation_record dest!: allocation_of_Some)
  have act: "rc_active rc" using readyD(1) [OF assms(2)] by (simp add: replay_ok_def)
  show ?thesis
    unfolding undo_run_def using act
  proof (simp add: wp_bindE wp_gets wp_require wp_lift_result c, intro wp_mono [OF undo_pages_returns [OF assms(1,4,2) aff(1) h]], goal_cases)
    case (1 me rc1)
    then have "ready d rc1" by simp
    then show ?case unfolding wp_bindE by (rule wp_mono [OF release_allocations_returns [OF _ v]]) (simp_all add: wp_ret)
  qed simp
qed

end
