(* ===== verification/Mutation.thy ===== *)
theory Mutation
  imports PageCache LogHistory
begin

text \<open>
  Physical mutations (\<^verbatim>\<open>src/src/storage/physical_mutation.cpp\<close>): the capture of the images of a page before
  and after a change, and the application of an image.

  A capture context holds references to the pool and to a finalizer. The state of its operations is an
  extensible record with the pool and the context; the finalizer is an argument, an operation on the
  extended state (\<open>None\<close> is the null pointer), so the same definitions serve a free-standing context and one
  owned by a transaction.
\<close>

section \<open>Images\<close>

definition image :: "PageId \<Rightarrow> (pool, byte list \<times> uint64) op" where
  "image i =
     bindE (fetch_page i) (\<lambda>r.
     case r of
       None \<Rightarrow> throw (RuntimeError Cannot_fetch_mutation_page)
     | Some f \<Rightarrow>
         bindE (gets (page_at f)) (\<lambda>p.
         bindE (unpin_page i False) (\<lambda>unpinned.
         bindE (require unpinned (RuntimeError Cannot_unpin_mutation_page)) (\<lambda>_.
         ret (pg_payload p, pg_lsn p)))))"

definition apply_image :: "physical_mutation \<Rightarrow> byte list \<Rightarrow> (pool, unit) op" where
  "apply_image m bytes =
     bindE (require (length bytes = kPagePayloadSize) (InvalidArgument Invalid_payload_image)) (\<lambda>_.
     bindE (fetch_page (mu_page_id m)) (\<lambda>r.
     case r of
       None \<Rightarrow> throw (RuntimeError Cannot_fetch_replay_page)
     | Some f \<Rightarrow>
         bindE (set_payload f bytes) (\<lambda>_.
         bindE (unpin_page (mu_page_id m) True) (\<lambda>unpinned.
         bindE (require unpinned (RuntimeError Cannot_unpin_replay_page)) (\<lambda>_.
         ret ())))))"

definition apply_after_image :: "physical_mutation \<Rightarrow> (pool, unit) op" where
  "apply_after_image m = apply_image m (mu_after_image m)"

definition apply_before_image :: "physical_mutation \<Rightarrow> (pool, unit) op" where
  "apply_before_image m = apply_image m (mu_before_image m)"

section \<open>Capture contexts\<close>

record capture_pending =
  pc_id :: PageId
  pc_before :: "byte list"
  pc_previous_page_lsn :: uint64

record mutation_context =
  mc_pending :: "capture_pending list"
  mc_mutations :: "physical_mutation list"
  mc_next_sequence :: uint64

definition new_context :: mutation_context where
  "new_context = \<lparr>mc_pending = [], mc_mutations = [], mc_next_sequence = 0\<rparr>"

record capture_state =
  cs_pool :: pool
  cs_context :: mutation_context

type_synonym 'a finalizer = "physical_mutation \<Rightarrow> ('a capture_state_scheme, uint64 option) op"

definition on_pool :: "(pool, 'b) op \<Rightarrow> ('a capture_state_scheme, 'b) op" where
  "on_pool = zoom cs_pool (\<lambda>bp s. s\<lparr>cs_pool := bp\<rparr>)"

definition upd_context :: "(mutation_context \<Rightarrow> mutation_context) \<Rightarrow> ('a capture_state_scheme, unit) op" where
  "upd_context g = modify (\<lambda>s. s\<lparr>cs_context := g (cs_context s)\<rparr>)"

definition has_unfinished_capture :: "mutation_context \<Rightarrow> bool" where
  "has_unfinished_capture mc \<longleftrightarrow> mc_pending mc \<noteq> []"

definition watch :: "PageId \<Rightarrow> ('a capture_state_scheme, unit) op" where
  "watch i =
     bindE (require (is_valid i) (InvalidArgument Invalid_mutation_page)) (\<lambda>_.
     bindE (on_pool (image i)) (\<lambda>(before, lsn).
     upd_context (\<lambda>mc. mc\<lparr>mc_pending := mc_pending mc @ [\<lparr>pc_id = i, pc_before = before, pc_previous_page_lsn = lsn\<rparr>]\<rparr>)))"

text \<open>The first pending entry of a page is found, has its image moved out, and is erased at the end.\<close>

fun move_before :: "PageId \<Rightarrow> capture_pending list \<Rightarrow> capture_pending list" where
  "move_before i [] = []"
| "move_before i (pc # pcs) = (if pc_id pc = i then pc\<lparr>pc_before := []\<rparr> # pcs else pc # move_before i pcs)"

fun erase_pending :: "PageId \<Rightarrow> capture_pending list \<Rightarrow> capture_pending list" where
  "erase_pending i [] = []"
| "erase_pending i (pc # pcs) = (if pc_id pc = i then pcs else pc # erase_pending i pcs)"

definition capture :: "'a finalizer option \<Rightarrow> PageId \<Rightarrow> byte list \<Rightarrow> FrameId option \<Rightarrow> ('a capture_state_scheme, unit) op" where
  "capture fin i after page =
     bindE (gets (\<lambda>s. find (\<lambda>pc. pc_id pc = i) (mc_pending (cs_context s)))) (\<lambda>it.
     case it of
       None \<Rightarrow> throw (LogicError Finish_without_watch)
     | Some pc \<Rightarrow>
         bindE (if after \<noteq> pc_before pc then
             bindE (gets (\<lambda>s. mc_next_sequence (cs_context s))) (\<lambda>sequence.
             bindE (upd_context (\<lambda>mc. mc\<lparr>mc_next_sequence := sequence + 1, mc_pending := move_before i (mc_pending mc)\<rparr>)) (\<lambda>_.
             let mutation = \<lparr>mu_page_id = i, mu_kind = PayloadWrite, mu_sequence = sequence, mu_before_image = pc_before pc,
                   mu_after_image = after, mu_previous_page_lsn = pc_previous_page_lsn pc\<rparr> in
             case fin of
               None \<Rightarrow> upd_context (\<lambda>mc. mc\<lparr>mc_mutations := mc_mutations mc @ [mutation]\<rparr>)
             | Some finalize_mutation \<Rightarrow>
                 (case page of
                    None \<Rightarrow> throw (LogicError Finish_while_pinned)
                  | Some f \<Rightarrow>
                      bindE (finalize_mutation mutation) (\<lambda>lsn.
                      case lsn of
                        Some l \<Rightarrow> if l = 0 then throw (InvalidArgument Nonzero_lsn_required) else on_pool (set_page_lsn f l)
                      | None \<Rightarrow> on_pool (mark_mutation_pending i)))))
           else ret ()) (\<lambda>_.
         upd_context (\<lambda>mc. mc\<lparr>mc_pending := erase_pending i (mc_pending mc)\<rparr>)))"

definition finish_unpinned :: "'a finalizer option \<Rightarrow> PageId \<Rightarrow> ('a capture_state_scheme, unit) op" where
  "finish_unpinned fin i =
     bindE (require (fin = None) (LogicError Finish_while_pinned)) (\<lambda>_.
     bindE (on_pool (fetch_page i)) (\<lambda>r.
     case r of
       None \<Rightarrow> throw (RuntimeError Cannot_fetch_mutation_page)
     | Some f \<Rightarrow>
         bindE (gets (\<lambda>s. page_at f (cs_pool s))) (\<lambda>p.
         bindE (on_error (capture fin i (pg_payload p) None) (\<lambda>s. snd (on_pool (unpin_page i False) s))) (\<lambda>_.
         bindE (on_pool (unpin_page i False)) (\<lambda>unpinned.
         require unpinned (RuntimeError Cannot_unpin_mutation_page))))))"

definition finish :: "'a finalizer option \<Rightarrow> PageId \<Rightarrow> FrameId \<Rightarrow> ('a capture_state_scheme, unit) op" where
  "finish fin i f =
     bindE (gets (\<lambda>s. page_at f (cs_pool s))) (\<lambda>p.
     bindE (require (pg_id p = i) (InvalidArgument Finish_target_mismatch)) (\<lambda>_.
     capture fin i (pg_payload p) (Some f)))"

definition drain_captured :: "('a capture_state_scheme, physical_mutation list) op" where
  "drain_captured =
     bindE (gets (\<lambda>s. mc_pending (cs_context s))) (\<lambda>pending.
     bindE (require (pending = []) (LogicError Unfinished_capture)) (\<lambda>_.
     bindE (gets (\<lambda>s. mc_mutations (cs_context s))) (\<lambda>out.
     bindE (upd_context (\<lambda>mc. mc\<lparr>mc_mutations := []\<rparr>)) (\<lambda>_.
     ret out))))"

definition finalize_context :: "('a capture_state_scheme, physical_mutation list) op" where
  "finalize_context = drain_captured"

section \<open>Specifications\<close>

lemma image_spec:
  assumes "cache_ok I bp" "i \<notin> I"
  shows "wp (image i)
    (\<lambda>x bp'. cache_ok I bp' \<and> pool_view bp' = pool_view bp \<and> pool_pins bp' = pool_pins bp \<and> moved pinned_at pool_pins bp bp' \<and>
       (\<exists>p. pool_view bp i = Some p \<and> x = (pg_payload p, pg_lsn p)))
    (\<lambda>_ bp'. cache_ok I bp' \<and> pool_view bp' = pool_view bp \<and> pool_pins bp' = pool_pins bp \<and> moved pinned_at pool_pins bp bp') bp"
  unfolding image_def using pc.read_program [OF assms, of _ _ "\<lambda>p. (pg_payload p, pg_lsn p)"] by simp

lemma apply_image_spec:
  assumes "cache_ok I bp"
  shows "wp (apply_image m bs)
    (\<lambda>_ bp'. cache_ok (I - {mu_page_id m}) bp' \<and> pool_pins bp' = pool_pins bp \<and> moved pinned_at pool_pins bp bp' \<and>
       is_dirty (mu_page_id m) bp' = Some True \<and>
       (\<exists>p. pool_view bp (mu_page_id m) = Some p \<and> pool_view bp' = (pool_view bp)(mu_page_id m \<mapsto> p\<lparr>pg_payload := bs\<rparr>)))
    (\<lambda>_ bp'. cache_ok I bp' \<and> pool_view bp' = pool_view bp \<and> pool_pins bp' = pool_pins bp \<and> moved pinned_at pool_pins bp bp') bp"
proof (cases "length bs = kPagePayloadSize")
  case False
  with assms show ?thesis by (simp add: apply_image_def wp_simps moved_def)
next
  case True
  have run: "wp (apply_image m bs) Q E bp = wp (bindE (fetch_page (mu_page_id m)) (\<lambda>r. case r of
       None \<Rightarrow> throw (RuntimeError Cannot_fetch_replay_page)
     | Some f \<Rightarrow>
         bindE (set_payload f bs) (\<lambda>_.
         bindE (unpin_page (mu_page_id m) True) (\<lambda>unpinned.
         bindE (require unpinned (RuntimeError Cannot_unpin_replay_page)) (\<lambda>_. ret ()))))) Q E bp" for Q E
    by (simp only: apply_image_def wp_bindE wp_require True simp_thms if_True)
  show ?thesis
    unfolding run
  proof (rule pc.fetch_then [OF assms], goal_cases)
    case (1 f s1)
    show ?case
      unfolding option.case by (rule wp_mono [OF pc.change_then_release [OF 1 pc.changes_payload [OF True]]]) auto
  qed (simp_all add: wp_throw)
qed

end
