(* ===== verification/LockManager.thy ===== *)
theory LockManager
  imports Prelude "HOL-Library.AList"
begin

text \<open>
  The lock manager (\<^verbatim>\<open>src/src/concurrency/lock_manager.cpp\<close>).

  Every method runs under one mutex, so each is an atomic step on the lock table, the per-transaction lock
  sets and the states of the transactions. Only \<^verbatim>\<open>lock\<close> gives the mutex up, in \<^verbatim>\<open>changed_.wait\<close>; it is
  split there: \<open>lock_round\<close> is one round of its loop up to the wait, and \<open>lock_resume\<close> is what a
  waiting call does once its predicate holds. The hash maps are association lists.
\<close>

section \<open>State\<close>

type_synonym ResourceId = "64 word"

datatype TransactionState = Growing | Shrinking | Committed | Aborted

datatype LockMode = Shared | Exclusive

type_synonym holder = "TransactionId \<times> LockMode"

record lock_manager =
  lk_table :: "(ResourceId \<times> holder list) list"
  lk_held :: "(TransactionId \<times> ResourceId list) list"
  lk_state :: "TransactionId \<Rightarrow> TransactionState"

definition new_lock_manager :: lock_manager where
  "new_lock_manager = \<lparr>lk_table = [], lk_held = [], lk_state = (\<lambda>_. Growing)\<rparr>"

text \<open>The entry of a key of a hash map of collections, with the empty collection for a missing key.\<close>

definition entries :: "('k \<times> 'v list) list \<Rightarrow> 'k \<Rightarrow> 'v list" where
  "entries t k = (case map_of t k of None \<Rightarrow> [] | Some vs \<Rightarrow> vs)"

text \<open>Storing a collection, where an emptied one is erased from the map.\<close>

definition store_entries :: "'k \<Rightarrow> 'v list \<Rightarrow> ('k \<times> 'v list) list \<Rightarrow> ('k \<times> 'v list) list" where
  "store_entries k vs t = (if vs = [] then AList.delete k t else AList.update k vs t)"

section \<open>Conflicts\<close>

definition conflicts :: "LockMode \<Rightarrow> LockMode \<Rightarrow> bool" where
  "conflicts requested held \<longleftrightarrow> requested = Exclusive \<or> held = Exclusive"

definition compatible :: "TransactionId \<Rightarrow> ResourceId \<Rightarrow> LockMode \<Rightarrow> lock_manager \<Rightarrow> bool" where
  "compatible tx r mode lk \<longleftrightarrow> list_all (\<lambda>(t, m). \<not> (t \<noteq> tx \<and> conflicts mode m)) (entries (lk_table lk) r)"

definition requester_is_younger_than_conflict :: "TransactionId \<Rightarrow> ResourceId \<Rightarrow> LockMode \<Rightarrow> lock_manager \<Rightarrow> bool" where
  "requester_is_younger_than_conflict tx r mode lk \<longleftrightarrow>
     list_ex (\<lambda>(t, m). t \<noteq> tx \<and> conflicts mode m \<and> tx > t) (entries (lk_table lk) r)"

section \<open>Locking\<close>

definition release_all :: "TransactionId \<Rightarrow> lock_manager \<Rightarrow> lock_manager" where
  "release_all tx lk = lk\<lparr>
     lk_table := fold (\<lambda>r t. case map_of t r of None \<Rightarrow> t | Some hs \<Rightarrow> store_entries r (filter (\<lambda>h. fst h \<noteq> tx) hs) t)
       (entries (lk_held lk) tx) (lk_table lk),
     lk_held := AList.delete tx (lk_held lk)\<rparr>"

text \<open>The change of the table when a lock is granted: a new holder, or the upgrade of the own entry.\<close>

fun set_mode :: "TransactionId \<Rightarrow> holder list \<Rightarrow> holder list" where
  "set_mode tx [] = []"
| "set_mode tx ((t, m) # hs) = (if t = tx then (t, Exclusive) # hs else (t, m) # set_mode tx hs)"

definition grant :: "TransactionId \<Rightarrow> ResourceId \<Rightarrow> LockMode \<Rightarrow> lock_manager \<Rightarrow> lock_manager" where
  "grant tx r mode lk =
     (let hs = entries (lk_table lk) r in
      if map_of hs tx \<noteq> None then lk\<lparr>lk_table := AList.update r (set_mode tx hs) (lk_table lk)\<rparr>
      else lk\<lparr>lk_table := AList.update r (hs @ [(tx, mode)]) (lk_table lk),
              lk_held := AList.update tx (List.insert r (entries (lk_held lk) tx)) (lk_held lk)\<rparr>)"

datatype lock_outcome = Returned bool | Waiting

text \<open>One round of the loop of \<^verbatim>\<open>lock\<close>, up to its return or its wait.\<close>

definition lock_round :: "TransactionId \<Rightarrow> ResourceId \<Rightarrow> LockMode \<Rightarrow> lock_manager \<Rightarrow> lock_outcome \<times> lock_manager" where
  "lock_round tx r mode lk =
     (let own = map_of (entries (lk_table lk) r) tx in
      if own = Some mode then (Returned True, lk)
      else if own = Some Exclusive \<and> mode = Shared then (Returned False, lk)
      else if compatible tx r mode lk then (Returned True, grant tx r mode lk)
      else if requester_is_younger_than_conflict tx r mode lk then
        (Returned False, let lk' = release_all tx lk in lk'\<lparr>lk_state := (lk_state lk')(tx := Aborted)\<rparr>)
      else (Waiting, lk))"

definition lock :: "TransactionId \<Rightarrow> ResourceId \<Rightarrow> LockMode \<Rightarrow> lock_manager \<Rightarrow> lock_outcome \<times> lock_manager" where
  "lock tx r mode lk = (if lk_state lk tx \<noteq> Growing then (Returned False, lk) else lock_round tx r mode lk)"

definition lock_shared :: "TransactionId \<Rightarrow> ResourceId \<Rightarrow> lock_manager \<Rightarrow> lock_outcome \<times> lock_manager" where
  "lock_shared tx r = lock tx r Shared"

definition lock_exclusive :: "TransactionId \<Rightarrow> ResourceId \<Rightarrow> lock_manager \<Rightarrow> lock_outcome \<times> lock_manager" where
  "lock_exclusive tx r = lock tx r Exclusive"

text \<open>The predicate of \<^verbatim>\<open>changed_.wait\<close>, and the rest of the loop once it holds.\<close>

definition wait_over :: "TransactionId \<Rightarrow> ResourceId \<Rightarrow> LockMode \<Rightarrow> lock_manager \<Rightarrow> bool" where
  "wait_over tx r mode lk \<longleftrightarrow> lk_state lk tx = Aborted \<or> compatible tx r mode lk"

definition lock_resume :: "TransactionId \<Rightarrow> ResourceId \<Rightarrow> LockMode \<Rightarrow> lock_manager \<Rightarrow> lock_outcome \<times> lock_manager" where
  "lock_resume tx r mode lk =
     (if \<not> wait_over tx r mode lk then (Waiting, lk)
      else if lk_state lk tx \<noteq> Growing then (Returned False, lk)
      else lock_round tx r mode lk)"

section \<open>Releasing\<close>

definition unlock :: "TransactionId \<Rightarrow> ResourceId \<Rightarrow> lock_manager \<Rightarrow> bool \<times> lock_manager" where
  "unlock tx r lk =
     (if lk_state lk tx \<noteq> Growing \<and> lk_state lk tx \<noteq> Shrinking then (False, lk)
      else case map_of (lk_table lk) r of
        None \<Rightarrow> (False, lk)
      | Some hs \<Rightarrow>
          if map_of hs tx = None then (False, lk)
          else (True, lk\<lparr>
            lk_table := store_entries r (remove1 (tx, the (map_of hs tx)) hs) (lk_table lk),
            lk_held := (case map_of (lk_held lk) tx of None \<Rightarrow> lk_held lk
                        | Some rs \<Rightarrow> store_entries tx (removeAll r rs) (lk_held lk)),
            lk_state := (lk_state lk)(tx := Shrinking)\<rparr>))"

definition finish_transaction :: "TransactionState \<Rightarrow> TransactionId \<Rightarrow> lock_manager \<Rightarrow> lock_manager" where
  "finish_transaction s tx lk =
     (if lk_state lk tx = Committed \<or> lk_state lk tx = Aborted then lk
      else let lk' = release_all tx lk in lk'\<lparr>lk_state := (lk_state lk')(tx := s)\<rparr>)"

definition commit_locks :: "TransactionId \<Rightarrow> lock_manager \<Rightarrow> lock_manager" where
  "commit_locks = finish_transaction Committed"

definition abort_locks :: "TransactionId \<Rightarrow> lock_manager \<Rightarrow> lock_manager" where
  "abort_locks = finish_transaction Aborted"

section \<open>Queries\<close>

definition lock_count :: "lock_manager \<Rightarrow> nat" where
  "lock_count lk = sum_list (map (\<lambda>(r, hs). length hs) (lk_table lk))"

definition held_lock_count :: "TransactionId \<Rightarrow> lock_manager \<Rightarrow> nat" where
  "held_lock_count tx lk = length (entries (lk_held lk) tx)"

definition holds :: "TransactionId \<Rightarrow> ResourceId \<Rightarrow> LockMode \<Rightarrow> lock_manager \<Rightarrow> bool" where
  "holds tx r m lk \<longleftrightarrow> (tx, m) \<in> set (entries (lk_table lk) r)"

section \<open>Lemmas on the maps of collections\<close>

lemma entries_store [simp]: "entries (store_entries k vs t) k' = (if k' = k then vs else entries t k')"
  by (simp add: entries_def store_entries_def delete_conv' update_conv')

lemma entries_update [simp]: "entries (AList.update k vs t) k' = (if k' = k then vs else entries t k')"
  by (simp add: entries_def update_conv')

lemma entries_delete [simp]: "entries (AList.delete k t) k' = (if k' = k then [] else entries t k')"
  by (simp add: entries_def delete_conv')

lemma entries_Nil [simp]: "entries [] k = []"
  by (simp add: entries_def)

text \<open>A map of collections without duplicate keys, empty collections or duplicates in a collection.\<close>

definition neat :: "('v \<Rightarrow> 'w) \<Rightarrow> ('k \<times> 'v list) list \<Rightarrow> bool" where
  "neat key t \<longleftrightarrow> distinct (map fst t) \<and> (\<forall>(k, vs) \<in> set t. vs \<noteq> []) \<and> (\<forall>k. distinct (map key (entries t k)))"

lemma neat_Nil [simp]: "neat key []"
  by (simp add: neat_def)

lemma neat_entries: "neat key t \<Longrightarrow> distinct (map key (entries t k))"
  by (simp add: neat_def)

lemma set_delete_subset: "set (AList.delete k t) \<subseteq> set t"
  by (induction t) auto

lemma set_update_subset: "set (AList.update k v t) \<subseteq> insert (k, v) (set t)"
  by (induction t) auto

lemma neat_update: "neat key t \<Longrightarrow> vs \<noteq> [] \<Longrightarrow> distinct (map key vs) \<Longrightarrow> neat key (AList.update k vs t)"
  using set_update_subset [of k vs t] by (auto simp: neat_def distinct_update)

lemma neat_delete: "neat key t \<Longrightarrow> neat key (AList.delete k t)"
  using set_delete_subset [of k t] by (auto simp: neat_def distinct_delete)

lemma neat_store: "neat key t \<Longrightarrow> distinct (map key vs) \<Longrightarrow> neat key (store_entries k vs t)"
  by (simp add: store_entries_def neat_update neat_delete)

lemma neat_map_of:
  assumes "neat key t"
  shows "map_of t k = (if entries t k = [] then None else Some (entries t k))"
proof (cases "map_of t k")
  case (Some vs)
  then have "vs \<noteq> []" using assms map_of_SomeD [OF Some] by (auto simp: neat_def)
  with Some show ?thesis by (simp add: entries_def)
qed (simp add: entries_def)

section \<open>The locks as a map\<close>

text \<open>The abstract state of the lock manager: for every resource, the mode each transaction holds it in.\<close>

definition lock_view :: "lock_manager \<Rightarrow> ResourceId \<Rightarrow> TransactionId \<rightharpoonup> LockMode" where
  "lock_view lk r = map_of (entries (lk_table lk) r)"

definition lk_ok :: "lock_manager \<Rightarrow> bool" where
  "lk_ok lk \<longleftrightarrow> neat fst (lk_table lk) \<and> neat id (lk_held lk) \<and>
     (\<forall>t r. r \<in> set (entries (lk_held lk) t) \<longleftrightarrow> lock_view lk r t \<noteq> None) \<and>
     (\<forall>r t m u n. lock_view lk r t = Some m \<and> lock_view lk r u = Some n \<and> t \<noteq> u \<longrightarrow> \<not> conflicts m n) \<and>
     (\<forall>r t. lock_view lk r t \<noteq> None \<longrightarrow> lk_state lk t \<in> {Growing, Shrinking})"

lemma lk_okD:
  assumes "lk_ok lk"
  shows "neat fst (lk_table lk)" "neat id (lk_held lk)" "r \<in> set (entries (lk_held lk) t) \<longleftrightarrow> lock_view lk r t \<noteq> None"
    "lock_view lk r t = Some m \<Longrightarrow> lock_view lk r u = Some n \<Longrightarrow> t \<noteq> u \<Longrightarrow> \<not> conflicts m n"
    "lock_view lk r t \<noteq> None \<Longrightarrow> lk_state lk t \<in> {Growing, Shrinking}"
  using assms unfolding lk_ok_def by blast+

lemma holds_view: "lk_ok lk \<Longrightarrow> holds tx r m lk \<longleftrightarrow> lock_view lk r tx = Some m"
  using neat_entries [OF lk_okD(1), of lk r] by (simp add: holds_def lock_view_def)

lemma compatible_view:
  "lk_ok lk \<Longrightarrow> compatible tx r mode lk \<longleftrightarrow> (\<forall>t m. lock_view lk r t = Some m \<and> t \<noteq> tx \<longrightarrow> \<not> conflicts mode m)"
  using neat_entries [OF lk_okD(1), of lk r] by (force simp: compatible_def lock_view_def list_all_iff)

lemma younger_view:
  "lk_ok lk \<Longrightarrow> requester_is_younger_than_conflict tx r mode lk \<longleftrightarrow>
     (\<exists>t m. lock_view lk r t = Some m \<and> t \<noteq> tx \<and> conflicts mode m \<and> t < tx)"
  using neat_entries [OF lk_okD(1), of lk r]
  by (force simp: requester_is_younger_than_conflict_def lock_view_def list_ex_iff)

section \<open>Granting\<close>

lemma set_mode_keys [simp]: "map fst (set_mode tx hs) = map fst hs"
  by (induction tx hs rule: set_mode.induct) auto

lemma map_of_set_mode: "map_of hs tx \<noteq> None \<Longrightarrow> map_of (set_mode tx hs) = (map_of hs)(tx \<mapsto> Exclusive)"
  by (induction tx hs rule: set_mode.induct) (auto simp: fun_eq_iff split: if_splits)

lemma map_of_append_new: "map_of hs tx = None \<Longrightarrow> map_of (hs @ [(tx, m)]) = (map_of hs)(tx \<mapsto> m)"
  by (auto simp: fun_eq_iff map_add_def split: option.split)

lemma grant_view:
  assumes "lock_view lk r tx \<noteq> None \<longrightarrow> mode = Exclusive"
  shows "lock_view (grant tx r mode lk) = (lock_view lk)(r := (lock_view lk r)(tx \<mapsto> mode))"
    "lk_state (grant tx r mode lk) = lk_state lk"
  using assms map_of_set_mode [of "entries (lk_table lk) r" tx] map_of_append_new [of "entries (lk_table lk) r" tx mode]
  by (auto simp: lock_view_def grant_def Let_def fun_eq_iff)

lemma grant_ok:
  assumes "lk_ok lk" "compatible tx r mode lk" "lock_view lk r tx \<noteq> None \<longrightarrow> mode = Exclusive" "lk_state lk tx = Growing"
  shows "lk_ok (grant tx r mode lk)"
proof -
  note ok = lk_okD [OF assms(1)]
  let ?hs = "entries (lk_table lk) r"
  have d: "distinct (map fst ?hs)" by (rule neat_entries [OF ok(1)])
  have "set_mode tx ?hs \<noteq> []" if "map_of ?hs tx \<noteq> None" using that by (cases ?hs) (auto split: if_splits)
  then have "neat fst (lk_table (grant tx r mode lk))"
    using d ok(1) by (auto simp: grant_def Let_def map_of_eq_None_iff intro!: neat_update)
  moreover have "List.insert r (entries (lk_held lk) tx) \<noteq> []" by (auto simp: List.insert_def)
  then have "neat id (lk_held (grant tx r mode lk))"
    using ok(2) neat_entries [OF ok(2), of tx] by (auto simp: grant_def Let_def intro!: neat_update)
  moreover have "r' \<in> set (entries (lk_held (grant tx r mode lk)) t) \<longleftrightarrow> lock_view (grant tx r mode lk) r' t \<noteq> None" for t r'
    using ok(3) [of r' t] ok(3) [of r tx] unfolding grant_view(1) [OF assms(3)]
    by (auto simp: grant_def Let_def lock_view_def)
  moreover have "\<not> conflicts m n" if "lock_view (grant tx r mode lk) r' t = Some m" "lock_view (grant tx r mode lk) r' u = Some n" "t \<noteq> u" for r' t m u n
  proof -
    have sym: "conflicts m n = conflicts n m" by (auto simp: conflicts_def)
    have c: "\<not> conflicts mode m'" if "lock_view lk r v = Some m'" "v \<noteq> tx" for v m'
      using assms(2) that by (simp add: compatible_view [OF assms(1)])
    from that show ?thesis
      using ok(4) [of r' t m u n] c [of t m] c [of u n] sym unfolding grant_view(1) [OF assms(3)] by (auto split: if_splits)
  qed
  moreover have "lk_state lk t \<in> {Growing, Shrinking}" if "lock_view (grant tx r mode lk) r' t \<noteq> None" for r' t
    using that ok(5) [of r' t] assms(4) unfolding grant_view(1) [OF assms(3)] by (auto split: if_splits)
  ultimately show ?thesis unfolding lk_ok_def grant_view(2) [OF assms(3)] by blast
qed

section \<open>Releasing\<close>

abbreviation drop_holder :: "TransactionId \<Rightarrow> ResourceId \<Rightarrow> (ResourceId \<times> holder list) list \<Rightarrow> (ResourceId \<times> holder list) list" where
  "drop_holder tx r t \<equiv> (case map_of t r of None \<Rightarrow> t | Some hs \<Rightarrow> store_entries r (filter (\<lambda>h. fst h \<noteq> tx) hs) t)"

lemma entries_drop_holder:
  "entries (drop_holder tx r t) r' = (if r' = r then filter (\<lambda>h. fst h \<noteq> tx) (entries t r) else entries t r')"
  by (simp add: entries_def [of t] split: option.split)

lemma neat_drop_holder: "neat fst t \<Longrightarrow> neat fst (drop_holder tx r t)"
  using neat_entries [of fst t r] by (auto simp: entries_def intro!: neat_store distinct_map_filter split: option.split)

lemma fold_drop_holder:
  "neat fst t \<Longrightarrow> neat fst (fold (drop_holder tx) rs t)"
  "entries (fold (drop_holder tx) rs t) r = (if r \<in> set rs then filter (\<lambda>h. fst h \<noteq> tx) (entries t r) else entries t r)"
proof -
  show "neat fst t \<Longrightarrow> neat fst (fold (drop_holder tx) rs t)"
    by (induction rs arbitrary: t) (simp_all add: neat_drop_holder)
  show "entries (fold (drop_holder tx) rs t) r = (if r \<in> set rs then filter (\<lambda>h. fst h \<noteq> tx) (entries t r) else entries t r)"
    by (induction rs arbitrary: t) (auto simp: entries_drop_holder)
qed

lemma map_of_filter_key: "map_of (filter (\<lambda>h. fst h \<noteq> k) hs) = (map_of hs)(k := None)"
  by (induction hs) (auto simp: fun_eq_iff)

lemma remove1_filter_key: "distinct (map fst hs) \<Longrightarrow> (k, v) \<in> set hs \<Longrightarrow> remove1 (k, v) hs = filter (\<lambda>h. fst h \<noteq> k) hs"
proof (induction hs)
  case (Cons h hs)
  show ?case
  proof (cases "h = (k, v)")
    case True
    with Cons.prems(1) have "filter (\<lambda>h. fst h \<noteq> k) hs = hs" by (force simp: filter_id_conv)
    with True show ?thesis by simp
  next
    case False
    with Cons.prems have "(k, v) \<in> set hs" by simp
    moreover have "fst h \<noteq> k" using Cons.prems(1) imageI [OF calculation, of fst] by auto
    ultimately show ?thesis using Cons False by simp
  qed
qed simp

lemma release_all_view:
  assumes "lk_ok lk"
  shows "lock_view (release_all tx lk) = (\<lambda>r. (lock_view lk r)(tx := None))" "lk_state (release_all tx lk) = lk_state lk"
proof -
  have "lock_view lk r tx = None" if "r \<notin> set (entries (lk_held lk) tx)" for r
    using that lk_okD(3) [OF assms, of r tx] by simp
  then show "lock_view (release_all tx lk) = (\<lambda>r. (lock_view lk r)(tx := None))"
    by (auto simp: lock_view_def release_all_def fold_drop_holder(2) map_of_filter_key fun_eq_iff)
qed (simp add: release_all_def)

lemma release_all_ok:
  assumes "lk_ok lk"
  shows "lk_ok ((release_all tx lk)\<lparr>lk_state := (lk_state lk)(tx := s)\<rparr>)"
proof -
  note ok = lk_okD [OF assms]
  let ?lk = "(release_all tx lk)\<lparr>lk_state := (lk_state lk)(tx := s)\<rparr>"
  have v: "lock_view ?lk = (\<lambda>r. (lock_view lk r)(tx := None))"
    using release_all_view(1) [OF assms] by (simp add: lock_view_def fun_eq_iff)
  have "neat fst (lk_table ?lk)" "neat id (lk_held ?lk)"
    using ok(1,2) by (simp_all add: release_all_def fold_drop_holder(1) neat_delete)
  moreover have "r \<in> set (entries (lk_held ?lk) t) \<longleftrightarrow> lock_view ?lk r t \<noteq> None" for r t
    using ok(3) [of r t] unfolding v by (simp add: release_all_def)
  ultimately show ?thesis using ok(4,5) unfolding lk_ok_def v by (auto split: if_splits)
qed

lemma unlock_spec:
  assumes "lk_ok lk"
  shows "unlock tx r lk =
    (if lk_state lk tx \<in> {Committed, Aborted} \<or> lock_view lk r tx = None then (False, lk) else (True, snd (unlock tx r lk)))"
    "lk_state lk tx \<notin> {Committed, Aborted} \<Longrightarrow> lock_view lk r tx \<noteq> None \<Longrightarrow>
      lock_view (snd (unlock tx r lk)) = (lock_view lk)(r := (lock_view lk r)(tx := None)) \<and>
      lk_state (snd (unlock tx r lk)) = (lk_state lk)(tx := Shrinking) \<and> lk_ok (snd (unlock tx r lk))"
proof -
  note ok = lk_okD [OF assms]
  have st: "lk_state lk tx \<in> {Committed, Aborted} \<longleftrightarrow> lk_state lk tx \<noteq> Growing \<and> lk_state lk tx \<noteq> Shrinking"
    by (cases "lk_state lk tx") auto
  let ?hs = "entries (lk_table lk) r"
  have d: "distinct (map fst ?hs)" by (rule neat_entries [OF ok(1)])
  show "unlock tx r lk =
    (if lk_state lk tx \<in> {Committed, Aborted} \<or> lock_view lk r tx = None then (False, lk) else (True, snd (unlock tx r lk)))"
    unfolding st by (auto simp: unlock_def lock_view_def entries_def split: option.split)
  assume a: "lk_state lk tx \<notin> {Committed, Aborted}" "lock_view lk r tx \<noteq> None"
  then obtain m where m: "map_of ?hs tx = Some m" by (auto simp: lock_view_def)
  have hs: "map_of (lk_table lk) r = Some ?hs" using m by (auto simp: neat_map_of [OF ok(1)])
  have held: "r \<in> set (entries (lk_held lk) tx)" using ok(3) a(2) by simp
  then have rs: "map_of (lk_held lk) tx = Some (entries (lk_held lk) tx)" by (auto simp: neat_map_of [OF ok(2)])
  have del: "map_of (remove1 (tx, m) ?hs) = (map_of ?hs)(tx := None)"
    using remove1_filter_key [OF d map_of_SomeD [OF m]] by (simp add: map_of_filter_key)
  let ?lk = "snd (unlock tx r lk)"
  have u: "?lk = lk\<lparr>lk_table := store_entries r (remove1 (tx, m) ?hs) (lk_table lk),
      lk_held := store_entries tx (removeAll r (entries (lk_held lk) tx)) (lk_held lk),
      lk_state := (lk_state lk)(tx := Shrinking)\<rparr>"
    using a(1) st by (auto simp: unlock_def hs m rs)
  have v: "lock_view ?lk = (lock_view lk)(r := (lock_view lk r)(tx := None))"
    by (auto simp: u lock_view_def del fun_eq_iff)
  have "neat fst (lk_table ?lk)" "neat id (lk_held ?lk)"
    using ok(1,2) d neat_entries [OF ok(2), of tx]
      remove1_filter_key [OF d map_of_SomeD [OF m]]
    by (auto simp: u intro!: neat_store distinct_removeAll distinct_map_filter)
  moreover have "r' \<in> set (entries (lk_held ?lk) t) \<longleftrightarrow> lock_view ?lk r' t \<noteq> None" for r' t
    using ok(3) [of r' t] unfolding v by (auto simp: u)
  moreover have "\<not> conflicts m n" if "lock_view ?lk r' t = Some m" "lock_view ?lk r' w = Some n" "t \<noteq> w" for r' t m w n
    using that ok(4) [of r' t m w n] unfolding v by (auto split: if_splits)
  moreover have "lk_state ?lk t \<in> {Growing, Shrinking}" if "lock_view ?lk r' t \<noteq> None" for r' t
    using that ok(5) [of r' t] unfolding v by (auto simp: u split: if_splits)
  ultimately have "lk_ok ?lk" unfolding lk_ok_def by blast
  with v show "lock_view ?lk = (lock_view lk)(r := (lock_view lk r)(tx := None)) \<and>
      lk_state ?lk = (lk_state lk)(tx := Shrinking) \<and> lk_ok ?lk" by (simp add: u)
qed

section \<open>Locking\<close>

text \<open>Every outcome of a round of \<^verbatim>\<open>lock\<close>, in terms of the locks as a map.\<close>

lemma lock_round_cases:
  assumes "lk_ok lk" "lk_state lk tx = Growing"
  obtains (held) "lock_view lk r tx = Some mode" "lock_round tx r mode lk = (Returned True, lk)"
    | (downgrade) "lock_view lk r tx = Some Exclusive" "mode = Shared" "lock_round tx r mode lk = (Returned False, lk)"
    | (granted) lk' where "lock_view lk r tx = None \<or> mode = Exclusive" "compatible tx r mode lk" "lock_round tx r mode lk = (Returned True, lk')"
        "lk_ok lk'" "lock_view lk' = (lock_view lk)(r := (lock_view lk r)(tx \<mapsto> mode))" "lk_state lk' = lk_state lk"
    | (dies) lk' t m where "lock_view lk r t = Some m" "conflicts mode m" "t < tx" "lock_round tx r mode lk = (Returned False, lk')"
        "lk_ok lk'" "lock_view lk' = (\<lambda>r. (lock_view lk r)(tx := None))" "lk_state lk' = (lk_state lk)(tx := Aborted)"
    | (waits) "lock_round tx r mode lk = (Waiting, lk)" "\<not> compatible tx r mode lk"
        "\<And>t m. lock_view lk r t = Some m \<Longrightarrow> t \<noteq> tx \<Longrightarrow> conflicts mode m \<Longrightarrow> tx < t"
proof (cases "lock_view lk r tx = Some mode")
  case True
  then show ?thesis by (intro held) (simp_all add: lock_round_def lock_view_def)
next
  case nh: False
  note own = nh [unfolded lock_view_def]
  show ?thesis
  proof (cases "lock_view lk r tx = Some Exclusive \<and> mode = Shared")
    case True
    then show ?thesis by (intro downgrade) (simp_all add: lock_round_def lock_view_def)
  next
    case nd: False
    have m: "lock_view lk r tx \<noteq> None \<longrightarrow> mode = Exclusive" using nh nd by (cases "lock_view lk r tx"; cases "the (lock_view lk r tx)"; cases mode) auto
    have run: "lock_round tx r mode lk =
        (if compatible tx r mode lk then (Returned True, grant tx r mode lk)
         else if requester_is_younger_than_conflict tx r mode lk then
           (Returned False, (release_all tx lk)\<lparr>lk_state := (lk_state (release_all tx lk))(tx := Aborted)\<rparr>)
         else (Waiting, lk))"
      using own nd by (auto simp: lock_round_def Let_def lock_view_def)
    show ?thesis
    proof (cases "compatible tx r mode lk")
      case True
      with grant_ok [OF assms(1) True m assms(2)] grant_view [OF m] run m show ?thesis
        by (intro granted [of "grant tx r mode lk"]) auto
    next
      case nc: False
      show ?thesis
      proof (cases "requester_is_younger_than_conflict tx r mode lk")
        case True
        then obtain t n where "lock_view lk r t = Some n" "conflicts mode n" "t < tx" by (auto simp: younger_view [OF assms(1)])
        with True nc run [unfolded release_all_view(2) [OF assms(1)]] release_all_ok [OF assms(1), of tx Aborted]
          release_all_view(1) [OF assms(1), of tx] show ?thesis
          by (intro dies [of t n "(release_all tx lk)\<lparr>lk_state := (lk_state lk)(tx := Aborted)\<rparr>"])
             (simp_all add: lock_view_def fun_eq_iff)
      next
        case False
        then have "\<not> t < tx" if "lock_view lk r t = Some m" "t \<noteq> tx" "conflicts mode m" for t m
          using that by (auto simp: younger_view [OF assms(1)])
        with nc False run show ?thesis by (intro waits) force+
      qed
    qed
  qed
qed

lemma finish_transaction_spec:
  assumes "lk_ok lk"
  shows "lk_ok (finish_transaction s tx lk) \<and>
    lock_view (finish_transaction s tx lk) = (\<lambda>r. (lock_view lk r)(tx := None)) \<and>
    lk_state (finish_transaction s tx lk) = (if lk_state lk tx \<in> {Committed, Aborted} then lk_state lk else (lk_state lk)(tx := s))"
proof (cases "lk_state lk tx \<in> {Committed, Aborted}")
  case True
  then have "lock_view lk r tx = None" for r using lk_okD(5) [OF assms, of r tx] by fastforce
  with True assms show ?thesis by (auto simp: finish_transaction_def fun_eq_iff)
next
  case False
  then show ?thesis
    using release_all_ok [OF assms, of tx s] release_all_view(1) [OF assms, of tx]
    by (simp add: finish_transaction_def Let_def release_all_view(2) [OF assms] lock_view_def fun_eq_iff)
qed

lemma new_lock_manager_ok: "lk_ok new_lock_manager" "lock_view new_lock_manager = (\<lambda>r. Map.empty)"
  by (simp_all add: lk_ok_def new_lock_manager_def lock_view_def fun_eq_iff)

end
