(* ===== verification/Transaction.thy ===== *)
theory Transaction
  imports Mutation LockManager
begin

text \<open>
  Transactions (\<^verbatim>\<open>src/src/concurrency/transaction.cpp\<close>, \<^verbatim>\<open>transaction_coordinator.cpp\<close> and the transaction part
  of \<^verbatim>\<open>log_manager.cpp\<close>): the record of a transaction, its operations, commit and abort.

  The state of an operation holds the pool with its page manager, the log, the locks and the transaction it
  is called on. The transaction's capture context is the context component of the state;
  \<open>tx_has_context\<close> says whether the unique pointer to it is set. There is one pool, so the check that a
  transaction does not span two pools never fires.
\<close>

section \<open>State\<close>

record transaction =
  tx_id :: TransactionId
  tx_has_context :: bool
  tx_pending_mutations :: "physical_mutation list"
  tx_undo_resolved :: "bool list"
  tx_finalized_mutations :: nat
  tx_log_sink :: bool
  tx_allocation_manager :: bool
  tx_allocated_pages :: "PageId list"

record world = capture_state +
  w_log :: log_manager
  w_locks :: lock_manager
  w_tx :: transaction

definition new_transaction :: "TransactionId \<Rightarrow> bool \<Rightarrow> transaction" where
  "new_transaction tid sink =
     \<lparr>tx_id = tid, tx_has_context = False, tx_pending_mutations = [], tx_undo_resolved = [], tx_finalized_mutations = 0,
      tx_log_sink = sink, tx_allocation_manager = False, tx_allocated_pages = []\<rparr>"

text \<open>
  The log manager is also the pool's durability provider: whatever a log operation makes durable is what the
  provider answers from then on.
\<close>

definition with_log :: "log_manager \<Rightarrow> world \<Rightarrow> world" where
  "with_log lm w = w\<lparr>w_log := lm, cs_pool := (cs_pool w)\<lparr>bp_wal_durability := Some (lm_durable_lsn lm)\<rparr>\<rparr>"

definition on_wal :: "(log_manager, 'a) op \<Rightarrow> (world, 'a) op" where
  "on_wal = zoom w_log with_log"

definition on_tx :: "(transaction \<Rightarrow> transaction) \<Rightarrow> (world, unit) op" where
  "on_tx g = modify (\<lambda>w. w\<lparr>w_tx := g (w_tx w)\<rparr>)"

text \<open>The page manager and the log together, for the logged allocation.\<close>

definition on_storage :: "(page_manager \<times> log_manager, 'a) op \<Rightarrow> (world, 'a) op" where
  "on_storage = zoom (\<lambda>w. (bp_page_manager (cs_pool w), w_log w))
     (\<lambda>(pm, lm) w. with_log lm (w\<lparr>cs_pool := (cs_pool w)\<lparr>bp_page_manager := pm\<rparr>\<rparr>))"

section \<open>Beginning\<close>

record transaction_manager =
  tm_next_id :: TransactionId
  tm_log_sink :: bool

definition new_transaction_manager :: "bool \<Rightarrow> transaction_manager" where
  "new_transaction_manager sink = \<lparr>tm_next_id = 1, tm_log_sink = sink\<rparr>"

text \<open>The counter is advanced before the record is logged, so a failed append uses a number up.\<close>

definition begin_transaction :: "(transaction_manager \<times> log_manager, transaction) op" where
  "begin_transaction =
     bindE (gets fst) (\<lambda>tm.
     bindE (modify (\<lambda>(tm, lm). (tm\<lparr>tm_next_id := tm_next_id tm + 1\<rparr>, lm))) (\<lambda>_.
     bindE (if tm_log_sink tm then zoom snd (\<lambda>lm s. (fst s, lm)) (log_begin (tm_next_id tm)) else ret ()) (\<lambda>_.
     ret (new_transaction (tm_next_id tm) (tm_log_sink tm)))))"

section \<open>Operations\<close>

definition use_mutation_context :: "(world, unit) op" where
  "use_mutation_context =
     bindE (gets (\<lambda>w. tx_has_context (w_tx w))) (\<lambda>present.
     if present then ret ()
     else
       bindE (modify (\<lambda>w. w\<lparr>cs_context := new_context\<rparr>)) (\<lambda>_.
       on_tx (\<lambda>tx. tx\<lparr>tx_has_context := True\<rparr>)))"

definition tx_allocate_page :: "(world, PageId) op" where
  "tx_allocate_page =
     bindE (gets w_tx) (\<lambda>tx.
     bindE (if \<not> tx_log_sink tx then on_pool (on_disk allocate_page)
            else on_storage (allocate_transactional_page (tx_id tx))) (\<lambda>page.
     bindE (on_tx (\<lambda>tx. tx\<lparr>tx_allocation_manager := True, tx_allocated_pages := tx_allocated_pages tx @ [page]\<rparr>)) (\<lambda>_.
     ret page)))"

definition finalize_mutation :: "physical_mutation \<Rightarrow> (world, uint64 option) op" where
  "finalize_mutation m =
     bindE (on_tx (\<lambda>tx. tx\<lparr>tx_pending_mutations := tx_pending_mutations tx @ [m],
       tx_undo_resolved := tx_undo_resolved tx @ [False]\<rparr>)) (\<lambda>_.
     bindE (gets w_tx) (\<lambda>tx.
     if tx_log_sink tx then
       bindE (on_wal (log_physical_mutation (tx_id tx) m)) (\<lambda>lsn.
       bindE (require (lsn \<noteq> 0) (LogicError Zero_lsn_logged)) (\<lambda>_.
       bindE (on_tx (\<lambda>tx. tx\<lparr>tx_finalized_mutations := tx_finalized_mutations tx + 1\<rparr>)) (\<lambda>_.
       ret (Some lsn))))
     else ret None))"

definition has_unfinalized_mutations :: "world \<Rightarrow> bool" where
  "has_unfinalized_mutations w \<longleftrightarrow>
     tx_has_context (w_tx w) \<and> has_unfinished_capture (cs_context w) \<or>
     tx_finalized_mutations (w_tx w) \<noteq> length (tx_pending_mutations (w_tx w))"

definition has_unresolved_mutations_for_abort :: "world \<Rightarrow> bool" where
  "has_unresolved_mutations_for_abort w \<longleftrightarrow>
     tx_has_context (w_tx w) \<and> has_unfinished_capture (cs_context w) \<or>
     (\<exists>k < length (tx_pending_mutations (w_tx w)). \<not> tx_undo_resolved (w_tx w) ! k)"

definition finalize_next_mutation :: "uint64 \<Rightarrow> (world, unit) op" where
  "finalize_next_mutation lsn =
     bindE (gets w_tx) (\<lambda>tx.
     bindE (require (tx_has_context tx \<and> tx_finalized_mutations tx \<noteq> length (tx_pending_mutations tx)) (LogicError Nothing_to_finalize)) (\<lambda>_.
     bindE (on_pool (finalize_pending_mutation (mu_page_id (tx_pending_mutations tx ! tx_finalized_mutations tx)) lsn)) (\<lambda>_.
     on_tx (\<lambda>tx. tx\<lparr>tx_finalized_mutations := tx_finalized_mutations tx + 1\<rparr>))))"

definition resolve_mutation_for_undo :: "nat \<Rightarrow> uint64 \<Rightarrow> (world, unit) op" where
  "resolve_mutation_for_undo k restored_page_lsn =
     bindE (gets w_tx) (\<lambda>tx.
     bindE (require (tx_has_context tx \<and> k < length (tx_pending_mutations tx)) (LogicError Invalid_undo_resolution)) (\<lambda>_.
     bindE (require (\<not> tx_undo_resolved tx ! k) (LogicError Already_resolved)) (\<lambda>_.
     bindE (require (list_all (\<lambda>resolved. resolved) (drop (k + 1) (tx_undo_resolved tx))) (LogicError Reverse_order_required)) (\<lambda>_.
     bindE (let page_id = mu_page_id (tx_pending_mutations tx ! k) in
            if k < tx_finalized_mutations tx then on_pool (restore_page_lsn_after_undo page_id restored_page_lsn)
            else on_pool (resolve_pending_mutation page_id restored_page_lsn)) (\<lambda>_.
     on_tx (\<lambda>tx. tx\<lparr>tx_undo_resolved := (tx_undo_resolved tx)[k := True]\<rparr>))))))"

text \<open>The loop over the mutations, from the last one: \<open>undo_mutations n\<close> handles the first \<open>n\<close>.\<close>

fun undo_mutations :: "nat \<Rightarrow> (world, unit) op" where
  "undo_mutations 0 = ret ()"
| "undo_mutations (Suc k) =
     bindE (gets w_tx) (\<lambda>tx.
     bindE (if tx_undo_resolved tx ! k then ret ()
       else
         bindE (require (tx_has_context tx) (LogicError No_buffer_pool)) (\<lambda>_.
         bindE (on_pool (apply_before_image (tx_pending_mutations tx ! k))) (\<lambda>_.
         resolve_mutation_for_undo k (mu_previous_page_lsn (tx_pending_mutations tx ! k))))) (\<lambda>_.
     undo_mutations k))"

fun release_pages :: "PageId list \<Rightarrow> (page_manager, unit) op" where
  "release_pages [] = ret ()"
| "release_pages (i # is) =
     bindE (gets (is_page_allocated i)) (\<lambda>allocated.
     bindE (if allocated then deallocate_page i else ret ()) (\<lambda>_.
     release_pages is))"

definition rollback_for_abort :: "(world, unit) op" where
  "rollback_for_abort =
     bindE (gets (\<lambda>w. tx_has_context (w_tx w) \<and> has_unfinished_capture (cs_context w))) (\<lambda>unfinished.
     bindE (require (\<not> unfinished) (LogicError Abort_unfinished_capture)) (\<lambda>_.
     bindE (gets (\<lambda>w. length (tx_pending_mutations (w_tx w)))) (\<lambda>n.
     bindE (undo_mutations n) (\<lambda>_.
     bindE (gets w_tx) (\<lambda>tx.
     if tx_allocation_manager tx then on_pool (on_disk (release_pages (rev (tx_allocated_pages tx)))) else ret ())))))"

section \<open>Commit and abort\<close>

definition prepare_commit :: "(world, unit) op" where
  "prepare_commit =
     bindE (gets has_unfinalized_mutations) (\<lambda>unfinalized.
     bindE (require (\<not> unfinalized) (WalError Unlogged_mutations)) (\<lambda>_.
     bindE (gets (\<lambda>w. tx_id (w_tx w))) (\<lambda>tid.
     bindE (on_wal (append_commit tid)) (\<lambda>_.
     on_wal wal_flush))))"

definition prepare_abort :: "(world, unit) op" where
  "prepare_abort =
     bindE rollback_for_abort (\<lambda>_.
     bindE (gets has_unresolved_mutations_for_abort) (\<lambda>unresolved.
     bindE (require (\<not> unresolved) (WalError Unresolved_mutations)) (\<lambda>_.
     bindE (gets (\<lambda>w. tx_id (w_tx w))) (\<lambda>tid.
     bindE (on_wal (append_abort tid)) (\<lambda>_.
     on_wal wal_flush)))))"

definition tx_state :: "world \<Rightarrow> TransactionState" where
  "tx_state w = lk_state (w_locks w) (tx_id (w_tx w))"

text \<open>\<open>participant\<close> says whether the coordinator has a durability participant, which is the log manager.\<close>

definition coordinator_commit :: "bool \<Rightarrow> (world, unit) op" where
  "coordinator_commit participant =
     bindE (gets tx_state) (\<lambda>state.
     if state = Committed \<or> state = Aborted then ret ()
     else
       bindE (if participant then prepare_commit else ret ()) (\<lambda>_.
       bindE (gets has_unfinalized_mutations) (\<lambda>unfinalized.
       bindE (require (\<not> unfinalized) (LogicError Commit_unfinalized)) (\<lambda>_.
       modify (\<lambda>w. w\<lparr>w_locks := commit_locks (tx_id (w_tx w)) (w_locks w)\<rparr>)))))"

definition coordinator_abort :: "bool \<Rightarrow> (world, unit) op" where
  "coordinator_abort participant =
     bindE (gets tx_state) (\<lambda>state.
     if state = Committed \<or> state = Aborted then ret ()
     else
       bindE (if participant then prepare_abort else ret ()) (\<lambda>_.
       bindE (gets has_unresolved_mutations_for_abort) (\<lambda>unresolved.
       bindE (require (\<not> unresolved) (LogicError Abort_unresolved)) (\<lambda>_.
       modify (\<lambda>w. w\<lparr>w_locks := abort_locks (tx_id (w_tx w)) (w_locks w)\<rparr>)))))"

end
