(* ===== verification/TransactionHistory.thy ===== *)
theory TransactionHistory
  imports Transaction
begin

text \<open>
  The histories of a transaction: what its updates do to the pages and to the log, that rolling it back
  restores every page, and that committing it makes its records durable.
\<close>

section \<open>Undoing mutations\<close>

text \<open>The effect of undoing one mutation, and a list of them from the last one, on the pages.\<close>

definition undo_one :: "physical_mutation \<Rightarrow> (PageId \<rightharpoonup> page) \<Rightarrow> PageId \<rightharpoonup> page" where
  "undo_one m V = (case V (mu_page_id m) of None \<Rightarrow> V
     | Some p \<Rightarrow> V(mu_page_id m \<mapsto> p\<lparr>pg_payload := mu_before_image m, pg_lsn := mu_previous_page_lsn m\<rparr>))"

definition undo_all :: "physical_mutation list \<Rightarrow> (PageId \<rightharpoonup> page) \<Rightarrow> PageId \<rightharpoonup> page" where
  "undo_all ms V = foldr undo_one ms V"

lemma undo_all_simps [simp]: "undo_all [] V = V" "undo_all (ms @ [m]) V = undo_all ms (undo_one m V)"
  by (simp_all add: undo_all_def)

lemma undo_one_dom [simp]: "dom (undo_one m V) = dom V"
  by (auto simp: undo_one_def split: option.splits)

lemma undo_one_update:
  "V i = Some p \<Longrightarrow> mu_page_id m = i \<Longrightarrow> mu_before_image m = pg_payload p \<Longrightarrow> mu_previous_page_lsn m = pg_lsn p \<Longrightarrow>
     undo_one m (V(i \<mapsto> p\<lparr>pg_payload := bs, pg_lsn := l\<rparr>)) = V"
  by (auto simp: undo_one_def fun_eq_iff)

section \<open>The state of a transaction at work\<close>

text \<open>
  \<open>tx_work V0 n rs w\<close>: the transaction began when the pages were \<open>V0\<close>; the log holds the records \<open>rs\<close>; all but the
  first \<open>n\<close> of its mutations have been undone, and undoing those gives \<open>V0\<close> back.
\<close>

definition tx_shape :: "nat \<Rightarrow> transaction \<Rightarrow> bool" where
  "tx_shape n tx \<longleftrightarrow> tx_log_sink tx \<and> n \<le> length (tx_pending_mutations tx) \<and>
     tx_undo_resolved tx = replicate n False @ replicate (length (tx_pending_mutations tx) - n) True \<and>
     tx_finalized_mutations tx = length (tx_pending_mutations tx) \<and> (tx_pending_mutations tx \<noteq> [] \<longrightarrow> tx_has_context tx)"

definition logged :: "wal_record list \<Rightarrow> transaction \<Rightarrow> bool" where
  "logged rs tx \<longleftrightarrow> (\<forall>m \<in> set (tx_pending_mutations tx). \<exists>r \<in> set rs.
     wr_transaction_id r = tx_id tx \<and> wr_type r = PhysicalMutation \<and> encode_physical_mutation m = Inr (wr_payload r))"

definition attached :: "world \<Rightarrow> bool" where
  "attached w \<longleftrightarrow> bp_wal_durability (cs_pool w) = Some (lm_durable_lsn (w_log w))"

definition tx_work :: "(PageId \<rightharpoonup> page) \<Rightarrow> nat \<Rightarrow> wal_record list \<Rightarrow> world \<Rightarrow> bool" where
  "tx_work V0 n rs w \<longleftrightarrow> cache_ok {} (cs_pool w) \<and> attached w \<and> wf_log (w_log w) rs \<and> logged rs (w_tx w) \<and>
     tx_shape n (w_tx w) \<and> (tx_has_context (w_tx w) \<longrightarrow> \<not> has_unfinished_capture (cs_context w)) \<and>
     undo_all (take n (tx_pending_mutations (w_tx w))) (pool_view (cs_pool w)) = V0"

text \<open>What the provider answers does not matter for the pages.\<close>

lemma durability_irrelevant [simp]:
  "cache_ok I (bp\<lparr>bp_wal_durability := d\<rparr>) = cache_ok I bp" "pool_view (bp\<lparr>bp_wal_durability := d\<rparr>) = pool_view bp"
  "pool_pins (bp\<lparr>bp_wal_durability := d\<rparr>) = pool_pins bp" "pinned_at (bp\<lparr>bp_wal_durability := d\<rparr>) = pinned_at bp"
  "page_at f (bp\<lparr>bp_wal_durability := d\<rparr>) = page_at f bp" "find_frame i (bp\<lparr>bp_wal_durability := d\<rparr>) = find_frame i bp"
  by (simp_all add: cache_ok_def pool_ok_def pool_inv_def coherent_def find_frame_def no_pending_def pool_view_def pool_pins_def
      pin_count_def pinned_at_def page_at_def fun_eq_iff split: option.split)

lemma wp_on_pool: "wp (on_pool m) Q E s =
    wp m (\<lambda>x bp. Q x (s\<lparr>cs_pool := bp\<rparr>)) (\<lambda>e bp. E e (s\<lparr>cs_pool := bp\<rparr>)) (cs_pool s)"
  by (simp add: on_pool_def wp_zoom)

lemma wp_on_wal: "wp (on_wal m) Q E w = wp m (\<lambda>x lm. Q x (with_log lm w)) (\<lambda>e lm. E e (with_log lm w)) (w_log w)"
  by (simp add: on_wal_def wp_zoom)

lemma wp_on_tx: "wp (on_tx g) Q E w = Q () (w\<lparr>w_tx := g (w_tx w)\<rparr>)"
  by (simp add: on_tx_def wp_simps)

section \<open>Rolling back\<close>

lemma provider_apply_image: "keeps (provider d) (apply_image m bs)"
  unfolding apply_image_def by (intro keeps_intros)

text \<open>\<open>undone w w'\<close>: only the pool and the flags of the undone mutations differ.\<close>

definition undone :: "world \<Rightarrow> world \<Rightarrow> bool" where
  "undone w w' \<longleftrightarrow> (\<exists>bp u. w' = w\<lparr>cs_pool := bp, w_tx := (w_tx w)\<lparr>tx_undo_resolved := u\<rparr>\<rparr>)"

lemma undone_refl [simp]: "undone w w"
  unfolding undone_def by (intro exI [of _ "cs_pool w"] exI [of _ "tx_undo_resolved (w_tx w)"]) simp

lemma undone_trans: "undone w w1 \<Longrightarrow> undone w1 w2 \<Longrightarrow> undone w w2"
  unfolding undone_def by fastforce

lemma undone_pool: "undone w (w\<lparr>cs_pool := bp\<rparr>)"
  unfolding undone_def by (intro exI [of _ bp] exI [of _ "tx_undo_resolved (w_tx w)"]) simp

lemma tx_workD:
  assumes "tx_work V0 n rs w"
  shows "cache_ok {} (cs_pool w)" "attached w" "wf_log (w_log w) rs" "logged rs (w_tx w)" "tx_shape n (w_tx w)"
    "tx_has_context (w_tx w) \<Longrightarrow> \<not> has_unfinished_capture (cs_context w)"
    "undo_all (take n (tx_pending_mutations (w_tx w))) (pool_view (cs_pool w)) = V0"
  using assms by (simp_all add: tx_work_def)

lemma tx_work_pool:
  assumes "tx_work V0 n rs w" "cache_ok {} bp" "bp_wal_durability bp = bp_wal_durability (cs_pool w)" "pool_view bp = pool_view (cs_pool w)"
  shows "tx_work V0 n rs (w\<lparr>cs_pool := bp\<rparr>)"
  using assms by (simp add: tx_work_def attached_def)

lemma tx_shape_flags:
  assumes "tx_shape (Suc k) tx"
  shows "\<not> tx_undo_resolved tx ! k" "k < length (tx_pending_mutations tx)" "k < tx_finalized_mutations tx" "tx_has_context tx"
    "list_all (\<lambda>b. b) (drop (k + 1) (tx_undo_resolved tx))" "tx_shape k (tx\<lparr>tx_undo_resolved := (tx_undo_resolved tx)[k := True]\<rparr>)"
proof -
  let ?n = "length (tx_pending_mutations tx)"
  have s: "Suc k \<le> ?n" "tx_undo_resolved tx = replicate (Suc k) False @ replicate (?n - Suc k) True"
    using assms by (simp_all add: tx_shape_def)
  then show "\<not> tx_undo_resolved tx ! k" "k < ?n" "k < tx_finalized_mutations tx" "tx_has_context tx"
    "list_all (\<lambda>b. b) (drop (k + 1) (tx_undo_resolved tx))"
    using assms by (auto simp: tx_shape_def nth_append list_all_iff simp del: replicate.simps)
  have "(replicate k False @ False # r)[k := True] = replicate k False @ True # r" for r by (simp add: list_update_append)
  moreover have "replicate (?n - k) True = True # replicate (?n - Suc k) True" using s(1) by (metis Suc_diff_le diff_Suc_Suc replicate_Suc)
  ultimately have "(tx_undo_resolved tx)[k := True] = replicate k False @ replicate (?n - k) True"
    by (simp add: s(2) replicate_append_same [symmetric] del: replicate_append_same)
  with assms show "tx_shape k (tx\<lparr>tx_undo_resolved := (tx_undo_resolved tx)[k := True]\<rparr>)"
    by (simp add: tx_shape_def)
qed

lemma undo_step_spec:
  assumes "tx_work V0 (Suc k) rs w"
  defines "m \<equiv> tx_pending_mutations (w_tx w) ! k"
  shows "wp (bindE (on_pool (apply_before_image m)) (\<lambda>_. resolve_mutation_for_undo k (mu_previous_page_lsn m)))
    (\<lambda>_ w'. tx_work V0 k rs w' \<and> undone w w') (\<lambda>_ w'. tx_work V0 (Suc k) rs w' \<and> undone w w') w"
proof -
  note t = tx_workD [OF assms(1)] and f = tx_shape_flags [OF tx_workD(5) [OF assms(1)]]
  let ?bp = "cs_pool w" and ?i = "mu_page_id m"
  have take: "take (Suc k) (tx_pending_mutations (w_tx w)) = take k (tx_pending_mutations (w_tx w)) @ [m]"
    using f(2) by (simp add: take_Suc_conv_app_nth m_def)
  show ?thesis
    unfolding wp_bindE wp_on_pool apply_before_image_def
  proof (rule wp_mono [OF wp_conj [OF apply_image_spec [OF t(1)] keeps_wp [OF provider_apply_image [of "bp_wal_durability ?bp"] refl]]], goal_cases)
    case (1 u bp1)
    then obtain p where b1: "cache_ok {} bp1" "is_dirty ?i bp1 = Some True" "bp_wal_durability bp1 = bp_wal_durability ?bp"
      and p: "pool_view ?bp ?i = Some p" "pool_view bp1 = (pool_view ?bp)(?i \<mapsto> p\<lparr>pg_payload := mu_before_image m\<rparr>)" by auto
    have run: "wp (resolve_mutation_for_undo k (mu_previous_page_lsn m)) Q E (w\<lparr>cs_pool := bp1\<rparr>) =
        wp (restore_page_lsn_after_undo ?i (mu_previous_page_lsn m)) (\<lambda>_ bp2. Q () (w\<lparr>cs_pool := bp2,
           w_tx := (w_tx w)\<lparr>tx_undo_resolved := (tx_undo_resolved (w_tx w))[k := True]\<rparr>\<rparr>)) (\<lambda>e bp2. E e (w\<lparr>cs_pool := bp2\<rparr>)) bp1" for Q E
      using f(1-5) by (simp add: resolve_mutation_for_undo_def wp_bindE wp_gets wp_require wp_on_pool wp_on_tx m_def Let_def)
    have q: "pool_view bp1 ?i = Some (p\<lparr>pg_payload := mu_before_image m\<rparr>)" using p(2) by simp
    show ?case
      unfolding run
    proof (rule wp_mono [OF wp_conj [OF pc.restore_law [OF b1(1) disjI2 [OF b1(2)] q] keeps_wp [OF provider_ops(5) b1(3)]]], goal_cases)
      case (1 v bp2)
      have "undo_one m (pool_view ?bp) = pool_view bp2" using 1 p by (simp add: undo_one_def)
      then have "undo_all (take k (tx_pending_mutations (w_tx w))) (pool_view bp2) = V0" using t(7) take by simp
      with 1 t f(6) show ?case by (auto simp: tx_work_def attached_def logged_def undone_def)
    qed simp
  next
    case (2 e bp1)
    then show ?case using tx_work_pool [OF assms(1)] undone_pool by simp
  qed
qed

lemma undo_mutations_spec:
  assumes "tx_work V0 n rs w"
  shows "wp (undo_mutations n) (\<lambda>_ w'. tx_work V0 0 rs w' \<and> undone w w') (\<lambda>_ w'. (\<exists>k \<le> n. tx_work V0 k rs w') \<and> undone w w') w"
  using assms
proof (induction n arbitrary: w)
  case 0
  then show ?case by (simp add: wp_ret)
next
  case (Suc k)
  note f = tx_shape_flags [OF tx_workD(5) [OF Suc.prems]]
  have run: "wp (undo_mutations (Suc k)) Q E w =
      wp (bindE (on_pool (apply_before_image (tx_pending_mutations (w_tx w) ! k))) (\<lambda>_.
         resolve_mutation_for_undo k (mu_previous_page_lsn (tx_pending_mutations (w_tx w) ! k))))
        (\<lambda>_. wp (undo_mutations k) Q E) E w" for Q E
    using f(1,4) by (simp add: wp_bindE wp_gets wp_require)
  show ?case
    unfolding run
  proof (rule wp_mono [OF undo_step_spec [OF Suc.prems]], goal_cases)
    case (1 u w1)
    then have w1: "tx_work V0 k rs w1" "undone w w1" by simp_all
    show ?case
      by (rule wp_mono [OF Suc.IH [OF w1(1)]]) (use undone_trans [OF w1(2)] in \<open>auto intro: le_SucI\<close>)
  next
    case (2 e w1)
    then show ?case by blast
  qed
qed

section \<open>Updating a page\<close>

text \<open>
  The pattern every transactional change follows: fetch the page, watch it, change the payload in place, finish
  the capture and unpin the page dirty.
\<close>

definition updates_page :: "PageId \<Rightarrow> byte list \<Rightarrow> world \<Rightarrow> world \<Rightarrow> bool" where
  "updates_page i bs w w' \<longleftrightarrow> (\<exists>f w1 w2 w3 w4 w5 b.
     on_pool (fetch_page i) w = (Inr (Some f), w1) \<and> use_mutation_context w1 = (Inr (), w2) \<and> watch i w2 = (Inr (), w3) \<and>
     on_pool (set_payload f bs) w3 = (Inr (), w4) \<and> finish (Some finalize_mutation) i f w4 = (Inr (), w5) \<and>
     on_pool (unpin_page i True) w5 = (Inr b, w'))"

text \<open>The state while a page is being changed: the capture of its image is pending.\<close>

definition capturing :: "(PageId \<rightharpoonup> page) \<Rightarrow> wal_record list \<Rightarrow> PageId \<Rightarrow> FrameId \<Rightarrow> page \<Rightarrow> world \<Rightarrow> bool" where
  "capturing V0 rs i f p w \<longleftrightarrow> cache_ok {} (cs_pool w) \<and> attached w \<and> wf_log (w_log w) rs \<and> logged rs (w_tx w) \<and>
     tx_shape (length (tx_pending_mutations (w_tx w))) (w_tx w) \<and> tx_has_context (w_tx w) \<and>
     undo_all (tx_pending_mutations (w_tx w)) (pool_view (cs_pool w)) = V0 \<and> pool_view (cs_pool w) i = Some p \<and> pinned_at (cs_pool w) i f \<and>
     mc_pending (cs_context w) = [\<lparr>pc_id = i, pc_before = pg_payload p, pc_previous_page_lsn = pg_lsn p\<rparr>]"

lemma watch_spec:
  assumes "tx_work V0 (length (tx_pending_mutations (w_tx w))) rs w" "on_pool (fetch_page i) w = (Inr (Some f), w1)"
    "use_mutation_context w1 = (Inr (), w2)" "watch i w2 = (Inr (), w3)"
  obtains p where "capturing V0 rs i f p w3" "pool_view (cs_pool w3) = pool_view (cs_pool w)" "w_log w3 = w_log w"
    "w_locks w3 = w_locks w" "tx_pending_mutations (w_tx w3) = tx_pending_mutations (w_tx w)"
    "w_tx w3 = (w_tx w)\<lparr>tx_has_context := True\<rparr>"
proof -
  note t = tx_workD [OF assms(1)]
  let ?d = "bp_wal_durability (cs_pool w)"
  have "wp (on_pool (fetch_page i)) (\<lambda>r s. r = Some f \<longrightarrow> (\<exists>bp. s = w\<lparr>cs_pool := bp\<rparr> \<and> cache_ok {} bp \<and> pool_view bp = pool_view (cs_pool w) \<and>
      pinned_at bp i f \<and> bp_wal_durability bp = ?d)) (\<lambda>_ _. True) w"
    unfolding wp_on_pool by (rule wp_mono [OF wp_conj [OF pc.fetch_law [OF t(1), of i] keeps_wp [OF provider_ops(1) refl]]]) auto
  from wp_InrD [OF this assms(2)] obtain bp1 where b1: "w1 = w\<lparr>cs_pool := bp1\<rparr>" "cache_ok {} bp1" "pool_view bp1 = pool_view (cs_pool w)"
      "pinned_at bp1 i f" "bp_wal_durability bp1 = ?d" by auto
  define mc where "mc = (if tx_has_context (w_tx w) then cs_context w else new_context)"
  have w2: "w2 = w1\<lparr>cs_context := mc, w_tx := (w_tx w)\<lparr>tx_has_context := True\<rparr>\<rparr>"
    using assms(3) by (auto simp: use_mutation_context_def mc_def b1(1) bindE_def gets_def ret_def modify_def on_tx_def split: if_splits)
  have mc: "mc_pending mc = []" using t(6) by (auto simp: mc_def new_context_def has_unfinished_capture_def)
  have "wp (watch i) (\<lambda>_ s. \<exists>bp p. s = w2\<lparr>cs_pool := bp, cs_context := mc\<lparr>mc_pending := [\<lparr>pc_id = i, pc_before = pg_payload p, pc_previous_page_lsn = pg_lsn p\<rparr>]\<rparr>\<rparr> \<and>
      pool_view bp1 i = Some p \<and> cache_ok {} bp \<and> pool_view bp = pool_view bp1 \<and> pinned_at bp i f \<and> bp_wal_durability bp = ?d) (\<lambda>_ _. True) w2"
  proof -
    have "keeps (provider ?d) (image i)" unfolding image_def by (intro keeps_intros)
    from wp_conj [OF image_spec [OF b1(2), of i] keeps_wp [OF this b1(5)]]
    have "wp (image i) (\<lambda>x bp. \<exists>p. x = (pg_payload p, pg_lsn p) \<and> pool_view bp1 i = Some p \<and> cache_ok {} bp \<and> pool_view bp = pool_view bp1 \<and>
        pinned_at bp i f \<and> bp_wal_durability bp = ?d) (\<lambda>_ _. True) bp1"
      by (rule wp_mono) (use b1(4) pinned_at_pins [OF b1(4)] in \<open>auto simp: moved_def\<close>)
    then show ?thesis
      unfolding watch_def wp_bindE wp_require wp_on_pool
      by (auto simp: w2 b1(1) upd_context_def wp_simps mc split: prod.split elim!: wp_mono)
  qed
  from wp_InrD [OF this assms(4)] obtain bp p where "w3 = w2\<lparr>cs_pool := bp, cs_context := mc\<lparr>mc_pending := [\<lparr>pc_id = i, pc_before = pg_payload p, pc_previous_page_lsn = pg_lsn p\<rparr>]\<rparr>\<rparr>"
      "pool_view bp1 i = Some p" "cache_ok {} bp" "pool_view bp = pool_view bp1" "pinned_at bp i f" "bp_wal_durability bp = ?d" by auto
  with t b1 show thesis
    by (intro that [of p]) (simp_all add: capturing_def w2 attached_def logged_def tx_shape_def)
qed

text \<open>The record of a mutation.\<close>

lemma mutation_record_ok:
  assumes "encode_physical_mutation m = Inr bs" "l \<noteq> 0"
  shows "record_ok \<lparr>wr_lsn = l, wr_transaction_id = tid, wr_type = PhysicalMutation, wr_payload = bs\<rparr>"
  using assms by (auto simp: encode_physical_mutation_def record_ok_def wal_size_defs size_defs split: if_splits)

lemma log_physical_mutation_spec:
  assumes "wf_log lm rs" "lm_next_lsn lm + 1 \<noteq> 0"
  shows "wp (log_physical_mutation tid m)
    (\<lambda>lsn lm'. lsn = lm_next_lsn lm \<and> lsn \<noteq> 0 \<and> lm_next_lsn lm' = lsn + 1 \<and> lm_durable_lsn lm' = lm_durable_lsn lm \<and> (\<exists>bs. encode_physical_mutation m = Inr bs \<and>
       wf_log lm' (rs @ [\<lparr>wr_lsn = lsn, wr_transaction_id = tid, wr_type = PhysicalMutation, wr_payload = bs\<rparr>])))
    (\<lambda>_ lm'. lm_durable_lsn lm' = lm_durable_lsn lm \<and> (isl (encode_physical_mutation m) \<or> \<not> fault_free (lm_file lm))) lm"
proof (cases "encode_physical_mutation m")
  case (Inl e)
  then show ?thesis by (simp add: log_physical_mutation_def append_physical_mutation_def wp_simps)
next
  case (Inr bs)
  have "lm_next_lsn lm \<noteq> 0" using assms(1) by (auto simp: wf_log_def)
  with Inr show ?thesis
    unfolding log_physical_mutation_def append_physical_mutation_def bindE_lift_Inr Inr
    by (intro wp_mono [OF append_wal_spec [OF assms]]) (use mutation_record_ok [OF Inr] in auto)
qed

definition captured :: "PageId \<Rightarrow> page \<Rightarrow> byte list \<Rightarrow> uint64 \<Rightarrow> physical_mutation" where
  "captured i p bs sequence = \<lparr>mu_page_id = i, mu_kind = PayloadWrite, mu_sequence = sequence, mu_before_image = pg_payload p,
     mu_after_image = bs, mu_previous_page_lsn = pg_lsn p\<rparr>"

lemma finalize_mutation_spec:
  assumes "wf_log (w_log w) rs" "lm_next_lsn (w_log w) + 1 \<noteq> 0" "tx_log_sink (w_tx w)"
  shows "wp (finalize_mutation m)
    (\<lambda>r w'. \<exists>l lm bs. r = Some l \<and> l \<noteq> 0 \<and> l = lm_next_lsn (w_log w) \<and> encode_physical_mutation m = Inr bs \<and> lm_next_lsn lm = l + 1 \<and> lm_durable_lsn lm = lm_durable_lsn (w_log w) \<and>
       wf_log lm (rs @ [\<lparr>wr_lsn = l, wr_transaction_id = tx_id (w_tx w), wr_type = PhysicalMutation, wr_payload = bs\<rparr>]) \<and>
       w' = (with_log lm w)\<lparr>w_tx := (w_tx w)\<lparr>tx_pending_mutations := tx_pending_mutations (w_tx w) @ [m],
         tx_undo_resolved := tx_undo_resolved (w_tx w) @ [False], tx_finalized_mutations := tx_finalized_mutations (w_tx w) + 1\<rparr>\<rparr>)
    (\<lambda>_ _. isl (encode_physical_mutation m) \<or> \<not> fault_free (lm_file (w_log w))) w"
proof -
  have "wp (log_physical_mutation (tx_id (w_tx w)) m) (\<lambda>lsn lm. lsn \<noteq> 0 \<and> lsn = lm_next_lsn (w_log w) \<and> lm_next_lsn lm = lsn + 1 \<and> lm_durable_lsn lm = lm_durable_lsn (w_log w) \<and> (\<exists>bs. encode_physical_mutation m = Inr bs \<and>
       wf_log lm (rs @ [\<lparr>wr_lsn = lsn, wr_transaction_id = tx_id (w_tx w), wr_type = PhysicalMutation, wr_payload = bs\<rparr>]))) (\<lambda>_ _. isl (encode_physical_mutation m) \<or> \<not> fault_free (lm_file (w_log w))) (w_log w)"
    by (rule wp_mono [OF log_physical_mutation_spec [OF assms(1,2)]]) auto
  then show ?thesis
    unfolding finalize_mutation_def wp_bindE wp_on_tx wp_gets
    by (simp add: assms(3) wp_bindE wp_on_wal wp_require wp_on_tx wp_ret with_log_def) (auto elim!: wp_mono)
qed

text \<open>The result of a finished capture, before the page is unpinned.\<close>

definition finished :: "(PageId \<rightharpoonup> page) \<Rightarrow> wal_record list \<Rightarrow> PageId \<Rightarrow> page \<Rightarrow> byte list \<Rightarrow> world \<Rightarrow> world \<Rightarrow> bool" where
  "finished V0 rs i p bs w w' \<longleftrightarrow> (\<exists>rs'. cache_ok {i} (cs_pool w') \<and> attached w' \<and> wf_log (w_log w') rs' \<and> set rs \<subseteq> set rs' \<and> logged rs' (w_tx w') \<and>
     tx_shape (length (tx_pending_mutations (w_tx w'))) (w_tx w') \<and> mc_pending (cs_context w') = [] \<and>
     undo_all (tx_pending_mutations (w_tx w')) (pool_view (cs_pool w')) = V0) \<and>
     pool_pins (cs_pool w') i \<noteq> 0 \<and> tx_id (w_tx w') = tx_id (w_tx w) \<and> w_locks w' = w_locks w \<and>
     tx_allocated_pages (w_tx w') = tx_allocated_pages (w_tx w) \<and>
     pool_view (cs_pool w') = (pool_view (cs_pool w))(i \<mapsto> (if bs = pg_payload p then p else p\<lparr>pg_payload := bs, pg_lsn := lm_next_lsn (w_log w)\<rparr>)) \<and>
     lm_next_lsn (w_log w') = lm_next_lsn (w_log w) + (if bs = pg_payload p then 0 else 1) \<and>
     tx_pending_mutations (w_tx w') = tx_pending_mutations (w_tx w) @
       (if bs = pg_payload p then [] else [captured i p bs (mc_next_sequence (cs_context w))])"

lemma finish_unchanged:
  assumes "capturing V0 rs i f p w" "cache_ok {i} bp" "pool_view bp = (pool_view (cs_pool w))(i \<mapsto> p)" "pinned_at bp i f"
    "bp_wal_durability bp = bp_wal_durability (cs_pool w)" "mc_pending mc = []"
  shows "finished V0 rs i p (pg_payload p) w (w\<lparr>cs_pool := bp, cs_context := mc\<rparr>)"
proof -
  have "pool_view bp = pool_view (cs_pool w)" using assms(1,3) by (auto simp: capturing_def fun_eq_iff)
  with assms pinned_at_pins [OF assms(4)] show ?thesis
    by (auto simp: finished_def capturing_def attached_def intro!: exI [of _ rs])
qed

lemma finish_changed:
  assumes "capturing V0 rs i f p w" "bs \<noteq> pg_payload p" "cache_ok {i} bp" "pinned_at bp i f"
    "pool_view bp = (pool_view (cs_pool w))(i \<mapsto> p\<lparr>pg_payload := bs, pg_lsn := lm_next_lsn (w_log w)\<rparr>)"
    "m = captured i p bs (mc_next_sequence (cs_context w))" "encode_physical_mutation m = Inr pay"
    "wf_log lm (rs @ [\<lparr>wr_lsn = l, wr_transaction_id = tx_id (w_tx w), wr_type = PhysicalMutation, wr_payload = pay\<rparr>])"
    "bp_wal_durability bp = Some (lm_durable_lsn lm)" "mc_pending mc = []" "lm_next_lsn lm = lm_next_lsn (w_log w) + 1"
    "cs_pool w' = bp" "cs_context w' = mc" "w_log w' = lm" "w_locks w' = w_locks w"
    "w_tx w' = (w_tx w)\<lparr>tx_pending_mutations := tx_pending_mutations (w_tx w) @ [m],
         tx_undo_resolved := tx_undo_resolved (w_tx w) @ [False], tx_finalized_mutations := tx_finalized_mutations (w_tx w) + 1\<rparr>"
  shows "finished V0 rs i p bs w w'"
proof -
  have v: "pool_view (cs_pool w) i = Some p" and c: "undo_all (tx_pending_mutations (w_tx w)) (pool_view (cs_pool w)) = V0"
    and l: "logged rs (w_tx w)" and sh: "tx_shape (length (tx_pending_mutations (w_tx w))) (w_tx w)" "tx_has_context (w_tx w)"
    using assms(1) by (simp_all add: capturing_def)
  have "undo_one m (pool_view bp) = pool_view (cs_pool w)"
    unfolding assms(5) by (rule undo_one_update) (simp_all add: v assms(6) captured_def)
  with c have "undo_all (tx_pending_mutations (w_tx w) @ [m]) (pool_view bp) = V0" by simp
  moreover have "tx_shape (length (tx_pending_mutations (w_tx w'))) (w_tx w')"
    using sh by (simp add: tx_shape_def assms(16) replicate_append_same)
  moreover have "logged (rs @ [\<lparr>wr_lsn = l, wr_transaction_id = tx_id (w_tx w), wr_type = PhysicalMutation, wr_payload = pay\<rparr>]) (w_tx w')"
    using l assms(7) by (auto simp: logged_def assms(16))
  ultimately show ?thesis
    unfolding finished_def using assms pinned_at_pins [OF assms(4)] by (auto simp: attached_def)
qed

lemma finish_spec:
  assumes "capturing V0 rs i f p w" "lm_next_lsn (w_log w) + 1 \<noteq> 0"
    and b4: "cache_ok {i} bp4" "pool_view bp4 = (pool_view (cs_pool w))(i \<mapsto> p\<lparr>pg_payload := bs\<rparr>)" "pinned_at bp4 i f"
      "bp_wal_durability bp4 = bp_wal_durability (cs_pool w)"
  shows "wp (finish (Some finalize_mutation) i f) (\<lambda>_. finished V0 rs i p bs w)
    (\<lambda>_ _. isl (encode_physical_mutation (captured i p bs (mc_next_sequence (cs_context w)))) \<or> \<not> fault_free (lm_file (w_log w))) (w\<lparr>cs_pool := bp4\<rparr>)"
proof -
  note c = assms(1) [unfolded capturing_def]
  have v4: "pool_view bp4 i = Some (p\<lparr>pg_payload := bs\<rparr>)" using b4(2) by simp
  have p4: "page_at f bp4 = p\<lparr>pg_payload := bs\<rparr>" by (rule pc.at_view [OF b4(1,3) v4])
  have "pg_id p = i" using pool_view_page [OF cache_okD(2) [of "{}" "cs_pool w"], of i p] c by simp
  let ?mc = "cs_context w" and ?pc = "\<lparr>pc_id = i, pc_before = pg_payload p, pc_previous_page_lsn = pg_lsn p\<rparr>"
  have it: "mc_pending ?mc = [?pc]" using c by simp
  have run: "wp (finish (Some finalize_mutation) i f) Q E (w\<lparr>cs_pool := bp4\<rparr>) =
      wp (capture (Some finalize_mutation) i bs (Some f)) Q E (w\<lparr>cs_pool := bp4\<rparr>)" for Q E
    using \<open>pg_id p = i\<close> by (simp add: finish_def wp_simps p4)
  show ?thesis
  proof (cases "bs = pg_payload p")
    case True
    have "finished V0 rs i p bs w (w\<lparr>cs_pool := bp4, cs_context := ?mc\<lparr>mc_pending := []\<rparr>\<rparr>)"
      using finish_unchanged [OF assms(1) b4(1) _ b4(3,4)] b4(2) True by simp
    then show ?thesis unfolding run using True by (simp add: capture_def wp_simps it upd_context_def)
  next
    case False
    let ?m = "captured i p bs (mc_next_sequence ?mc)"
    let ?mc1 = "?mc\<lparr>mc_next_sequence := mc_next_sequence ?mc + 1, mc_pending := [?pc\<lparr>pc_before := []\<rparr>]\<rparr>"
    let ?w = "w\<lparr>cs_pool := bp4, cs_context := ?mc1\<rparr>"
    have run2: "wp (capture (Some finalize_mutation) i bs (Some f)) Q E (w\<lparr>cs_pool := bp4\<rparr>) =
        wp (finalize_mutation ?m) (\<lambda>lsn. wp (case lsn of Some l \<Rightarrow> if l = 0 then throw (InvalidArgument Nonzero_lsn_required) else on_pool (set_page_lsn f l)
             | None \<Rightarrow> on_pool (mark_mutation_pending i)) (\<lambda>_ s. Q () (s\<lparr>cs_context := (cs_context s)\<lparr>mc_pending := erase_pending i (mc_pending (cs_context s))\<rparr>\<rparr>)) E) E ?w" for Q E
      using False by (simp add: capture_def wp_bindE wp_gets wp_if upd_context_def wp_modify it Let_def captured_def wp_funs)
    have fw: "wf_log (w_log ?w) rs" "lm_next_lsn (w_log ?w) + 1 \<noteq> 0" "tx_log_sink (w_tx ?w)" using c assms(2) by (simp_all add: tx_shape_def)
    show ?thesis
      unfolding run run2
    proof (rule wp_mono [OF finalize_mutation_spec [OF fw]], goal_cases)
      case (1 r w5)
      then obtain l lm pay where r: "r = Some l" "l \<noteq> 0" "l = lm_next_lsn (w_log w)" and enc: "encode_physical_mutation ?m = Inr pay"
          and lm: "wf_log lm (rs @ [\<lparr>wr_lsn = l, wr_transaction_id = tx_id (w_tx w), wr_type = PhysicalMutation, wr_payload = pay\<rparr>])"
          and nxt: "lm_next_lsn lm = lm_next_lsn (w_log w) + 1"
          and w5: "w5 = (with_log lm ?w)\<lparr>w_tx := (w_tx w)\<lparr>tx_pending_mutations := tx_pending_mutations (w_tx w) @ [?m],
            tx_undo_resolved := tx_undo_resolved (w_tx w) @ [False], tx_finalized_mutations := tx_finalized_mutations (w_tx w) + 1\<rparr>\<rparr>" by auto
      let ?bp = "bp4\<lparr>bp_wal_durability := Some (lm_durable_lsn lm)\<rparr>"
      have w5s: "cs_pool w5 = ?bp" by (simp add: w5 with_log_def)
      have b: "cache_ok {i} ?bp" "pinned_at ?bp i f" "pool_view ?bp i = Some (p\<lparr>pg_payload := bs\<rparr>)" using b4 by simp_all
      have "wp (set_page_lsn f l) (\<lambda>_ bp. cache_ok {i} bp \<and> pinned_at bp i f \<and> bp_wal_durability bp = Some (lm_durable_lsn lm) \<and>
          pool_view bp = (pool_view (cs_pool w))(i \<mapsto> p\<lparr>pg_payload := bs, pg_lsn := l\<rparr>)) (\<lambda>_ _. False) ?bp"
        by (rule wp_mono [OF wp_conj [OF pc.lsn_law [OF b, of l] keeps_wp [OF provider_ops(4) [of "Some (lm_durable_lsn lm)"]]]])
           (use b4 in auto)
      then show ?case
        unfolding r(1) option.case if_not_P [OF r(2)] wp_on_pool w5s
        by (elim wp_mono) (auto simp: w5 with_log_def r(3) nxt intro!: finish_changed [OF assms(1) False _ _ _ refl enc lm])
    qed simp
  qed
qed

abbreviation tx_active :: "(PageId \<rightharpoonup> page) \<Rightarrow> wal_record list \<Rightarrow> world \<Rightarrow> bool" where
  "tx_active V0 rs w \<equiv> tx_work V0 (length (tx_pending_mutations (w_tx w))) rs w"

lemma write_captured:
  assumes "capturing V0 rs i f p w" "length bs = kPagePayloadSize"
  shows "wp (on_pool (set_payload f bs)) (\<lambda>_ s. \<exists>bp. s = w\<lparr>cs_pool := bp\<rparr> \<and> cache_ok {i} bp \<and>
      pool_view bp = (pool_view (cs_pool w))(i \<mapsto> p\<lparr>pg_payload := bs\<rparr>) \<and> pinned_at bp i f \<and>
      bp_wal_durability bp = bp_wal_durability (cs_pool w)) (\<lambda>_ _. False) w"
proof -
  have c: "cache_ok {} (cs_pool w)" "pinned_at (cs_pool w) i f" "pool_view (cs_pool w) i = Some p" using assms(1) by (simp_all add: capturing_def)
  show ?thesis
    unfolding wp_on_pool
    by (rule wp_mono [OF wp_conj [OF pc.write_law [OF c assms(2)] keeps_wp [OF provider_ops(3) refl]]]) (use c(2) in auto)
qed

lemma unpin_finished:
  assumes "finished V0 rs i p bs w0 w"
  shows "wp (on_pool (unpin_page i True)) (\<lambda>_ s. \<exists>bp. s = w\<lparr>cs_pool := bp\<rparr> \<and> cache_ok {} bp \<and> pool_view bp = pool_view (cs_pool w) \<and>
      bp_wal_durability bp = bp_wal_durability (cs_pool w)) (\<lambda>_ _. False) w"
proof -
  have f: "cache_ok {i} (cs_pool w)" "pool_pins (cs_pool w) i \<noteq> 0" using assms by (auto simp: finished_def)
  show ?thesis
    unfolding wp_on_pool by (rule wp_mono [OF wp_conj [OF pc.unpin_law [OF f, of True] keeps_wp [OF provider_ops(2) refl]]]) auto
qed

lemma updates_page_spec:
  assumes "tx_active V0 rs w" "length bs = kPagePayloadSize" "lm_next_lsn (w_log w) + 1 \<noteq> 0" "updates_page i bs w w'"
  obtains p sequence rs' where "tx_active V0 rs' w'" "set rs \<subseteq> set rs'" "tx_id (w_tx w') = tx_id (w_tx w)" "w_locks w' = w_locks w"
    "tx_allocated_pages (w_tx w') = tx_allocated_pages (w_tx w)" "pool_view (cs_pool w) i = Some p"
    "pool_view (cs_pool w') = (pool_view (cs_pool w))(i \<mapsto> (if bs = pg_payload p then p else p\<lparr>pg_payload := bs, pg_lsn := lm_next_lsn (w_log w)\<rparr>))"
    "tx_pending_mutations (w_tx w') = tx_pending_mutations (w_tx w) @ (if bs = pg_payload p then [] else [captured i p bs sequence])"
    "lm_next_lsn (w_log w') = lm_next_lsn (w_log w) + (if bs = pg_payload p then 0 else 1)"
proof -
  from assms(4) obtain f w1 w2 w3 w4 w5 b where st: "on_pool (fetch_page i) w = (Inr (Some f), w1)" "use_mutation_context w1 = (Inr (), w2)"
      "watch i w2 = (Inr (), w3)" "on_pool (set_payload f bs) w3 = (Inr (), w4)" "finish (Some finalize_mutation) i f w4 = (Inr (), w5)"
      "on_pool (unpin_page i True) w5 = (Inr b, w')" unfolding updates_page_def by blast
  obtain p where cap: "capturing V0 rs i f p w3" and v3: "pool_view (cs_pool w3) = pool_view (cs_pool w)" "w_log w3 = w_log w" "w_locks w3 = w_locks w"
      "w_tx w3 = (w_tx w)\<lparr>tx_has_context := True\<rparr>"
    by (rule watch_spec [OF assms(1) st(1-3)])
  from wp_InrD [OF write_captured [OF cap assms(2)] st(4)] obtain bp4 where w4: "w4 = w3\<lparr>cs_pool := bp4\<rparr>" and
    b4: "cache_ok {i} bp4" "pool_view bp4 = (pool_view (cs_pool w3))(i \<mapsto> p\<lparr>pg_payload := bs\<rparr>)" "pinned_at bp4 i f"
      "bp_wal_durability bp4 = bp_wal_durability (cs_pool w3)" by auto
  have "lm_next_lsn (w_log w3) + 1 \<noteq> 0" using assms(3) v3(2) by simp
  from wp_InrD [OF finish_spec [OF cap this b4] st(5) [unfolded w4]] have fin: "finished V0 rs i p bs w3 w5" .
  from wp_InrD [OF unpin_finished [OF fin] st(6)] obtain bp6 where w6: "w' = w5\<lparr>cs_pool := bp6\<rparr>" "cache_ok {} bp6" "pool_view bp6 = pool_view (cs_pool w5)"
      "bp_wal_durability bp6 = bp_wal_durability (cs_pool w5)" by auto
  have "pool_view (cs_pool w3) i = Some p" using cap by (simp add: capturing_def)
  from fin obtain rs' where "tx_active V0 rs' w'" "set rs \<subseteq> set rs'"
    using w6 by (auto simp: finished_def tx_work_def attached_def has_unfinished_capture_def)
  with fin v3 w6 \<open>pool_view (cs_pool w3) i = Some p\<close> show thesis by (intro that [of rs' p "mc_next_sequence (cs_context w3)"]) (simp_all add: finished_def)
qed

section \<open>Histories\<close>

text \<open>
  \<open>tx_history V w\<close>: a transaction with the log as its sink has come to the state \<open>w\<close> by updates, while other
  transactions changed other pages and wrote to the log; \<open>V\<close> is what the pages would be without its updates.
\<close>

definition mutated :: "transaction \<Rightarrow> PageId set" where
  "mutated tx = mu_page_id ` set (tx_pending_mutations tx)"

inductive tx_history :: "(PageId \<rightharpoonup> page) \<Rightarrow> world \<Rightarrow> bool" where
  tx_start: "cache_ok {} (cs_pool w) \<Longrightarrow> attached w \<Longrightarrow> wf_log (w_log w) rs \<Longrightarrow> w_tx w = new_transaction tid True \<Longrightarrow>
    tx_history (pool_view (cs_pool w)) w"
| tx_update: "tx_history V w \<Longrightarrow> length bs = kPagePayloadSize \<Longrightarrow> lm_next_lsn (w_log w) + 1 \<noteq> 0 \<Longrightarrow> updates_page i bs w w' \<Longrightarrow>
    tx_history V w'"
| tx_others: "tx_history V w \<Longrightarrow> wf_log (w_log w) rs \<Longrightarrow> cache_ok {} bp \<Longrightarrow> wf_log lm (rs @ rs') \<Longrightarrow>
    bp_wal_durability bp = Some (lm_durable_lsn lm) \<Longrightarrow> (\<And>i. i \<in> mutated (w_tx w) \<Longrightarrow> pool_view bp i = pool_view (cs_pool w) i) \<Longrightarrow>
    tx_history (\<lambda>i. if i \<in> mutated (w_tx w) then V i else pool_view bp i) (w\<lparr>cs_pool := bp, w_log := lm, w_locks := lk\<rparr>)"

lemma undo_one_local: "undo_one m X i = (if i = mu_page_id m then map_option (\<lambda>p. p\<lparr>pg_payload := mu_before_image m, pg_lsn := mu_previous_page_lsn m\<rparr>) (X i) else X i)"
  by (simp add: undo_one_def split: option.split)

lemma undo_all_cong: "X i = Y i \<Longrightarrow> undo_all ms X i = undo_all ms Y i"
proof (induction ms arbitrary: X Y rule: rev_induct)
  case (snoc m ms)
  from snoc.prems have "undo_one m X i = undo_one m Y i" by (auto simp: undo_one_local)
  then show ?case unfolding undo_all_simps by (rule snoc.IH)
qed simp

lemma undo_all_other: "i \<notin> mu_page_id ` set ms \<Longrightarrow> undo_all ms X i = X i"
  by (induction ms arbitrary: X rule: rev_induct) (simp_all add: undo_one_local)

lemma wf_log_unique: "wf_log lm rs \<Longrightarrow> wf_log lm rs' \<Longrightarrow> rs = rs'"
  by (drule read_torn_log [OF wf_log_torn])+ simp

lemma tx_history_active: "tx_history V w \<Longrightarrow> \<exists>rs. tx_active V rs w \<and> tx_allocated_pages (w_tx w) = []"
proof (induction rule: tx_history.induct)
  case (tx_start w rs tid)
  then show ?case by (auto simp: tx_work_def logged_def tx_shape_def new_transaction_def)
next
  case (tx_update V w bs i w')
  then obtain rs where "tx_active V rs w" "tx_allocated_pages (w_tx w) = []" by blast
  then show ?case by (elim updates_page_spec [OF _ tx_update(2-4)]) auto
next
  case (tx_others V w rs bp lm rs' lk)
  then obtain rs0 where a: "tx_active V rs0 w" "tx_allocated_pages (w_tx w) = []" by blast
  have rs: "rs0 = rs" by (rule wf_log_unique [OF tx_workD(3) [OF a(1)] tx_others(2)])
  let ?ms = "tx_pending_mutations (w_tx w)"
  have "undo_all ?ms (pool_view bp) = (\<lambda>i. if i \<in> mutated (w_tx w) then V i else pool_view bp i)"
  proof
    fix i
    show "undo_all ?ms (pool_view bp) i = (if i \<in> mutated (w_tx w) then V i else pool_view bp i)"
      using undo_all_cong [of "pool_view bp" i "pool_view (cs_pool w)" ?ms] undo_all_other [of i ?ms "pool_view bp"]
        tx_others(6) [of i] tx_workD(7) [OF a(1)] by (simp add: mutated_def split: if_splits)
  qed
  moreover have "logged (rs @ rs') (w_tx w)" using tx_workD(4) [OF a(1)] by (fastforce simp: logged_def rs)
  ultimately show ?case
    using a tx_others by (intro exI [of _ "rs @ rs'"]) (simp add: tx_work_def attached_def)
qed

end
