(* ===== verification/LockHistory.thy ===== *)
theory LockHistory
  imports LockManager
begin

text \<open>
  Histories of concurrent calls of the lock manager, and what its locking discipline gives the transactions:
  a locale for a two-phase locking service with the serializability theorem, its interpretation on the
  modelled lock manager, and the properties of the lock manager.
\<close>

section \<open>Two-phase locking\<close>

type_synonym lock_access = "TransactionId \<times> ResourceId \<times> LockMode"

text \<open>
  \<open>precedes h t u\<close>: in the sequence of accesses \<open>h\<close> one of \<open>t\<close> comes before a conflicting one of \<open>u\<close>.
  \<open>covers n m\<close>: holding a lock in mode \<open>n\<close> permits an access in mode \<open>m\<close>.
\<close>

definition precedes :: "lock_access list \<Rightarrow> TransactionId \<Rightarrow> TransactionId \<Rightarrow> bool" where
  "precedes h t u \<longleftrightarrow> t \<noteq> u \<and>
     (\<exists>i j r m n. i < j \<and> j < length h \<and> h ! i = (t, r, m) \<and> h ! j = (u, r, n) \<and> conflicts m n)"

definition covers :: "LockMode \<Rightarrow> LockMode \<Rightarrow> bool" where
  "covers n m \<longleftrightarrow> (m = Exclusive \<longrightarrow> n = Exclusive)"

lemma conflicts_sym: "conflicts m n = conflicts n m"
  by (auto simp: conflicts_def)

lemma conflicts_covers: "conflicts m n \<Longrightarrow> covers m' m \<Longrightarrow> covers n' n \<Longrightarrow> conflicts m' n'"
  by (cases m'; cases n'; auto simp: conflicts_def covers_def)

lemma covers_refl [simp]: "covers m m" "covers Exclusive m"
  by (simp_all add: covers_def)

lemma precedesI:
  "t \<noteq> u \<Longrightarrow> i < j \<Longrightarrow> j < length h \<Longrightarrow> h ! i = (t, r, m) \<Longrightarrow> h ! j = (u, r, n) \<Longrightarrow> conflicts m n \<Longrightarrow> precedes h t u"
  unfolding precedes_def by blast

lemma precedes_snoc:
  "precedes (h @ [(u, r, n)]) t v \<longleftrightarrow> precedes h t v \<or> v = u \<and> t \<noteq> u \<and> (\<exists>m. (t, r, m) \<in> set h \<and> conflicts m n)"
proof
  assume "precedes (h @ [(u, r, n)]) t v"
  then obtain i j r' m n' where p: "t \<noteq> v" "i < j" "j < Suc (length h)" "(h @ [(u, r, n)]) ! i = (t, r', m)"
      "(h @ [(u, r, n)]) ! j = (v, r', n')" "conflicts m n'" unfolding precedes_def by auto
  then have i: "h ! i = (t, r', m)" "i < length h" by (auto simp: nth_append)
  show "precedes h t v \<or> v = u \<and> t \<noteq> u \<and> (\<exists>m. (t, r, m) \<in> set h \<and> conflicts m n)"
  proof (cases "j = length h")
    case True
    with p i nth_mem [OF i(2)] show ?thesis by auto
  next
    case False
    with p i show ?thesis by (auto simp: nth_append intro: precedesI)
  qed
next
  assume "precedes h t v \<or> v = u \<and> t \<noteq> u \<and> (\<exists>m. (t, r, m) \<in> set h \<and> conflicts m n)"
  then show "precedes (h @ [(u, r, n)]) t v"
  proof (elim disjE conjE exE)
    assume "precedes h t v"
    then obtain i j r' m n' where "t \<noteq> v" "i < j" "j < length h" "h ! i = (t, r', m)" "h ! j = (v, r', n')" "conflicts m n'"
      unfolding precedes_def by blast
    then show ?thesis by (intro precedesI [of t v i j _ r' m n']) (simp_all add: nth_append)
  next
    fix m assume "v = u" "t \<noteq> u" "(t, r, m) \<in> set h" "conflicts m n"
    moreover from this(3) obtain i where "i < length h" "h ! i = (t, r, m)" by (auto simp: in_set_conv_nth)
    ultimately show ?thesis by (intro precedesI [of t v i "length h" _ r m n]) (simp_all add: nth_append)
  qed
qed

locale two_phase_locking =
  fixes view :: "'s \<Rightarrow> ResourceId \<Rightarrow> TransactionId \<rightharpoonup> LockMode"
    and growing :: "'s \<Rightarrow> TransactionId \<Rightarrow> bool"
    and accesses :: "'s \<Rightarrow> lock_access list"
    and ok :: "'s \<Rightarrow> bool"
    and step :: "'s \<Rightarrow> 's \<Rightarrow> bool"
  assumes keeps: "ok s \<Longrightarrow> step s s' \<Longrightarrow> ok s'"
    and exclusive: "ok s \<Longrightarrow> view s r t = Some m \<Longrightarrow> view s r u = Some n \<Longrightarrow> t \<noteq> u \<Longrightarrow> \<not> conflicts m n"
    and acquire: "ok s \<Longrightarrow> step s s' \<Longrightarrow> view s' r t = Some m \<Longrightarrow> view s r t = Some m \<or> growing s' t"
    and release: "ok s \<Longrightarrow> step s s' \<Longrightarrow> view s r t = Some m \<Longrightarrow> growing s' t \<Longrightarrow> \<exists>n. view s' r t = Some n \<and> covers n m"
    and two_phase: "ok s \<Longrightarrow> step s s' \<Longrightarrow> growing s' t \<Longrightarrow> growing s t"
    and access: "ok s \<Longrightarrow> step s s' \<Longrightarrow> accesses s' = accesses s \<or>
      (\<exists>t r m n. accesses s' = accesses s @ [(t, r, m)] \<and> view s r t = Some n \<and> covers n m \<and> view s' = view s \<and> growing s' = growing s)"
begin

text \<open>
  The invariant of a history: \<open>rank\<close> numbers the transactions in the order they left the growing phase,
  and \<open>clock\<close> is the next number.
\<close>

definition ranked :: "(TransactionId \<Rightarrow> nat) \<Rightarrow> nat \<Rightarrow> 's \<Rightarrow> bool" where
  "ranked rank clock s \<longleftrightarrow> ok s \<and>
     (\<forall>t r m. (t, r, m) \<in> set (accesses s) \<and> growing s t \<longrightarrow> (\<exists>n. view s r t = Some n \<and> covers n m)) \<and>
     (\<forall>t r m u n. (t, r, m) \<in> set (accesses s) \<and> u \<noteq> t \<and> view s r u = Some n \<and> conflicts m n \<longrightarrow>
        \<not> growing s t \<and> (growing s u \<or> rank t < rank u)) \<and>
     (\<forall>t u. precedes (accesses s) t u \<longrightarrow> \<not> growing s t \<and> (growing s u \<or> rank t < rank u)) \<and>
     (\<forall>t. \<not> growing s t \<longrightarrow> rank t < clock)"

lemma rankedD:
  assumes "ranked rank clock s"
  shows "ok s" "(t, r, m) \<in> set (accesses s) \<Longrightarrow> growing s t \<Longrightarrow> \<exists>n. view s r t = Some n \<and> covers n m"
    "(t, r, m) \<in> set (accesses s) \<Longrightarrow> u \<noteq> t \<Longrightarrow> view s r u = Some n \<Longrightarrow> conflicts m n \<Longrightarrow> \<not> growing s t \<and> (growing s u \<or> rank t < rank u)"
    "precedes (accesses s) t u \<Longrightarrow> \<not> growing s t \<and> (growing s u \<or> rank t < rank u)"
    "\<not> growing s t \<Longrightarrow> rank t < clock"
  using assms unfolding ranked_def by blast+

lemma ranked_access:
  assumes "ranked rank clock s" "ok s'" "accesses s' = accesses s @ [(t0, r0, m0)]" "view s r0 t0 = Some n0" "covers n0 m0"
    "view s' = view s" "growing s' = growing s"
  shows "ranked rank clock s'"
proof -
  note r = rankedD [OF assms(1)]
  have new: "\<not> conflicts m0 n" if "view s r0 u = Some n" "u \<noteq> t0" for u n
    using exclusive [OF r(1) assms(4) that(1)] that(2) conflicts_covers [of m0 n n0 n] assms(5) by auto
  have old: "\<not> growing s t \<and> (growing s t0 \<or> rank t < rank t0)" if "(t, r0, m) \<in> set (accesses s)" "t \<noteq> t0" "conflicts m m0" for t m
    using r(3) [OF that(1) _ assms(4)] that conflicts_covers [of m m0 m n0] assms(5) by auto
  show ?thesis
    unfolding ranked_def assms(3,6,7) precedes_snoc
  proof (intro conjI allI impI, goal_cases)
    case (2 t r m)
    with r(2) [of t r m] assms(4,5) show ?case by auto
  next
    case (3 t r m u n)
    with r(3) [of t r m u n] new [of u n] show ?case by auto
  next
    case (4 t r m u n)
    with r(3) [of t r m u n] new [of u n] show ?case by auto
  next
    case (5 t u)
    with r(4) [of t u] old [of t] show ?case by blast
  next
    case (6 t u)
    with r(4) [of t u] old [of t] show ?case by blast
  qed (use assms(2) r(5) in blast)+
qed

lemma ranked_other:
  assumes "ranked rank clock s" "step s s'" "accesses s' = accesses s"
  shows "ranked (\<lambda>t. if growing s t then clock else rank t) (Suc clock) s'"
proof -
  note r = rankedD [OF assms(1)]
  note laws = keeps [OF r(1) assms(2)] acquire [OF r(1) assms(2)] release [OF r(1) assms(2)] two_phase [OF r(1) assms(2)]
  let ?rank = "\<lambda>t. if growing s t then clock else rank t"
  have mono: "\<not> growing s' t \<and> (growing s' u \<or> ?rank t < ?rank u)" if "\<not> growing s t \<and> (growing s u \<or> rank t < rank u)" for t u
    using that laws(4) [of t] laws(4) [of u] r(5) [of t] by auto
  have held: "\<exists>n. view s' r t = Some n \<and> covers n m" if a: "(t, r, m) \<in> set (accesses s)" and g: "growing s' t" for t r m
  proof -
    obtain n where n: "view s r t = Some n" "covers n m" using r(2) [OF a laws(4) [OF g]] by blast
    with laws(3) [OF n(1) g] show ?thesis by (auto simp: covers_def)
  qed
  have "\<not> growing s' t \<and> (growing s' u \<or> ?rank t < ?rank u)"
    if a: "(t, r, m) \<in> set (accesses s)" and u: "u \<noteq> t" "view s' r u = Some n" "conflicts m n" for t r m u n
  proof (cases "view s r u = Some n")
    case True
    with mono r(3) [OF a u(1) True u(3)] show ?thesis by blast
  next
    case False
    then have gu: "growing s' u" using laws(2) [OF u(2)] by blast
    have "\<not> growing s' t"
    proof
      assume "growing s' t"
      from held [OF a this] obtain k where k: "view s' r t = Some k" "covers k m" by blast
      from exclusive [OF laws(1) k(1) u(2)] u(1,3) k(2) conflicts_covers [of m n k n] show False by auto
    qed
    with gu show ?thesis by blast
  qed
  moreover have "?rank t < Suc clock" if "\<not> growing s' t" for t using r(5) [of t] by auto
  ultimately show ?thesis
    using laws(1) held r(4) mono unfolding ranked_def assms(3) by blast
qed

lemma ranked_reachable:
  assumes "step\<^sup>*\<^sup>* s0 s" "ok s0" "accesses s0 = []"
  shows "\<exists>rank clock. ranked rank clock s"
  using assms(1)
proof (induction rule: rtranclp_induct)
  case base
  have "ranked (\<lambda>_. 0) 1 s0" using assms(2,3) by (simp add: ranked_def precedes_def)
  then show ?case by blast
next
  case (step s s')
  then obtain rank clock where r: "ranked rank clock s" by blast
  note s = rankedD(1) [OF r]
  from access [OF s step(2)] show ?case
    using ranked_other [OF r step(2)] ranked_access [OF r keeps [OF s step(2)]] by blast
qed

text \<open>The conflicting accesses of every history follow one order of the transactions.\<close>

lemma serializable:
  assumes "step\<^sup>*\<^sup>* s0 s" "ok s0" "accesses s0 = []"
  shows "\<exists>f :: TransactionId \<Rightarrow> nat. \<forall>t u. precedes (accesses s) t u \<longrightarrow> f t < f u"
proof -
  from ranked_reachable [OF assms] obtain rank clock where r: "ranked rank clock s" by blast
  have "(if growing s t then clock else rank t) < (if growing s u then clock else rank u)" if "precedes (accesses s) t u" for t u
    using rankedD(4) [OF r that] rankedD(5) [OF r, of t] by auto
  then show ?thesis by (intro exI [of _ "\<lambda>t. if growing s t then clock else rank t"]) blast
qed

end

section \<open>Runs of the lock manager\<close>

text \<open>
  The calls of any number of threads: the lock manager, the calls of \<^verbatim>\<open>lock\<close> that wait, and the accesses to
  resources made under a lock, in order. A step is one critical section of a method or one access.
\<close>

record lock_run =
  rn_locks :: lock_manager
  rn_waiting :: "TransactionId \<rightharpoonup> ResourceId \<times> LockMode"
  rn_accesses :: "lock_access list"

definition lock_start :: lock_run where
  "lock_start = \<lparr>rn_locks = new_lock_manager, rn_waiting = Map.empty, rn_accesses = []\<rparr>"

inductive lock_step :: "lock_run \<Rightarrow> lock_run \<Rightarrow> bool" where
  call_returns: "rn_waiting s tx = None \<Longrightarrow> lock tx r m (rn_locks s) = (Returned b, lk) \<Longrightarrow> lock_step s (s\<lparr>rn_locks := lk\<rparr>)"
| call_waits: "rn_waiting s tx = None \<Longrightarrow> lock tx r m (rn_locks s) = (Waiting, lk) \<Longrightarrow>
    lock_step s (s\<lparr>rn_locks := lk, rn_waiting := (rn_waiting s)(tx \<mapsto> (r, m))\<rparr>)"
| resumes: "rn_waiting s tx = Some (r, m) \<Longrightarrow> lock_resume tx r m (rn_locks s) = (Returned b, lk) \<Longrightarrow>
    lock_step s (s\<lparr>rn_locks := lk, rn_waiting := (rn_waiting s)(tx := None)\<rparr>)"
| unlocks: "lock_step s (s\<lparr>rn_locks := snd (unlock tx r (rn_locks s))\<rparr>)"
| commits: "lock_step s (s\<lparr>rn_locks := commit_locks tx (rn_locks s)\<rparr>)"
| aborts: "lock_step s (s\<lparr>rn_locks := abort_locks tx (rn_locks s)\<rparr>)"
| accesses: "holds tx r n (rn_locks s) \<Longrightarrow> covers n m \<Longrightarrow> lock_step s (s\<lparr>rn_accesses := rn_accesses s @ [(tx, r, m)]\<rparr>)"

text \<open>What every step does to the locks as a map and to the phase of a transaction.\<close>

definition lk_growing :: "lock_manager \<Rightarrow> TransactionId \<Rightarrow> bool" where
  "lk_growing lk t \<longleftrightarrow> lk_state lk t = Growing"

definition lock_law :: "lock_manager \<Rightarrow> lock_manager \<Rightarrow> bool" where
  "lock_law lk lk' \<longleftrightarrow> lk_ok lk' \<and>
     (\<forall>r t m. lock_view lk' r t = Some m \<longrightarrow> lock_view lk r t = Some m \<or> lk_growing lk' t) \<and>
     (\<forall>r t m. lock_view lk r t = Some m \<and> lk_growing lk' t \<longrightarrow> (\<exists>n. lock_view lk' r t = Some n \<and> covers n m)) \<and>
     (\<forall>t. lk_growing lk' t \<longrightarrow> lk_growing lk t)"

lemma lock_law_refl: "lk_ok lk \<Longrightarrow> lock_law lk lk"
  unfolding lock_law_def by (auto simp: covers_def)

lemma lock_round_law:
  assumes "lk_ok lk" "lk_state lk tx = Growing"
  shows "lock_law lk (snd (lock_round tx r mode lk))"
  using assms
proof (cases rule: lock_round_cases [where r = r and mode = mode, consumes 2])
  case (granted lk')
  with assms(2) show ?thesis unfolding lock_law_def lk_growing_def by (auto simp: covers_def)
next
  case (dies lk' t m)
  then show ?thesis unfolding lock_law_def lk_growing_def by (auto simp: covers_def)
qed (simp_all add: lock_law_refl assms(1))

lemma finish_transaction_law: "lk_ok lk \<Longrightarrow> s \<noteq> Growing \<Longrightarrow> lock_law lk (finish_transaction s tx lk)"
  using finish_transaction_spec [of lk s tx] lk_okD(5) [of lk _ tx]
  unfolding lock_law_def lk_growing_def by (auto simp: covers_def split: if_splits)

lemma unlock_law: "lk_ok lk \<Longrightarrow> lock_law lk (snd (unlock tx r lk))"
  using unlock_spec [of lk tx r] lock_law_refl [of lk]
  unfolding lock_law_def lk_growing_def by (auto simp: covers_def split: if_splits)

lemma lock_ops_law:
  assumes "lk_ok lk"
  shows "lock_law lk (snd (lock tx r m lk))" "lock_law lk (snd (lock_resume tx r m lk))"
    "lock_law lk (commit_locks tx lk)" "lock_law lk (abort_locks tx lk)"
  using assms lock_round_law [OF assms, of tx r m] finish_transaction_law [OF assms, of _ tx]
  by (simp_all add: lock_def lock_resume_def lock_law_refl commit_locks_def abort_locks_def)

lemma lock_step_law:
  assumes "lock_step s s'" "lk_ok (rn_locks s)"
  shows "lock_law (rn_locks s) (rn_locks s')"
  using assms
proof cases
  case (call_returns tx r m b lk)
  with lock_ops_law(1) [OF assms(2), of tx r m] show ?thesis by simp
next
  case (call_waits tx r m lk)
  with lock_ops_law(1) [OF assms(2), of tx r m] show ?thesis by simp
next
  case (resumes tx r m b lk)
  with lock_ops_law(2) [OF assms(2), of tx r m] show ?thesis by simp
qed (simp_all add: lock_law_refl lock_ops_law unlock_law assms(2))

lemma lock_step_access:
  assumes "lock_step s s'" "lk_ok (rn_locks s)"
  shows "rn_accesses s' = rn_accesses s \<or>
    (\<exists>t r m n. rn_accesses s' = rn_accesses s @ [(t, r, m)] \<and> lock_view (rn_locks s) r t = Some n \<and> covers n m \<and> rn_locks s' = rn_locks s)"
  using assms by cases (auto simp: holds_view)

interpretation lm: two_phase_locking "\<lambda>s. lock_view (rn_locks s)" "\<lambda>s. lk_growing (rn_locks s)" rn_accesses "\<lambda>s. lk_ok (rn_locks s)" lock_step
proof (unfold_locales, goal_cases)
  case (1 s s')
  then show ?case using lock_step_law [of s s'] by (simp add: lock_law_def)
next
  case (2 s r t m u n)
  then show ?case using lk_okD(4) by blast
next
  case (3 s s' r t m)
  then show ?case using lock_step_law [of s s'] by (simp add: lock_law_def)
next
  case (4 s s' r t m)
  then show ?case using lock_step_law [of s s'] by (simp add: lock_law_def)
next
  case (5 s s' t)
  then show ?case using lock_step_law [of s s'] by (simp add: lock_law_def)
next
  case (6 s s')
  then show ?case using lock_step_access [of s s'] by metis
qed

lemma lock_run_ok: "lock_step\<^sup>*\<^sup>* lock_start s \<Longrightarrow> lk_ok (rn_locks s)"
  by (induction rule: rtranclp_induct) (simp_all add: lock_start_def new_lock_manager_ok lm.keeps)

section \<open>Example runs\<close>

lemmas lock_run_defs = lock_start_def new_lock_manager_def lock_def lock_round_def lock_resume_def wait_over_def Let_def compatible_def
  requester_is_younger_than_conflict_def conflicts_def grant_def entries_def commit_locks_def finish_transaction_def
  release_all_def store_entries_def holds_def List.insert_def

lemma lock_then: "lock_step\<^sup>*\<^sup>* a b \<Longrightarrow> lock_step b c \<Longrightarrow> lock_step\<^sup>*\<^sup>* a c"
  by (rule rtranclp.rtrancl_into_rtrancl)

text \<open>Two transactions share resource 1.\<close>

definition shared_locks :: lock_manager where
  "shared_locks = \<lparr>lk_table = [(1, [(1, Shared), (2, Shared)])], lk_held = [(1, [1]), (2, [1])], lk_state = (\<lambda>_. Growing)\<rparr>"

lemma shared_run:
  "lock_step\<^sup>*\<^sup>* lock_start \<lparr>rn_locks = shared_locks, rn_waiting = Map.empty, rn_accesses = [(1, 1, Shared), (2, 1, Shared)]\<rparr>"
proof -
  have 1: "lock_step lock_start (lock_start\<lparr>rn_locks := snd (lock 1 1 Shared (rn_locks lock_start))\<rparr>)"
    by (rule call_returns [of _ 1 1 Shared True]) (simp_all add: lock_run_defs)
  let ?s1 = "lock_start\<lparr>rn_locks := snd (lock 1 1 Shared (rn_locks lock_start))\<rparr>"
  have 2: "lock_step ?s1 (?s1\<lparr>rn_locks := shared_locks\<rparr>)"
    by (rule call_returns [of _ 2 1 Shared True]) (simp_all add: lock_run_defs shared_locks_def)
  let ?s2 = "?s1\<lparr>rn_locks := shared_locks\<rparr>"
  have 3: "lock_step ?s2 (?s2\<lparr>rn_accesses := rn_accesses ?s2 @ [(1, 1, Shared)]\<rparr>)"
    by (rule accesses [of _ _ Shared]) (simp_all add: lock_run_defs shared_locks_def)
  let ?s3 = "?s2\<lparr>rn_accesses := rn_accesses ?s2 @ [(1, 1, Shared)]\<rparr>"
  have 4: "lock_step ?s3 (?s3\<lparr>rn_accesses := rn_accesses ?s3 @ [(2, 1, Shared)]\<rparr>)"
    by (rule accesses [of _ _ Shared]) (simp_all add: lock_run_defs shared_locks_def)
  from lock_then [OF lock_then [OF lock_then [OF lock_then [OF rtranclp.rtrancl_refl 1] 2] 3] 4] show ?thesis
    by (simp add: lock_start_def)
qed

text \<open>
  Transaction 3 holds resource 1 and transaction 2 holds resource 2 and waits for resource 1; transaction 3
  commits; before transaction 2 wakes up, transaction 1 takes resource 1 and then asks for resource 2.
\<close>

definition crossed_locks :: lock_manager where
  "crossed_locks = \<lparr>lk_table = [(2, [(2, Exclusive)]), (1, [(1, Exclusive)])], lk_held = [(2, [2]), (1, [1])],
     lk_state = (\<lambda>_. Growing)(3 := Committed)\<rparr>"

lemma crossed_run:
  "lock_step\<^sup>*\<^sup>* lock_start \<lparr>rn_locks = crossed_locks, rn_waiting = [2 \<mapsto> (1, Exclusive), 1 \<mapsto> (2, Exclusive)], rn_accesses = []\<rparr>"
proof -
  let ?s1 = "lock_start\<lparr>rn_locks := snd (lock 3 1 Exclusive (rn_locks lock_start))\<rparr>"
  have 1: "lock_step lock_start ?s1"
    by (rule call_returns [of _ 3 1 Exclusive True]) (simp_all add: lock_run_defs)
  let ?s2 = "?s1\<lparr>rn_locks := snd (lock 2 2 Exclusive (rn_locks ?s1))\<rparr>"
  have 2: "lock_step ?s1 ?s2"
    by (rule call_returns [of _ 2 2 Exclusive True]) (simp_all add: lock_run_defs)
  let ?s3 = "?s2\<lparr>rn_locks := rn_locks ?s2, rn_waiting := (rn_waiting ?s2)(2 \<mapsto> (1, Exclusive))\<rparr>"
  have 3: "lock_step ?s2 ?s3"
    by (rule call_waits) (simp_all add: lock_run_defs)
  let ?s4 = "?s3\<lparr>rn_locks := commit_locks 3 (rn_locks ?s3)\<rparr>"
  have 4: "lock_step ?s3 ?s4" by (rule commits)
  let ?s5 = "?s4\<lparr>rn_locks := crossed_locks\<rparr>"
  have 5: "lock_step ?s4 ?s5"
    by (rule call_returns [of _ 1 1 Exclusive True]) (simp_all add: lock_run_defs crossed_locks_def)
  have 6: "lock_step ?s5 (?s5\<lparr>rn_locks := crossed_locks, rn_waiting := (rn_waiting ?s5)(1 \<mapsto> (2, Exclusive))\<rparr>)"
    by (rule call_waits) (simp_all add: lock_run_defs crossed_locks_def)
  from lock_then [OF lock_then [OF lock_then [OF lock_then [OF lock_then [OF lock_then [OF rtranclp.rtrancl_refl 1] 2] 3] 4] 5] 6]
  show ?thesis by (simp add: lock_start_def)
qed

section \<open>Properties\<close>

text \<open>C20: Mutual exclusion. In every state reachable by concurrent calls of the lock manager, two transactions that
  hold the same resource both hold it shared, and a transaction that has committed or aborted holds nothing.\<close>

theorem locks_exclude:
  assumes "lock_step\<^sup>*\<^sup>* lock_start s" "holds t r m (rn_locks s)"
  shows "(holds u r n (rn_locks s) \<and> t \<noteq> u \<longrightarrow> m = Shared \<and> n = Shared) \<and> lk_state (rn_locks s) t \<in> {Growing, Shrinking}"
proof -
  note ok = lock_run_ok [OF assms(1)]
  have "m = Shared \<and> n = Shared" if "\<not> conflicts m n" using that by (cases m; cases n) (simp_all add: conflicts_def)
  then show ?thesis using assms(2) lk_okD(4) [OF ok, of r t m u n] lk_okD(5) [OF ok, of r t] by (auto simp: holds_view [OF ok])
qed

theorem locks_exclude_witness:
  "holds 1 1 Shared shared_locks \<and> lk_state shared_locks 1 \<in> {Growing, Shrinking}"
proof -
  have h: "holds 1 1 Shared shared_locks" by (simp add: holds_def entries_def shared_locks_def)
  from locks_exclude [OF shared_run, of 1 1 Shared] h show ?thesis by simp
qed

text \<open>C21: Serializability. In every interleaving of any number of transactions that access resources only under a
  covering lock, the conflicting accesses all follow one order of the transactions: the precedence graph has no
  cycle.\<close>

theorem two_phase_serializable:
  assumes "lock_step\<^sup>*\<^sup>* lock_start s"
  shows "acyclic {(t, u). precedes (rn_accesses s) t u}"
proof -
  obtain f :: "TransactionId \<Rightarrow> nat" where f: "\<And>t u. precedes (rn_accesses s) t u \<Longrightarrow> f t < f u"
    using lm.serializable [OF assms] by (auto simp: lock_start_def new_lock_manager_ok)
  have "f t < f u" if "(t, u) \<in> {(t, u). precedes (rn_accesses s) t u}\<^sup>+" for t u
    using that by (induction rule: trancl_induct) (auto dest: f less_trans)
  then show ?thesis by (auto simp: acyclic_def)
qed

theorem two_phase_serializable_witness:
  "acyclic {(t, u). precedes [(1, 1, Shared), (2, 1, Shared)] t u}"
  using two_phase_serializable [OF shared_run] by simp



text \<open>C23: The loop of a lock request ends. Once the wait of a request is over, the next round returns; the request waits
  at most once, and if its transaction is still growing it returns with the lock held.\<close>

theorem resumed_lock_returns:
  assumes "lk_ok lk" "wait_over tx r mode lk" "\<not> (holds tx r Exclusive lk \<and> mode = Shared)"
  shows "\<exists>b lk'. lock_resume tx r mode lk = (Returned b, lk') \<and> (b \<longleftrightarrow> lk_state lk tx = Growing) \<and> (b \<longrightarrow> holds tx r mode lk')"
proof (cases "lk_state lk tx = Growing")
  case False
  with assms(2) show ?thesis by (intro exI [of _ False] exI [of _ lk]) (simp add: lock_resume_def)
next
  case True
  then have c: "compatible tx r mode lk" using assms(2) by (simp add: wait_over_def)
  have run: "lock_resume tx r mode lk = lock_round tx r mode lk" using True assms(2) by (simp add: lock_resume_def)
  show ?thesis
    using assms(1) True
  proof (cases rule: lock_round_cases [where r = r and mode = mode, consumes 2])
    case held
    then show ?thesis using True by (intro exI [of _ True] exI [of _ lk]) (simp add: run holds_view [OF assms(1)])
  next
    case downgrade
    then show ?thesis using assms(1,3) by (simp add: holds_view)
  next
    case (granted lk')
    then show ?thesis using True by (intro exI [of _ True] exI [of _ lk']) (simp add: run holds_view)
  next
    case (dies lk' t m)
    then show ?thesis using c by (auto simp: compatible_view [OF assms(1)])
  next
    case waits
    then show ?thesis using c by simp
  qed
qed

theorem resumed_lock_returns_witness:
  "\<exists>lk'. lock_resume 3 2 Exclusive shared_locks = (Returned True, lk') \<and> holds 3 2 Exclusive lk'"
proof -
  have ok: "lk_ok shared_locks" using lock_run_ok [OF shared_run] by simp
  have w: "wait_over 3 2 Exclusive shared_locks" "\<not> (holds 3 2 Exclusive shared_locks \<and> Exclusive = Shared)" "lk_state shared_locks 3 = Growing"
    by (simp_all add: lock_run_defs shared_locks_def)
  from resumed_lock_returns [OF ok w(1,2)] w(3) show ?thesis by auto
qed

text \<open>C33: Waiting requests can block each other for ever. The age of the holders is compared only when a request is
  made, not while it waits; another transaction can take the resource first when the holder releases it, and that
  transaction may be older than the waiting one. There is a reachable state in which two growing transactions each wait
  for a resource the other one holds, and neither wait ends.\<close>

theorem wait_cycle_reachable:
  "\<exists>s. lock_step\<^sup>*\<^sup>* lock_start s \<and> rn_waiting s 1 = Some (2, Exclusive) \<and> rn_waiting s 2 = Some (1, Exclusive) \<and>
     holds 1 1 Exclusive (rn_locks s) \<and> holds 2 2 Exclusive (rn_locks s) \<and>
     lk_state (rn_locks s) 1 = Growing \<and> lk_state (rn_locks s) 2 = Growing \<and>
     \<not> wait_over 1 2 Exclusive (rn_locks s) \<and> \<not> wait_over 2 1 Exclusive (rn_locks s)"
  by (intro exI conjI, rule crossed_run) (simp_all add: lock_run_defs crossed_locks_def)

end
