(* ===== verification/TransactionProperties.thy ===== *)
theory TransactionProperties
  imports TransactionHistory LockHistory
begin

text \<open>
  Commit and abort of a transaction as a whole: an abort gives every page the transaction changed back its old
  contents, a commit makes its records durable, and neither releases a lock before.
\<close>

section \<open>Resuming a rollback\<close>

lemma undo_mutations_resume:
  assumes "tx_work V k rs w" "k \<le> n" "n \<le> length (tx_pending_mutations (w_tx w))"
  shows "wp (undo_mutations n) (\<lambda>_ w'. tx_work V 0 rs w' \<and> undone w w') (\<lambda>_ w'. (\<exists>k' \<le> k. tx_work V k' rs w') \<and> undone w w') w"
  using assms(2,3)
proof (induction n)
  case 0
  with assms(1) show ?case by (simp add: wp_ret)
next
  case (Suc n)
  show ?case
  proof (cases "k = Suc n")
    case True
    then show ?thesis using undo_mutations_spec [OF assms(1)] by simp
  next
    case False
    with Suc.prems have "tx_undo_resolved (w_tx w) ! n" using tx_workD(5) [OF assms(1)] by (simp add: tx_shape_def nth_append)
    with Suc False show ?thesis by (simp add: wp_bindE wp_gets wp_ret)
  qed
qed

lemma rollback_resume:
  assumes "tx_work V k rs w" "tx_allocated_pages (w_tx w) = []"
  shows "wp rollback_for_abort (\<lambda>_ w'. tx_work V 0 rs w' \<and> undone w w') (\<lambda>_ w'. (\<exists>k' \<le> k. tx_work V k' rs w') \<and> undone w w') w"
proof -
  let ?n = "length (tx_pending_mutations (w_tx w))"
  have "\<not> (tx_has_context (w_tx w) \<and> has_unfinished_capture (cs_context w))" using tx_workD(6) [OF assms(1)] by blast
  then have run: "wp rollback_for_abort Q E w = wp (undo_mutations ?n) (\<lambda>_.
      wp (bindE (gets w_tx) (\<lambda>tx. if tx_allocation_manager tx then on_pool (on_disk (release_pages (rev (tx_allocated_pages tx)))) else ret ())) Q E) E w" for Q E
    by (simp add: rollback_for_abort_def wp_bindE wp_gets wp_require)
  have "k \<le> ?n" using tx_workD(5) [OF assms(1)] by (simp add: tx_shape_def)
  from undo_mutations_resume [OF assms(1) this order_refl] show ?thesis
    unfolding run
  proof (rule wp_mono, goal_cases)
    case (1 u w')
    then have "tx_allocated_pages (w_tx w') = []" using assms(2) by (auto simp: undone_def)
    with 1 show ?case by (simp add: wp_simps wp_on_pool wp_on_disk)
  qed simp
qed

section \<open>The record that ends a transaction\<close>

definition ends_with :: "WalRecordType \<Rightarrow> TransactionId \<Rightarrow> wal_record list \<Rightarrow> log_manager \<Rightarrow> bool" where
  "ends_with t tid rs lm \<longleftrightarrow> (\<exists>r. wf_log lm (rs @ [r]) \<and> wr_transaction_id r = tid \<and> wr_type r = t \<and> wr_payload r = [] \<and>
     (\<forall>q \<in> set (rs @ [r]). wr_lsn q \<le> lm_durable_lsn lm))"

lemma append_then_flush:
  assumes "wf_log lm rs" "lm_next_lsn lm + 1 \<noteq> 0"
  shows "wp (bindE (append_wal t tid []) (\<lambda>_. wal_flush)) (\<lambda>_. ends_with t tid rs) (\<lambda>_ lm'. lm' \<noteq> lm) lm"
  unfolding wp_bindE
proof (rule wp_mono [OF append_wal_spec [OF assms]], goal_cases)
  case (1 l lm1)
  let ?r = "\<lparr>wr_lsn = lm_next_lsn lm, wr_transaction_id = tid, wr_type = t, wr_payload = []\<rparr>"
  have w1: "wf_log lm1 (rs @ [?r])" "lm_next_lsn lm1 = lm_next_lsn lm + 1" using 1 by simp_all
  show ?case
  proof (rule wp_mono [OF wal_flush_spec [OF w1(1)]], goal_cases)
    case (1 u lm2)
    have "wr_lsn q \<le> lm_durable_lsn lm2" if "q \<in> set (rs @ [?r])" for q
      using that 1 assms w1(2) by (auto simp: wf_log_def intro: less_imp_le)
    with 1 show ?case unfolding ends_with_def by (intro exI [of _ ?r]) simp
  next
    case (2 e lm2)
    then show ?case using w1(2) by auto
  qed
qed auto

lemma attached_with_log [simp]: "attached (with_log lm w)"
  by (simp add: attached_def with_log_def)

lemma with_log_simps [simp]:
  "w_log (with_log lm w) = lm" "w_tx (with_log lm w) = w_tx w" "w_locks (with_log lm w) = w_locks w" "cs_context (with_log lm w) = cs_context w"
  "pool_view (cs_pool (with_log lm w)) = pool_view (cs_pool w)" "tx_state (with_log lm w) = tx_state w"
  by (simp_all add: with_log_def tx_state_def)

lemma wp_on_wal_bind: "wp (bindE (on_wal m) (\<lambda>x. on_wal (f x))) Q E w = wp (on_wal (bindE m f)) Q E w"
  by (simp add: wp_bindE wp_on_wal with_log_def)

section \<open>Abort\<close>

text \<open>
  \<open>aborting V w\<close>: the transaction has come to \<open>w\<close> by updates, and possibly by aborts that failed before
  they wrote to the log; \<open>V\<close> is what the pages would be without its updates.
\<close>

inductive aborting :: "(PageId \<rightharpoonup> page) \<Rightarrow> world \<Rightarrow> bool" where
  aborting_first: "tx_history V w \<Longrightarrow> aborting V w"
| aborting_again: "aborting V w \<Longrightarrow> lm_next_lsn (w_log w) + 1 \<noteq> 0 \<Longrightarrow> coordinator_abort True w = (Inl e, w') \<Longrightarrow> w_log w' = w_log w \<Longrightarrow>
    aborting V w'"

definition abort_done :: "(PageId \<rightharpoonup> page) \<Rightarrow> world \<Rightarrow> world \<Rightarrow> bool" where
  "abort_done V w w' \<longleftrightarrow> pool_view (cs_pool w') = V \<and> w_locks w' = abort_locks (tx_id (w_tx w)) (w_locks w) \<and>
     tx_id (w_tx w') = tx_id (w_tx w) \<and> (\<exists>rs. wf_log (w_log w) rs \<and> ends_with Abort (tx_id (w_tx w)) rs (w_log w'))"

lemma nothing_unresolved: "tx_work V 0 rs w \<Longrightarrow> \<not> has_unresolved_mutations_for_abort w"
  by (auto simp: has_unresolved_mutations_for_abort_def tx_work_def tx_shape_def)

lemma coordinator_abort_spec:
  assumes "tx_work V k rs w" "tx_allocated_pages (w_tx w) = []" "tx_state w \<notin> {Committed, Aborted}" "lm_next_lsn (w_log w) + 1 \<noteq> 0"
  shows "wp (coordinator_abort True) (\<lambda>_. abort_done V w)
    (\<lambda>_ w'. w_locks w' = w_locks w \<and> (\<exists>ms u. undo_all ms (pool_view (cs_pool w')) = V \<and> w_tx w' = (w_tx w)\<lparr>tx_undo_resolved := u\<rparr>) \<and>
       (w_log w' = w_log w \<longrightarrow> (\<exists>k' \<le> k. tx_work V k' rs w'))) w"
proof -
  have run: "wp (coordinator_abort True) Q E w = wp prepare_abort (\<lambda>_. wp (bindE (gets has_unresolved_mutations_for_abort) (\<lambda>unresolved.
       bindE (require (\<not> unresolved) (LogicError Abort_unresolved)) (\<lambda>_.
       modify (\<lambda>w. w\<lparr>w_locks := abort_locks (tx_id (w_tx w)) (w_locks w)\<rparr>)))) Q E) E w" for Q E
    using assms(3) by (simp add: coordinator_abort_def wp_bindE wp_gets)
  show ?thesis
    unfolding run prepare_abort_def wp_bindE [of rollback_for_abort]
  proof (rule wp_mono [OF rollback_resume [OF assms(1,2)]], goal_cases)
    case (1 x w1)
    then have w1: "tx_work V 0 rs w1" and u: "undone w w1" by simp_all
    then obtain v where same: "w_log w1 = w_log w" "w_tx w1 = (w_tx w)\<lparr>tx_undo_resolved := v\<rparr>" "w_locks w1 = w_locks w" by (auto simp: undone_def)
    note t = tx_workD [OF w1] and nu = nothing_unresolved [OF w1]
    have view: "pool_view (cs_pool w1) = V" using t(7) by simp
    have nu': "\<not> has_unresolved_mutations_for_abort (with_log lm w1)" for lm using nu by (simp add: has_unresolved_mutations_for_abort_def)
    have tail: "wp (on_wal (bindE (append_abort (tx_id (w_tx w1))) (\<lambda>_. wal_flush)))
        (\<lambda>_. wp (bindE (gets has_unresolved_mutations_for_abort) (\<lambda>unresolved.
           bindE (require (\<not> unresolved) (LogicError Abort_unresolved)) (\<lambda>_.
           modify (\<lambda>w. w\<lparr>w_locks := abort_locks (tx_id (w_tx w)) (w_locks w)\<rparr>)))) (\<lambda>_. abort_done V w)
        (\<lambda>_ w'. w_locks w' = w_locks w \<and> (\<exists>ms u. undo_all ms (pool_view (cs_pool w')) = V \<and> w_tx w' = (w_tx w)\<lparr>tx_undo_resolved := u\<rparr>) \<and>
          (w_log w' = w_log w \<longrightarrow> (\<exists>k' \<le> k. tx_work V k' rs w'))))
        (\<lambda>_ w'. w_locks w' = w_locks w \<and> (\<exists>ms u. undo_all ms (pool_view (cs_pool w')) = V \<and> w_tx w' = (w_tx w)\<lparr>tx_undo_resolved := u\<rparr>) \<and>
          (w_log w' = w_log w \<longrightarrow> (\<exists>k' \<le> k. tx_work V k' rs w'))) w1"
      unfolding wp_on_wal append_abort_def same(1)
    proof (rule wp_mono [OF append_then_flush [OF t(3) [unfolded same(1)] assms(4)]], goal_cases)
      case (1 y lm)
      then show ?case
        using nu' tx_workD(3) [OF assms(1)] by (auto simp: wp_bindE wp_gets wp_require wp_modify abort_done_def view same)
    next
      case (2 e lm)
      then show ?case using view same by (auto intro!: exI [of _ "[] :: physical_mutation list"] exI [of _ v])
    qed
    show ?case
      using tail nu unfolding wp_bindE [of "gets _"] wp_gets wp_bindE [of "require _ _"] wp_require wp_on_wal_bind by (simp add: wp_on_wal_bind)
  next
    case (2 e w1)
    then obtain k' v where "k' \<le> k" "tx_work V k' rs w1" "w_log w1 = w_log w" "w_tx w1 = (w_tx w)\<lparr>tx_undo_resolved := v\<rparr>" "w_locks w1 = w_locks w"
      by (auto simp: undone_def)
    then show ?case using tx_workD(7) by blast
  qed
qed

lemma aborting_work:
  "aborting V w \<Longrightarrow> (\<exists>k rs. tx_work V k rs w) \<and> tx_allocated_pages (w_tx w) = []"
proof (induction rule: aborting.induct)
  case (aborting_first V w)
  then show ?case using tx_history_active by blast
next
  case (aborting_again V w e w')
  then obtain k rs where a: "tx_work V k rs w" "tx_allocated_pages (w_tx w) = []" by blast
  have s: "tx_state w \<notin> {Committed, Aborted}"
    using aborting_again(3) by (auto simp: coordinator_abort_def bindE_def gets_def ret_def)
  from wp_InlD [OF coordinator_abort_spec [OF a s aborting_again(2)] aborting_again(3)] a(2) aborting_again(4) show ?case by auto
qed

section \<open>Commit\<close>

definition commit_done :: "world \<Rightarrow> world \<Rightarrow> bool" where
  "commit_done w w' \<longleftrightarrow> pool_view (cs_pool w') = pool_view (cs_pool w) \<and> w_tx w' = w_tx w \<and>
     w_locks w' = commit_locks (tx_id (w_tx w)) (w_locks w) \<and>
     (\<exists>rs. wf_log (w_log w) rs \<and> logged rs (w_tx w) \<and> ends_with Commit (tx_id (w_tx w)) rs (w_log w'))"

lemma coordinator_commit_spec:
  assumes "tx_active V rs w" "tx_state w \<notin> {Committed, Aborted}" "lm_next_lsn (w_log w) + 1 \<noteq> 0"
  shows "wp (coordinator_commit True) (\<lambda>_. commit_done w)
    (\<lambda>_ w'. w_locks w' = w_locks w \<and> w_tx w' = w_tx w \<and> pool_view (cs_pool w') = pool_view (cs_pool w)) w"
proof -
  note t = tx_workD [OF assms(1)]
  have nu: "\<not> has_unfinalized_mutations w" using t(5,6) by (auto simp: has_unfinalized_mutations_def tx_shape_def)
  then have nu': "\<not> has_unfinalized_mutations (with_log lm w)" for lm by (simp add: has_unfinalized_mutations_def)
  have run: "wp (coordinator_commit True) Q E w = wp (on_wal (bindE (append_wal Commit (tx_id (w_tx w)) []) (\<lambda>_. wal_flush)))
      (\<lambda>_. wp (bindE (gets has_unfinalized_mutations) (\<lambda>unfinalized.
       bindE (require (\<not> unfinalized) (LogicError Commit_unfinalized)) (\<lambda>_.
       modify (\<lambda>w. w\<lparr>w_locks := commit_locks (tx_id (w_tx w)) (w_locks w)\<rparr>)))) Q E) E w" for Q E
    using assms(2) nu
    by (simp add: coordinator_commit_def prepare_commit_def append_commit_def wp_bindE wp_gets wp_require wp_on_wal_bind [symmetric])
  show ?thesis
    unfolding run wp_on_wal
    by (rule wp_mono [OF append_then_flush [OF t(3) assms(3)]])
       (use nu' t(3,4) in \<open>auto simp: wp_bindE wp_gets wp_require wp_modify commit_done_def\<close>)
qed

section \<open>An update that returns\<close>

lemma fetch_pinned:
  assumes "cache_ok I bp" "pinned_at bp i f" "pool_view bp i = Some p" "Suc (pool_pins bp i) < 2 ^ 32"
  obtains bp' where "fetch_page i bp = (Inr (Some f), bp')" "cache_ok I bp'" "pinned_at bp' i f" "pool_view bp' = pool_view bp"
    "pool_pins bp' i = Suc (pool_pins bp i)" "bp_wal_durability bp' = bp_wal_durability bp"
proof -
  have "is_page_allocated i (bp_page_manager bp)"
    using assms(3) dom_pm_pages [of "bp_page_manager bp"] by (auto simp: pool_view_def split: if_splits)
  moreover from this have "is_valid i" by (simp add: is_page_allocated_def)
  moreover have ff: "find_frame i bp = Some f" using assms(2) by (simp add: pinned_at_def)
  ultimately obtain r bp' where r: "fetch_page i bp = (Inr r, bp')" "r = None \<longrightarrow> pin_count i bp = Some 0xFFFFFFFF"
    using wp_succeeds [OF fetch_hit [OF cache_okD(2,3) [OF assms(1)]]] by blast
  have "pin_count i bp \<noteq> Some 0xFFFFFFFF" using assms(4) by (auto simp: pool_pins_def)
  with r obtain g where g: "fetch_page i bp = (Inr (Some g), bp')" by (cases r) auto
  note l = wp_InrD [OF wp_conj [OF pc.fetch_law [OF assms(1), of i] keeps_wp [OF provider_ops(1) refl]] g]
  then have "pinned_at bp' i f" using assms(2) by (auto simp: moved_def)
  moreover have "g = f" using l calculation by (auto simp: pinned_at_def)
  ultimately show thesis using that g l by simp
qed

lemma image_pinned:
  assumes "cache_ok {} bp" "pinned_at bp i f" "pool_view bp i = Some p" "Suc (pool_pins bp i) < 2 ^ 32"
  obtains x bp' where "image i bp = (Inr x, bp')"
proof -
  obtain bp1 where b1: "fetch_page i bp = (Inr (Some f), bp1)" "cache_ok {} bp1" "pool_pins bp1 i = Suc (pool_pins bp i)"
    by (rule fetch_pinned [OF assms])
  obtain r bp2 where "unpin_page i False bp1 = (Inr True, bp2)"
    using wp_returnsD [OF pc.unpin_law [OF b1(2), of i False]] b1(3) by auto
  with b1(1) show thesis
    by (intro that) (simp add: image_def bindE_def gets_def require_def ret_def)
qed

lemma update_returns:
  assumes "tx_active V rs w" "pinned_at (cs_pool w) i f" "pool_view (cs_pool w) i = Some p" "pool_pins (cs_pool w) i + 2 < 2 ^ 32"
    "length bs = kPagePayloadSize" "lm_next_lsn (w_log w) + 1 \<noteq> 0" "fault_free (lm_file (w_log w))"
  obtains w' where "updates_page i bs w w'"
proof -
  have "is_page_allocated i (bp_page_manager (cs_pool w))"
    using assms(3) dom_pm_pages [of "bp_page_manager (cs_pool w)"] by (auto simp: pool_view_def split: if_splits)
  then have valid: "is_valid i" by (simp add: is_page_allocated_def)
  have less: "Suc (pool_pins (cs_pool w) i) < 2 ^ 32" using assms(4) by simp
  obtain bp1 where b1: "fetch_page i (cs_pool w) = (Inr (Some f), bp1)" "cache_ok {} bp1" "pinned_at bp1 i f" "pool_view bp1 = pool_view (cs_pool w)"
      "pool_pins bp1 i = Suc (pool_pins (cs_pool w) i)"
    by (rule fetch_pinned [OF tx_workD(1) [OF assms(1)] assms(2,3) less])
  let ?w1 = "w\<lparr>cs_pool := bp1\<rparr>"
  have st1: "on_pool (fetch_page i) w = (Inr (Some f), ?w1)" using b1(1) by (simp add: on_pool_def zoom_def)
  obtain w2 where st2: "use_mutation_context ?w1 = (Inr (), w2)" and w2: "cs_pool w2 = bp1"
    by (cases "tx_has_context (w_tx w)") (simp_all add: use_mutation_context_def bindE_def gets_def ret_def modify_def on_tx_def)
  obtain x bp3 where x: "image i bp1 = (Inr x, bp3)"
    by (rule image_pinned [OF b1(2,3)]) (use b1(4,5) assms(3,4) in auto)
  obtain w3 where st3: "watch i w2 = (Inr (), w3)"
    by (cases x) (simp add: watch_def bindE_def require_def valid ret_def on_pool_def zoom_def w2 x upd_context_def modify_def)
  obtain q where cap: "capturing V rs i f q w3" and v3: "w_log w3 = w_log w"
    by (rule watch_spec [OF assms(1) st1 st2 st3])
  obtain w4 where st4: "on_pool (set_payload f bs) w3 = (Inr (), w4)" and "\<exists>bp. w4 = w3\<lparr>cs_pool := bp\<rparr> \<and> cache_ok {i} bp \<and>
      pool_view bp = (pool_view (cs_pool w3))(i \<mapsto> q\<lparr>pg_payload := bs\<rparr>) \<and> pinned_at bp i f \<and>
      bp_wal_durability bp = bp_wal_durability (cs_pool w3)"
    using wp_returnsD [OF write_captured [OF cap assms(5)]] by auto
  then obtain bp4 where w4: "w4 = w3\<lparr>cs_pool := bp4\<rparr>" and b4: "cache_ok {i} bp4"
      "pool_view bp4 = (pool_view (cs_pool w3))(i \<mapsto> q\<lparr>pg_payload := bs\<rparr>)" "pinned_at bp4 i f"
      "bp_wal_durability bp4 = bp_wal_durability (cs_pool w3)" by auto
  have "page_ok q" using cap pool_view_page [OF cache_okD(2), of "{}" "cs_pool w3" i q] by (simp add: capturing_def)
  then have enc: "\<not> isl (encode_physical_mutation (captured i q bs s))" for s
    using valid assms(5) by (simp add: captured_def encode_physical_mutation_def page_ok_def)
  have next3: "lm_next_lsn (w_log w3) + 1 \<noteq> 0" using assms(6) v3 by simp
  obtain w5 where st5: "finish (Some finalize_mutation) i f w4 = (Inr (), w5)" and fin: "finished V rs i q bs w3 w5"
    using wp_succeeds [OF finish_spec [OF cap next3 b4]] enc assms(7) v3 w4 by auto
  obtain b w' where "on_pool (unpin_page i True) w5 = (Inr b, w')" using wp_returnsD [OF unpin_finished [OF fin]] by blast
  with st1 st2 st3 st4 st5 show thesis by (intro that) (auto simp: updates_page_def)
qed

text \<open>A world with the database of one page, which is cached, and a transaction that has changed it.\<close>

definition example_world :: "pool \<Rightarrow> world" where
  "example_world bp = \<lparr>cs_pool = bp\<lparr>bp_wal_durability := Some 0\<rparr>, cs_context = new_context, w_log = new_log [], w_locks = new_lock_manager,
     w_tx = new_transaction 1 True\<rparr>"

lemma payload_pos: "kPagePayloadSize \<noteq> 0"
  by (simp add: size_defs)

lemma lk_state_new: "lk_state new_lock_manager t = Growing"
  by (simp add: new_lock_manager_def)

lemma example_history:
  obtains w w' where "tx_history (pool_view (cs_pool w)) w'" "updates_page 0 (replicate kPagePayloadSize 1) w w'" "lk_ok (w_locks w')" "tx_state w' = Growing"
    "lm_next_lsn (w_log w') + 1 \<noteq> 0" "map_option pg_payload (pool_view (cs_pool w) 0) = Some (replicate kPagePayloadSize 0)"
    "map_option pg_payload (pool_view (cs_pool w') 0) = Some (replicate kPagePayloadSize 1)" "tx_id (w_tx w') = 1" "mutated (w_tx w') = {0}"
proof -
  obtain f bp where f: "fetched {} 0 one_page_pool (Some f) bp" "find_frame 0 bp = Some f"
      "bp_frames bp ! f = pinned_frame 0 one_page_pool (new_page 0)" and run: "fetch_page 0 one_page_pool = (Inr (Some f), bp)"
    using one_page_fetch by metis
  have "cache_ok {} one_page_pool" using new_pool_cache [OF one_page_database_good(1)] by (simp add: one_page_pool_def)
  from wp_InrD [OF pc.fetch_law [OF this] run]
  have ok': "cache_ok {} bp" by simp
  let ?w = "example_world bp" and ?one = "replicate kPagePayloadSize (1 :: byte)"
  have ok: "cache_ok {} (cs_pool ?w)" using ok' by (simp add: example_world_def)
  have pin: "pinned_at (cs_pool ?w) 0 f" and pins: "pool_pins (cs_pool ?w) 0 = 1"
    using f(2,3) by (simp_all add: pinned_at_def pinned_frame_def one_page_pool_ok example_world_def pool_pins_def pin_count_def)
  have view: "pool_view (cs_pool ?w) 0 = Some (new_page 0)"
    using f(1) one_page_pool_ok(2) by (simp add: fetched_def pool_kept_def example_world_def)
  have start: "tx_history (pool_view (cs_pool ?w)) ?w"
    by (rule tx_start [OF ok, of "[]" 1]) (use new_log_wf(1) [of "[]"] in \<open>simp_all add: example_world_def attached_def new_log_def\<close>)
  obtain rs where act: "tx_active (pool_view (cs_pool ?w)) rs ?w" using tx_history_active [OF start] by blast
  obtain w' where u: "updates_page 0 ?one ?w w'"
    by (rule update_returns [OF act pin view _ length_replicate]) (use pins in \<open>simp_all add: example_world_def new_log_def fault_free_def\<close>)
  have l: "lm_next_lsn (w_log ?w) + 1 \<noteq> 0" by (simp add: example_world_def new_log_def)
  have h: "tx_history (pool_view (cs_pool ?w)) w'" by (rule tx_update [OF start _ l u]) simp
  show thesis
    by (rule updates_page_spec [OF act _ l u])
       (use view h u in \<open>auto intro!: that simp: new_page_def example_world_def new_transaction_def tx_state_def new_lock_manager_ok
          lk_state_new new_log_def payload_pos mutated_def captured_def\<close>)
qed

section \<open>Properties\<close>



text \<open>C25: Commit. A commit that returns has left the pages alone; the log then holds a record of every mutation of the
  transaction and, as its last record, the commit record, all of them at or below the durable sequence number and readable
  from the file; only then were its locks released. A commit that throws releases no lock and changes no page.\<close>

theorem commit_durable:
  assumes "tx_history V w" "lk_ok (w_locks w)" "tx_state w \<notin> {Committed, Aborted}" "lm_next_lsn (w_log w) + 1 \<noteq> 0"
  shows "wp (coordinator_commit True)
    (\<lambda>_ w'. pool_view (cs_pool w') = pool_view (cs_pool w) \<and> tx_state w' = Committed \<and> (\<forall>r. lock_view (w_locks w') r (tx_id (w_tx w)) = None) \<and>
       (\<exists>rs r. read_records (Some (contents (lm_file (w_log w')))) = Inr (rs @ [r]) \<and> wr_type r = Commit \<and> wr_transaction_id r = tx_id (w_tx w) \<and>
          logged rs (w_tx w) \<and> (\<forall>q \<in> set (rs @ [r]). wr_lsn q \<le> lm_durable_lsn (w_log w'))))
    (\<lambda>_ w'. w_locks w' = w_locks w \<and> pool_view (cs_pool w') = pool_view (cs_pool w)) w"
proof -
  obtain rs where a: "tx_active V rs w" using tx_history_active [OF assms(1)] by blast
  show ?thesis
  proof (rule wp_mono [OF coordinator_commit_spec [OF a assms(3,4)]], goal_cases)
    case (1 u w')
    then obtain rs r where l: "logged rs (w_tx w)" "wf_log (w_log w') (rs @ [r])" "wr_transaction_id r = tx_id (w_tx w)" "wr_type r = Commit"
        "\<forall>q \<in> set (rs @ [r]). wr_lsn q \<le> lm_durable_lsn (w_log w')" by (auto simp: commit_done_def ends_with_def)
    have "read_records (Some (contents (lm_file (w_log w')))) = Inr (rs @ [r])" by (rule read_torn_log [OF wf_log_torn [OF l(2)]])
    moreover have "tx_state w' = Committed" "lock_view (w_locks w') q (tx_id (w_tx w)) = None" "pool_view (cs_pool w') = pool_view (cs_pool w)" for q
      using 1 finish_transaction_spec [OF assms(2), of Committed "tx_id (w_tx w)"] assms(3) by (simp_all add: commit_done_def commit_locks_def tx_state_def)
    ultimately show ?case using l by blast
  qed simp
qed

theorem commit_durable_witness:
  "\<exists>V w. tx_history V w \<and> tx_pending_mutations (w_tx w) \<noteq> [] \<and>
     (case coordinator_commit True w of (Inr _, w') \<Rightarrow> tx_state w' = Committed | (Inl _, w') \<Rightarrow> w_locks w' = w_locks w)"
proof -
  obtain w0 w :: world where e: "tx_history (pool_view (cs_pool w0)) w" "lk_ok (w_locks w)" "tx_state w = Growing" "lm_next_lsn (w_log w) + 1 \<noteq> 0"
      "mutated (w_tx w) = {0}"
    by (rule example_history) blast
  have "tx_state w \<notin> {Committed, Aborted}" using e(3) by simp
  moreover have "tx_pending_mutations (w_tx w) \<noteq> []" using e(5) by (auto simp: mutated_def)
  ultimately show ?thesis
    using commit_durable [OF e(1,2) _ e(4)] e(1) unfolding wp_def by (intro exI [of _ "pool_view (cs_pool w0)"] exI [of _ w]) (auto split: prod.splits sum.splits)
qed

text \<open>Transaction 0 holds resource 7; the younger transaction 1 asks for it.\<close>

definition held_by_older :: lock_manager where
  "held_by_older = \<lparr>lk_table = [(7, [(0, Exclusive)])], lk_held = [(0, [7])], lk_state = (\<lambda>_. Growing)\<rparr>"

lemma held_by_older: "lock_exclusive 0 7 new_lock_manager = (Returned True, held_by_older)"
  by (simp add: lock_exclusive_def lock_run_defs held_by_older_def)

lemma death_run:
  "lock_exclusive 1 7 held_by_older = (Returned False, held_by_older\<lparr>lk_state := (\<lambda>_. Growing)(1 := Aborted)\<rparr>)"
  by (simp add: lock_exclusive_def lock_run_defs held_by_older_def)

text \<open>C34: A transaction that the lock manager kills keeps its changes. The rejected lock request sets the state to aborted
  and releases every lock; the coordinator's abort then returns at once, so the page the transaction changed stays
  changed, unlocked, and the log gets no abort record.\<close>

theorem death_leaves_updates:
  "\<exists>V w lk. tx_history V w \<and> tx_id (w_tx w) = 1 \<and> tx_state w = Growing \<and> lock_exclusive 1 7 (w_locks w) = (Returned False, lk) \<and>
     coordinator_abort True (w\<lparr>w_locks := lk\<rparr>) = (Inr (), w\<lparr>w_locks := lk\<rparr>) \<and> pool_view (cs_pool w) 0 \<noteq> V 0 \<and>
     lk_state lk 1 = Aborted \<and> (\<forall>r. lock_view lk r 1 = None)"
proof -
  obtain w0 w :: world where e: "tx_history (pool_view (cs_pool w0)) w" "tx_id (w_tx w) = 1"
      "map_option pg_payload (pool_view (cs_pool w0) 0) = Some (replicate kPagePayloadSize 0)"
      "map_option pg_payload (pool_view (cs_pool w) 0) = Some (replicate kPagePayloadSize 1)" "mutated (w_tx w) = {0}"
    by (rule example_history) blast
  obtain rs where act: "tx_active (pool_view (cs_pool w0)) rs w" using tx_history_active [OF e(1)] by blast
  define V where "V = (\<lambda>i. if i \<in> mutated (w_tx w) then pool_view (cs_pool w0) i else pool_view (cs_pool w) i)"
  have "tx_history V (w\<lparr>cs_pool := cs_pool w, w_log := w_log w, w_locks := held_by_older\<rparr>)"
    unfolding V_def
    by (rule tx_others [OF e(1) tx_workD(3) [OF act] tx_workD(1) [OF act], of "w_log w" "[]"])
       (use tx_workD(2,3) [OF act] in \<open>simp_all add: attached_def\<close>)
  moreover have "V 0 \<noteq> pool_view (cs_pool w) 0" using e(3-5) by (auto simp: V_def payload_pos)
  ultimately show ?thesis
    using death_run e(2)
    by (intro exI [of _ V] exI [of _ "w\<lparr>w_locks := held_by_older\<rparr>"] exI [of _ "held_by_older\<lparr>lk_state := (\<lambda>_. Growing)(1 := Aborted)\<rparr>"])
       (simp add: tx_state_def held_by_older_def entries_def coordinator_abort_def bindE_def gets_def ret_def lock_view_def)
qed

end
