(* ===== verification/RecoveryProperties.thy ===== *)
theory RecoveryProperties
  imports RecoveryReturns TransactionProperties
begin

text \<open>
  The properties of recovery: what the analysis reports, what REDO and UNDO do to the pages, that they return on a device
  without faults, and that together they restore the committed contents.
\<close>

section \<open>An example log\<close>

text \<open>Transaction 1 fills page 0 with ones and commits; transaction 2 fills it with twos and is cut off.\<close>

definition fill :: "byte \<Rightarrow> byte \<Rightarrow> physical_mutation" where
  "fill b a = \<lparr>mu_page_id = 0, mu_kind = PayloadWrite, mu_sequence = 0, mu_before_image = replicate kPagePayloadSize b,
     mu_after_image = replicate kPagePayloadSize a, mu_previous_page_lsn = 0\<rparr>"

definition fill_record :: "uint64 \<Rightarrow> uint64 \<Rightarrow> byte \<Rightarrow> byte \<Rightarrow> wal_record" where
  "fill_record l tid b a = \<lparr>wr_lsn = l, wr_transaction_id = tid, wr_type = PhysicalMutation, wr_payload = projr (encode_physical_mutation (fill b a))\<rparr>"

definition plain_record :: "uint64 \<Rightarrow> uint64 \<Rightarrow> WalRecordType \<Rightarrow> wal_record" where
  "plain_record l tid t = \<lparr>wr_lsn = l, wr_transaction_id = tid, wr_type = t, wr_payload = []\<rparr>"

definition example_log :: "wal_record list" where
  "example_log = [fill_record 1 1 0 1, plain_record 2 1 Commit, fill_record 3 2 1 2]"

lemma encode_fill: "encode_physical_mutation (fill b a) = Inr (projr (encode_physical_mutation (fill b a)))"
  by (simp add: encode_physical_mutation_def fill_def is_valid_def kInvalidValue_def)

lemma decode_fill: "decode_physical_mutation (projr (encode_physical_mutation (fill b a))) = Inr (fill b a)"
  using decode_encode_mutation [OF encode_fill] by (simp add: fill_def)

lemma fill_record_simps [simp]:
  "mutation_of (fill_record l tid b a) = Some \<lparr>mr_lsn = l, mr_transaction_id = tid, mr_mutation = fill b a\<rparr>"
  "allocation_of (fill_record l tid b a) = None" "payload_fine (fill_record l tid b a)" "wr_lsn (fill_record l tid b a) = l"
  "wr_transaction_id (fill_record l tid b a) = tid" "wr_type (fill_record l tid b a) = PhysicalMutation"
  "l \<noteq> 0 \<Longrightarrow> record_ok (fill_record l tid b a)"
  using mutation_record_ok [OF encode_fill]
  by (simp_all add: fill_record_def mutation_of_def allocation_of_def payload_fine_def decode_fill)

lemma plain_record_simps [simp]:
  "mutation_of (plain_record l tid Commit) = None" "allocation_of (plain_record l tid Commit) = None" "payload_fine (plain_record l tid Commit)"
  "wr_lsn (plain_record l tid t) = l" "wr_transaction_id (plain_record l tid t) = tid" "wr_type (plain_record l tid t) = t"
  "l \<noteq> 0 \<Longrightarrow> record_ok (plain_record l tid t)"
  by (simp_all add: plain_record_def mutation_of_def allocation_of_def payload_fine_def record_ok_def)

lemma example_log_ok: "log_ok example_log"
  by (simp add: log_ok_def increasing_def example_log_def)

lemma example_status:
  "committed example_log 1" "status_in example_log 2 = StatusIncomplete"
  by (simp_all add: status_in_def has_record_def example_log_def)

lemma example_pages:
  "log_mutations example_log = [\<lparr>mr_lsn = 1, mr_transaction_id = 1, mr_mutation = fill 0 1\<rparr>, \<lparr>mr_lsn = 3, mr_transaction_id = 2, mr_mutation = fill 1 2\<rparr>]"
  "log_allocations example_log = []"
  by (simp_all add: example_log_def List.map_filter_simps)

lemma example_analysis:
  obtains st where "analyze False (Some (log_bytes example_log)) = Inr st" "log_state example_log st"
proof -
  note r = read_records_log [OF example_log_ok]
  have f: "\<forall>r \<in> set example_log. payload_fine r" by (simp add: example_log_def)
  have n: "\<not> (has_record example_log tid Commit \<and> has_record example_log tid Abort)" for tid by (auto simp: has_record_def example_log_def)
  from analyze_spec [OF r] f n obtain st where "analyze False (Some (log_bytes example_log)) = Inr st" "analysis_of example_log st"
    by (auto split: sum.splits)
  with f example_log_ok show thesis by (intro that) (auto simp: log_state_def)
qed

definition example_pool :: pool where
  "example_pool = new_pool one_page_database 1 (Some 3)"

lemma example_pool_ok: "pool_view example_pool = [0 \<mapsto> new_page 0]" "undisturbed 3 example_pool"
  using one_page_database_good(2) by (simp_all add: example_pool_def one_page_database undisturbed_def) (simp_all add: new_pool_def)

lemma example_replay:
  "replay_ok (new_replay example_pool)" "contiguous example_log (new_replay example_pool)" "rc_reconstructed_pages (new_replay example_pool) = {}"
  "rc_view (new_replay example_pool) = [0 \<mapsto> new_page 0]" "ready 3 (new_replay example_pool)"
proof -
  show ok: "replay_ok (new_replay example_pool)" using new_replay_ok [OF one_page_database_good(1)] by (simp add: example_pool_def)
  have "allocation_of r = None" if "r \<in> set example_log" for r using that by (auto simp: example_log_def)
  then show "contiguous example_log (new_replay example_pool)" by (simp add: contiguous_def)
  show "rc_view (new_replay example_pool) = [0 \<mapsto> new_page 0]" by (simp add: new_replay_def example_pool_ok)
  with ok show "ready 3 (new_replay example_pool)"
    by (simp add: ready_def) (simp add: new_replay_def example_pool_ok new_page_def)
qed (simp add: new_replay_def)

lemma example_replayable: "replayable example_log example_log n (dom (rc_view (new_replay example_pool)))" "\<forall>r \<in> set example_log. wr_lsn r \<le> 3"
  using example_status by (simp_all add: example_log_def example_replay fill_def)

lemma example_history_page:
  "history example_log i = (if i = 0 then log_mutations example_log else [])"
  by (simp add: history_def example_pages fill_def)

lemma example_sides:
  "winners example_log i = (if i = 0 then [\<lparr>mr_lsn = 1, mr_transaction_id = 1, mr_mutation = fill 0 1\<rparr>] else [])"
  "losers example_log i = (if i = 0 then [\<lparr>mr_lsn = 3, mr_transaction_id = 2, mr_mutation = fill 1 2\<rparr>] else [])"
  "base_image example_log 0 = replicate kPagePayloadSize 0"
  by (simp_all add: winners_def losers_def base_image_def example_history_page example_pages example_status) (simp add: fill_def)

lemma example_lost:
  "lost_allocations example_log = {}" "losers example_log i \<noteq> [] \<Longrightarrow> rc_view (new_replay example_pool) i \<noteq> None"
  "losers example_log i \<noteq> [] \<Longrightarrow> fold (redo_step example_log) example_log (rc_view (new_replay example_pool)) i \<noteq> None" "losers example_log 0 \<noteq> []" "rebuilt_lsn example_log 0 = 1"
proof -
  show "lost_allocations example_log = {}" by (simp add: lost_allocations_def example_pages)
  show "losers example_log i \<noteq> [] \<Longrightarrow> rc_view (new_replay example_pool) i \<noteq> None"
    by (simp add: example_sides example_replay split: if_splits)
  have "V i \<noteq> None \<Longrightarrow> fold (redo_step example_log) rs V i \<noteq> None" for rs V
  proof (induction rs arbitrary: V)
    case (Cons r rs)
    then have "redo_step example_log r V i \<noteq> None" by (metis redo_step_none)
    then show ?case using Cons.IH by simp
  qed simp
  then show "losers example_log i \<noteq> [] \<Longrightarrow> fold (redo_step example_log) example_log (rc_view (new_replay example_pool)) i \<noteq> None"
    by (simp add: example_sides example_replay split: if_splits)
qed (simp_all add: example_sides rebuilt_lsn_def)

section \<open>Properties\<close>

text \<open>C30: Analysis. The analysis of a log the scanner accepts fails exactly if a payload cannot be decoded or a transaction
  has both a commit and an abort record. Otherwise it keeps the records, classifies every transaction of the log by its
  terminal record, and its indexes list the mutations and allocations of each transaction in log order.\<close>

theorem analyze_classifies:
  assumes "read_records wal = Inr rs"
  shows "((\<exists>st. analyze False wal = Inr st) \<longleftrightarrow>
      (\<forall>r \<in> set rs. payload_fine r) \<and> (\<forall>tid. \<not> (has_record rs tid Commit \<and> has_record rs tid Abort))) \<and>
    (\<forall>st. analyze False wal = Inr st \<longrightarrow> rv_records st = rs \<and>
      (\<forall>tid. map_option ta_status (transaction_at tid st) = (if tid \<in> wr_transaction_id ` set rs then Some (status_in rs tid) else None)) \<and>
      (\<forall>tid ta. transaction_at tid st = Some ta \<longrightarrow>
         map (\<lambda>k. rv_mutations st ! k) (ta_mutation_indexes ta) = filter (\<lambda>m. mr_transaction_id m = tid) (log_mutations rs) \<and>
         map (\<lambda>k. rv_allocations st ! k) (ta_allocation_indexes ta) = filter (\<lambda>a. al_transaction_id a = tid) (log_allocations rs)))"
proof -
  note spec = analyze_spec [OF assms]
  have ok: "analysis_of rs st" if "analyze False wal = Inr st" for st using spec that by simp
  show ?thesis
  proof (intro conjI allI impI)
    show "(\<exists>st. analyze False wal = Inr st) \<longleftrightarrow> (\<forall>r \<in> set rs. payload_fine r) \<and> (\<forall>tid. \<not> (has_record rs tid Commit \<and> has_record rs tid Abort))"
      using spec by (cases "analyze False wal") auto
  next
    fix st assume "analyze False wal = Inr st"
    note a = ok [OF this, unfolded analysis_of_def]
    show "rv_records st = rs" using a by blast
    show "map_option ta_status (transaction_at tid st) = (if tid \<in> wr_transaction_id ` set rs then Some (status_in rs tid) else None)" for tid
      using a by simp
    fix tid ta assume "transaction_at tid st = Some ta"
    with a have "ta = (summary rs tid)\<lparr>ta_status := status_in rs tid\<rparr>" by (auto split: if_splits)
    with a show "map (\<lambda>k. rv_mutations st ! k) (ta_mutation_indexes ta) = filter (\<lambda>m. mr_transaction_id m = tid) (log_mutations rs)"
      "map (\<lambda>k. rv_allocations st ! k) (ta_allocation_indexes ta) = filter (\<lambda>a. al_transaction_id a = tid) (log_allocations rs)"
      by (simp_all add: summary_def map_indexes)
  qed
qed

theorem analyze_classifies_witness:
  "\<exists>st. analyze False (Some (log_bytes example_log)) = Inr st \<and> rv_records st = example_log \<and>
     map_option ta_status (transaction_at 1 st) = Some StatusCommitted \<and> map_option ta_status (transaction_at 2 st) = Some StatusIncomplete"
proof -
  obtain st where st: "analyze False (Some (log_bytes example_log)) = Inr st" by (rule example_analysis)
  have "1 \<in> wr_transaction_id ` set example_log" "2 \<in> wr_transaction_id ` set example_log" by (simp_all add: example_log_def)
  with analyze_classifies [OF read_records_log [OF example_log_ok]] st example_status show ?thesis by (intro exI [of _ st]) simp
qed



text \<open>C28: UNDO rebuilds exactly the surviving bytes. An UNDO that returns leaves a page that an uncommitted transaction had
  changed with, at every position, the byte written by the last committed mutation that changed that position, or the byte of
  the earliest image in the log if there is none, and with the sequence number of its last committed mutation; a page an
  uncommitted transaction had allocated is released; every other page is unchanged.\<close>

theorem undo_rebuilds_survivors:
  assumes "analyze False wal = Inr st" "read_records wal = Inr rs" "replay_ok rc" "rc_reconstructed_pages rc = {}"
  shows "wp (undo_run st)
    (\<lambda>_ rc'. \<forall>i. if i \<in> lost_allocations rs then rc_view rc' i = None
       else if losers rs i \<noteq> [] then
         (\<exists>p. rc_view rc' i = Some p \<and> pg_payload p = map (surviving_byte rs i) [0..<kPagePayloadSize] \<and> pg_lsn p = rebuilt_lsn rs i)
       else rc_view rc' i = rc_view rc i)
    (\<lambda>_. replay_ok) rc"
proof -
  have st: "log_state rs st" using analyze_log_state [OF assms(1)] assms(2) by auto
  have img: "rebuilt_image rs i = map (surviving_byte rs i) [0..<kPagePayloadSize]" if "losers rs i \<noteq> []" for i
    using that by (intro rebuilt_image_bytes) (auto simp: losers_def)
  show ?thesis
    by (rule wp_mono [OF undo_run_spec [OF st assms(3,4)]]) (auto simp: rebuilt_def img)
qed

theorem undo_rebuilds_survivors_witness:
  "\<exists>st me rc. analyze False (Some (log_bytes example_log)) = Inr st \<and> undo_run st (new_replay example_pool) = (Inr me, rc) \<and>
     (\<exists>p. rc_view rc 0 = Some p \<and> pg_payload p = map (surviving_byte example_log 0) [0..<kPagePayloadSize] \<and> pg_lsn p = 1)"
proof -
  obtain st where st: "analyze False (Some (log_bytes example_log)) = Inr st" "log_state example_log st" by (rule example_analysis)
  obtain me rc where run: "undo_run st (new_replay example_pool) = (Inr me, rc)"
    using wp_returnsD [OF undo_run_returns [OF st(2) example_replay(5,3) example_replayable(2)]] example_lost by blast
  from wp_InrD [OF undo_rebuilds_survivors [OF st(1) read_records_log [OF example_log_ok] example_replay(1,3)] run] st(1) run example_lost
  show ?thesis by (auto split: if_splits)
qed





section \<open>Where recovery stops\<close>

text \<open>A transaction of a fresh log whose next flush will fail.\<close>

definition failing_world :: world where
  "failing_world = (example_world one_page_pool)\<lparr>w_log := (new_log [])\<lparr>lm_fail_next_flush := True\<rparr>\<rparr>"

lemma failing_world_sel:
  "w_tx failing_world = new_transaction 1 True" "tx_state failing_world = Growing"
  "w_log failing_world = (new_log [])\<lparr>lm_fail_next_flush := True\<rparr>" "wf_log (w_log failing_world) []" "lm_next_lsn (w_log failing_world) = 1"
  "fault_free (lm_file (w_log failing_world))"
proof -
  show log: "w_log failing_world = (new_log [])\<lparr>lm_fail_next_flush := True\<rparr>" by (simp add: failing_world_def)
  show "wf_log (w_log failing_world) []" using new_log_wf(1) [of "[]"] unfolding log wf_log_def by (simp add: new_log_def)
  show "lm_next_lsn (w_log failing_world) = 1" "fault_free (lm_file (w_log failing_world))" unfolding log by (simp_all add: new_log_def fault_free_def)
  show "w_tx failing_world = new_transaction 1 True" by (simp add: failing_world_def example_world_def)
  then show "tx_state failing_world = Growing" by (simp add: tx_state_def failing_world_def example_world_def lk_state_new)
qed

lemma failing_world_history: "tx_history (pool_view (cs_pool failing_world)) failing_world"
proof (rule tx_start [of _ "[]" 1])
  show "cache_ok {} (cs_pool failing_world)"
    using new_pool_cache [OF one_page_database_good(1)] by (simp add: failing_world_def example_world_def one_page_pool_def)
  show "attached failing_world" by (simp add: failing_world_def example_world_def attached_def new_log_def)
qed (fact failing_world_sel)+

lemma failing_commit:
  obtains lm r e where "coordinator_commit True failing_world = (Inl e, with_log lm failing_world)" "wf_log lm [r]" "wr_type r = Commit"
    "wr_transaction_id r = 1" "\<not> lm_fail_next_flush lm" "lm_next_lsn lm = 2" "fault_free (lm_file lm)"
proof -
  let ?lm = "w_log failing_world"
  let ?r = "\<lparr>wr_lsn = lm_next_lsn ?lm, wr_transaction_id = 1, wr_type = Commit, wr_payload = []\<rparr>"
  have "record_ok ?r" by (simp add: record_ok_def failing_world_sel(5))
  then obtain lm1 where a: "append_wal Commit 1 [] ?lm = (Inr 1, lm1)" "wf_log lm1 [?r]" "lm_fail_next_flush lm1" "lm_next_lsn lm1 = 2" "fault_free (lm_file lm1)"
    using append_wal_succeeds [OF failing_world_sel(4) _ failing_world_sel(6) refl, of 1 Commit "[]"] failing_world_sel(3,5) by auto
  let ?lm2 = "lm1\<lparr>lm_fail_next_flush := False\<rparr>"
  have f: "wal_flush lm1 = (Inl (WalError Forced_flush_failure), ?lm2)"
    using a(3) by (simp add: wal_flush_def bindE_def gets_def modify_def throw_def)
  have "\<not> has_unfinalized_mutations failing_world" by (simp add: has_unfinalized_mutations_def failing_world_sel new_transaction_def)
  then have "coordinator_commit True failing_world = (Inl (WalError Forced_flush_failure), with_log ?lm2 (with_log lm1 failing_world))"
    using a(1) f
    by (simp add: coordinator_commit_def prepare_commit_def append_commit_def bindE_def gets_def require_def ret_def on_wal_def zoom_def
        failing_world_sel new_transaction_def)
  moreover have "with_log ?lm2 (with_log lm1 w) = with_log ?lm2 w" for w :: world by (simp add: with_log_def)
  ultimately show thesis using a by (intro that [of "WalError Forced_flush_failure" ?lm2 ?r]) (auto simp: wf_log_def)
qed

lemma abort_after_failure:
  assumes "wf_log lm [r]" "\<not> lm_fail_next_flush lm" "lm_next_lsn lm = 2" "fault_free (lm_file lm)"
  obtains w r' where "coordinator_abort True (with_log lm failing_world) = (Inr (), w)" "wf_log (w_log w) [r, r']" "wr_type r' = Abort" "wr_transaction_id r' = 1"
proof -
  let ?r = "\<lparr>wr_lsn = lm_next_lsn lm, wr_transaction_id = 1, wr_type = Abort, wr_payload = []\<rparr>"
  have "record_ok ?r" by (simp add: record_ok_def assms(3))
  then obtain lm1 where a: "append_wal Abort 1 [] lm = (Inr 2, lm1)" "wf_log lm1 [r, ?r]" "\<not> lm_fail_next_flush lm1" "fault_free (lm_file lm1)" "good (lm_file lm1)"
    using append_wal_succeeds [OF assms(1) _ assms(4) refl, of 1 Abort "[]"] assms(2,3) by auto
  then obtain lm2 where f: "wal_flush lm1 = (Inr (), lm2)" "wf_log lm2 [r, ?r]" using wal_flush_succeeds [OF a(2,4,5,3)] by blast
  have "\<not> has_unresolved_mutations_for_abort (with_log l failing_world)" "\<not> has_unfinished_capture (cs_context failing_world)" for l
    by (simp_all add: has_unresolved_mutations_for_abort_def failing_world_sel new_transaction_def has_unfinished_capture_def)
      (simp add: failing_world_def example_world_def new_context_def)
  then have "\<exists>w. coordinator_abort True (with_log lm failing_world) = (Inr (), w) \<and> w_log w = lm2"
    using a(1) f(1) failing_world_sel(2)
    by (simp add: coordinator_abort_def prepare_abort_def rollback_for_abort_def append_abort_def bindE_def gets_def require_def ret_def on_wal_def zoom_def
        modify_def failing_world_sel new_transaction_def has_unresolved_mutations_for_abort_def)
  with f(2) show thesis using that by fastforce
qed

text \<open>C31: A commit that fails and an abort that succeeds leave a log that recovery refuses. If the flush of a commit fails, its
  record is already in the file; the abort that the client may still ask for returns and adds its own record, and the
  analysis then rejects the whole log.\<close>

theorem failed_commit_blocks_recovery:
  "\<exists>w e w1 w2 e'. tx_history (pool_view (cs_pool w)) w \<and> coordinator_commit True w = (Inl e, w1) \<and> coordinator_abort True w1 = (Inr (), w2) \<and>
     analyze False (Some (contents (lm_file (w_log w2)))) = Inl e'"
proof -
  obtain lm r e where c: "coordinator_commit True failing_world = (Inl e, with_log lm failing_world)" "wf_log lm [r]" "wr_type r = Commit"
      "wr_transaction_id r = 1" "\<not> lm_fail_next_flush lm" "lm_next_lsn lm = 2" "fault_free (lm_file lm)" by (rule failing_commit)
  obtain w r' where a: "coordinator_abort True (with_log lm failing_world) = (Inr (), w)" "wf_log (w_log w) [r, r']" "wr_type r' = Abort" "wr_transaction_id r' = 1"
    by (rule abort_after_failure [OF c(2,5-7)])
  have "read_records (Some (contents (lm_file (w_log w)))) = Inr [r, r']" by (rule read_torn_log [OF wf_log_torn [OF a(2)]])
  from analyze_spec [OF this] c(3,4) a(3,4) obtain e' where "analyze False (Some (contents (lm_file (w_log w)))) = Inl e'"
    by (cases "analyze False (Some (contents (lm_file (w_log w))))") (auto simp: has_record_def)
  with c(1) a(1) failing_world_history show ?thesis by blast
qed

text \<open>The log and the file of a transaction that allocated page 0, changed it and was rolled back at runtime.\<close>

definition aborted_log :: "wal_record list" where
  "aborted_log = [\<lparr>wr_lsn = 1, wr_transaction_id = 1, wr_type = PageAllocate, wr_payload = put64 0\<rparr>, fill_record 2 1 0 1, plain_record 3 1 Abort]"

definition released_database :: page_manager where
  "released_database = snd (deallocate_page 0 one_page_database)"

lemma released_database: "wf_pm released_database" "pm_pages released_database = Map.empty"
proof -
  have "wp (deallocate_page 0) (\<lambda>_ pm'. wf_pm pm' \<and> pm_pages pm' = Map.empty) (\<lambda>_ _. False) one_page_database"
    using one_page_database_good(2) by (intro wp_mono [OF deallocate_page_spec [OF one_page_database_good(1)]]) (auto simp: one_page_database)
  then show "wf_pm released_database" "pm_pages released_database = Map.empty"
    unfolding released_database_def wp_def by (auto split: prod.splits sum.splits)
qed

lemma aborted_log_analysis:
  obtains st where "analyze False (Some (log_bytes aborted_log)) = Inr st" "read_records (Some (log_bytes aborted_log)) = Inr aborted_log"
    "losers aborted_log 0 \<noteq> []"
proof -
  have al: "payload_fine \<lparr>wr_lsn = 1, wr_transaction_id = 1, wr_type = PageAllocate, wr_payload = put64 0\<rparr>"
      "mutation_of \<lparr>wr_lsn = 1, wr_transaction_id = 1, wr_type = PageAllocate, wr_payload = put64 0\<rparr> = None"
      "record_ok \<lparr>wr_lsn = 1, wr_transaction_id = 1, wr_type = PageAllocate, wr_payload = put64 0\<rparr>"
    by (simp_all add: payload_fine_def mutation_of_def record_ok_def decode_page_allocate_def is_valid_def kInvalidValue_def wal_size_defs)
  have ab: "mutation_of (plain_record 3 1 Abort) = None" "payload_fine (plain_record 3 1 Abort)"
    by (simp_all add: plain_record_def mutation_of_def payload_fine_def)
  have "log_ok aborted_log" using al(3) by (simp add: log_ok_def increasing_def aborted_log_def)
  then have r: "read_records (Some (log_bytes aborted_log)) = Inr aborted_log" by (rule read_records_log)
  have "\<forall>r \<in> set aborted_log. payload_fine r" using al(1) ab(2) by (simp add: aborted_log_def)
  moreover have "\<not> (has_record aborted_log tid Commit \<and> has_record aborted_log tid Abort)" for tid by (simp add: has_record_def aborted_log_def)
  ultimately obtain st where st: "analyze False (Some (log_bytes aborted_log)) = Inr st" using analyze_spec [OF r] by (auto split: sum.splits)
  have "log_mutations aborted_log = [\<lparr>mr_lsn = 2, mr_transaction_id = 1, mr_mutation = fill 0 1\<rparr>]"
    using al(2) ab(1) by (simp add: aborted_log_def List.map_filter_simps)
  moreover have "\<not> committed aborted_log 1" by (simp add: status_in_def has_record_def aborted_log_def)
  ultimately have "losers aborted_log 0 \<noteq> []" by (simp add: losers_def history_def fill_def)
  with that st r show thesis by blast
qed

text \<open>C32: UNDO stops at a page that is no longer allocated. If a transaction that did not commit has a mutation of a page which
  is not allocated any more, as after an abort at runtime of a transaction that had allocated the page, UNDO throws.\<close>

theorem undo_stops_on_released_page:
  assumes "analyze False wal = Inr st" "read_records wal = Inr rs" "replay_ok rc" "rc_reconstructed_pages rc = {}" "losers rs i \<noteq> []" "rc_view rc i = None"
  shows "\<exists>e rc'. undo_run st rc = (Inl e, rc')"
proof -
  have st: "log_state rs st" using analyze_log_state [OF assms(1)] assms(2) by auto
  obtain x rc' where run: "undo_run st rc = (x, rc')" by fastforce
  show ?thesis
  proof (cases x)
    case (Inr me)
    with wp_InrD [OF undo_run_spec [OF st assms(3,4)]] run assms(5,6) show ?thesis by blast
  qed (use run in simp)
qed

theorem undo_stops_on_released_page_witness:
  "\<exists>st e rc. analyze False (Some (log_bytes aborted_log)) = Inr st \<and> undo_run st (new_replay (new_pool released_database 1 None)) = (Inl e, rc)"
proof -
  obtain st where st: "analyze False (Some (log_bytes aborted_log)) = Inr st" "read_records (Some (log_bytes aborted_log)) = Inr aborted_log"
    "losers aborted_log 0 \<noteq> []" by (rule aborted_log_analysis)
  have "rc_view (new_replay (new_pool released_database 1 None)) 0 = None" by (simp add: new_replay_def released_database)
  with undo_stops_on_released_page [OF st(1,2) new_replay_ok [OF released_database(1)] _ st(3)] st(1) show ?thesis by (auto simp: new_replay_def)
qed

end
