(* ===== verification/PageAccess.thy ===== *)
theory PageAccess
  imports Residents TransactionHistory
begin

text \<open>
  How the table heap and the B+ tree use pages: fetch a page, look at its payload, or change the payload between the two
  calls of a mutation context, and unpin it; and allocate pages. Both classes hold two pointers,
  \<^verbatim>\<open>active_mutations_\<close> and \<^verbatim>\<open>active_transaction_\<close>, which are set for the duration of a call; the mode below is the
  value of the two pointers.

  The specifications are in terms of the payloads of the pages: \<open>paged mode P w\<close> says that the pool is in order and that the
  pages have the payloads \<open>P\<close>, and \<open>holding mode i f I P w\<close> that in addition page \<open>i\<close> is pinned at frame \<open>f\<close>.
\<close>

section \<open>Operations\<close>

datatype mutation_mode = NoMutations | Mutations | InTransaction

text \<open>An operation inside a transaction begins by obtaining the mutation context of the transaction.\<close>

definition entering :: "mutation_mode \<Rightarrow> (world, unit) op" where
  "entering mode = (if mode = InTransaction then use_mutation_context else ret ())"

definition watching :: "mutation_mode \<Rightarrow> PageId \<Rightarrow> (world, unit) op" where
  "watching mode i = (if mode = NoMutations then ret () else watch i)"

definition finishing :: "mutation_mode \<Rightarrow> PageId \<Rightarrow> FrameId \<Rightarrow> (world, unit) op" where
  "finishing mode i f =
     (case mode of
        NoMutations \<Rightarrow> ret ()
      | Mutations \<Rightarrow> finish None i f
      | InTransaction \<Rightarrow> finish (Some finalize_mutation) i f)"

definition allocate_in :: "mutation_mode \<Rightarrow> (world, PageId) op" where
  "allocate_in mode = (if mode = InTransaction then tx_allocate_page else on_pool (on_disk allocate_page))"

definition payload_at :: "FrameId \<Rightarrow> world \<Rightarrow> byte list" where
  "payload_at f w = pg_payload (page_at f (cs_pool w))"

text \<open>The payload of a pinned page is replaced by a function of itself, inside a capture; the result is the old payload.\<close>

definition change_payload :: "mutation_mode \<Rightarrow> PageId \<Rightarrow> FrameId \<Rightarrow> (byte list \<Rightarrow> byte list) \<Rightarrow> (world, byte list) op" where
  "change_payload mode i f g =
     bindE (watching mode i) (\<lambda>_.
     bindE (gets (payload_at f)) (\<lambda>d.
     bindE (on_pool (set_payload f (g d))) (\<lambda>_.
     bindE (finishing mode i f) (\<lambda>_.
     ret d))))"

text \<open>An operation on the world, for an object and the world.\<close>

definition in_world :: "(world, 'a) op \<Rightarrow> ('o \<times> world, 'a) op" where
  "in_world = zoom snd (\<lambda>w s. (fst s, w))"

lemma wp_in_world: "wp (in_world m) Q E s = wp m (\<lambda>x w. Q x (fst s, w)) (\<lambda>e w. E e (fst s, w)) (snd s)"
  by (simp add: in_world_def wp_zoom)

text \<open>The address of a row: \<^verbatim>\<open>RecordId\<close> of \<^verbatim>\<open>bplus_tree.h\<close>.\<close>

record RecordId =
  rid_page :: PageId
  rid_slot :: uint32

section \<open>States\<close>

definition payloads :: "world \<Rightarrow> PageId \<rightharpoonup> byte list" where
  "payloads w i = map_option pg_payload (pool_view (cs_pool w) i)"

definition bounded :: "pool \<Rightarrow> bool" where
  "bounded bp \<longleftrightarrow> residents {..<pm_page_count (bp_page_manager bp)} bp"

definition paged :: "mutation_mode \<Rightarrow> (PageId \<rightharpoonup> byte list) \<Rightarrow> world \<Rightarrow> bool" where
  "paged mode P w \<longleftrightarrow> cache_ok {} (cs_pool w) \<and> payloads w = P \<and> bounded (cs_pool w) \<and> (mode = InTransaction \<longrightarrow> tx_log_sink (w_tx w))"

definition holding :: "mutation_mode \<Rightarrow> PageId \<Rightarrow> FrameId \<Rightarrow> PageId set \<Rightarrow> (PageId \<rightharpoonup> byte list) \<Rightarrow> world \<Rightarrow> bool" where
  "holding mode i f I P w \<longleftrightarrow> cache_ok I (cs_pool w) \<and> pinned_at (cs_pool w) i f \<and> payloads w = P \<and> bounded (cs_pool w) \<and>
     (mode = InTransaction \<longrightarrow> tx_log_sink (w_tx w))"

lemma payload_length: "paged mode P w \<Longrightarrow> P i = Some d \<Longrightarrow> length d = kPagePayloadSize"
  using pool_view_page [OF cache_okD(2), of "{}" "cs_pool w" i] by (auto simp: paged_def payloads_def page_ok_def)

lemma paged_valid: "paged mode P w \<Longrightarrow> P i \<noteq> None \<Longrightarrow> is_valid i"
  using dom_pm_pages [of "bp_page_manager (cs_pool w)"]
  by (auto simp: paged_def payloads_def pool_view_def is_page_allocated_def split: if_splits)

lemma holding_payload:
  assumes "holding mode i f I P w"
  shows "P i \<noteq> None \<Longrightarrow> P i = Some (payload_at f w)"
  using assms pinned_at_view [of "cs_pool w" i f] by (auto simp: holding_def payloads_def payload_at_def)

subsection \<open>The bound on cached pages\<close>

definition fits :: "uint64 \<Rightarrow> pool \<Rightarrow> bool" where
  "fits n bp \<longleftrightarrow> residents {..<n} bp \<and> counts n bp"

lemma bounded_fits: "bounded bp \<longleftrightarrow> fits (pm_page_count (bp_page_manager bp)) bp"
  by (simp add: bounded_def fits_def counts_def)

lemma fits_bounded: "fits n bp \<Longrightarrow> bounded bp"
  by (auto simp: bounded_def fits_def counts_def)

lemma keeps_fits: "keeps (residents {..<n}) m \<Longrightarrow> keeps (counts n) m \<Longrightarrow> keeps (fits n) m"
  by (simp add: keeps_def fits_def)

lemma fits_ops:
  "keeps (fits n) (unpin_page i b)" "keeps (fits n) (set_payload f bs)" "keeps (fits n) (set_page_lsn f lsn)"
  by (intro keeps_fits keeps_intros)+

lemma fetch_fits: "fits n bp \<Longrightarrow> wp (fetch_page i) (\<lambda>_. fits n) (\<lambda>_. fits n) bp"
proof -
  assume f: "fits n bp"
  show ?thesis
  proof (cases "is_page_allocated i (bp_page_manager bp)")
    case True
    then have "i \<in> {..<n}" using f is_page_allocated_count [OF True] by (simp add: fits_def counts_def)
    then show ?thesis using f by (intro keeps_wp [OF keeps_fits [OF residents_fetch_page]] keeps_intros)
  next
    case False
    then show ?thesis using f by (simp add: fetch_page_def wp_simps count_stat_def fits_def counts_def)
  qed
qed

lemma bounded_wp:
  assumes "bounded bp" "\<And>n. fits n bp \<Longrightarrow> wp m (\<lambda>_. fits n) (\<lambda>_. fits n) bp"
  shows "wp m (\<lambda>_. bounded) (\<lambda>_. bounded) bp"
proof -
  have "fits (pm_page_count (bp_page_manager bp)) bp" using assms(1) by (simp add: bounded_fits)
  from assms(2) [OF this] show ?thesis by (rule wp_mono) (auto intro: fits_bounded)
qed

lemma bounded_ops:
  "keeps bounded (fetch_page i)" "keeps bounded (unpin_page i b)" "keeps bounded (set_payload f bs)" "keeps bounded (set_page_lsn f lsn)"
  by (auto intro!: keepsI bounded_wp fetch_fits keeps_wp [OF fits_ops(1)] keeps_wp [OF fits_ops(2)] keeps_wp [OF fits_ops(3)])

section \<open>Fetching and unpinning\<close>

lemma fetch_paged:
  assumes "paged mode P w"
    and "\<And>f w1. holding mode i f {} P w1 \<Longrightarrow> P i = Some (payload_at f w1) \<Longrightarrow> wp (m (Some f)) Q E w1"
    and "\<And>w1. paged mode P w1 \<Longrightarrow> wp (m None) Q E w1"
    and "\<And>e w1. paged mode P w1 \<Longrightarrow> E e w1"
  shows "wp (bindE (on_pool (fetch_page i)) m) Q E w"
proof -
  have s: "cache_ok {} (cs_pool w)" "bounded (cs_pool w)" "payloads w = P" "mode = InTransaction \<longrightarrow> tx_log_sink (w_tx w)"
    using assms(1) by (simp_all add: paged_def)
  show ?thesis
    unfolding wp_bindE wp_on_pool
  proof (rule wp_mono [OF wp_conj [OF pc.fetch_law [OF s(1), of i] keeps_wp [OF bounded_ops(1) s(2)]]], goal_cases)
    case (1 r bp)
    let ?w = "w\<lparr>cs_pool := bp\<rparr>"
    have st: "cache_ok {} bp" "payloads ?w = P" "bounded bp" using 1 s(3) by (simp_all add: payloads_def fun_eq_iff)
    show ?case
    proof (cases r)
      case None
      then show ?thesis using assms(3) [of ?w] st s(4) by (simp add: paged_def)
    next
      case (Some f)
      then have h: "holding mode i f {} P ?w" using 1 st s(4) by (simp add: holding_def)
      have "P i \<noteq> None" using 1 Some s(3) by (auto simp: payloads_def)
      with Some show ?thesis using assms(2) [OF h] holding_payload [OF h] by simp
    qed
  next
    case (2 e bp)
    then show ?case using assms(4) [of "w\<lparr>cs_pool := bp\<rparr>"] s(3,4) by (simp add: paged_def payloads_def fun_eq_iff)
  qed
qed

lemma unpin_held:
  assumes "holding mode i f I P w" "I \<subseteq> {i}" "d \<or> I = {}"
  shows "wp (on_pool (unpin_page i d)) (\<lambda>b w'. b \<and> paged mode P w') (\<lambda>_ _. False) w"
proof -
  have h: "cache_ok I (cs_pool w)" "pool_pins (cs_pool w) i \<noteq> 0" "bounded (cs_pool w)" "payloads w = P" "mode = InTransaction \<longrightarrow> tx_log_sink (w_tx w)"
    using assms(1) pinned_at_pins by (auto simp: holding_def)
  have I: "I - {i} = {}" "d \<or> i \<notin> I" using assms(2,3) by auto
  show ?thesis
    unfolding wp_on_pool
    by (rule wp_mono [OF wp_conj [OF pc.unpin_law [OF h(1,2) I(2)] keeps_wp [OF bounded_ops(2) h(3)]]])
       (use h(4,5) I(1) in \<open>auto simp: paged_def payloads_def fun_eq_iff\<close>)
qed

section \<open>Changing a payload\<close>

lemma held_watch:
  assumes "holding mode i f {} P w" "P i \<noteq> None"
  shows "wp (watch i) (\<lambda>_. holding mode i f {} P) (\<lambda>_ _. True) w"
proof -
  have h: "cache_ok {} (cs_pool w)" "pinned_at (cs_pool w) i f" "payloads w = P" "bounded (cs_pool w)" "mode = InTransaction \<longrightarrow> tx_log_sink (w_tx w)"
    using assms(1) by (simp_all add: holding_def)
  have k: "keeps bounded (image i)" unfolding image_def by (intro keeps_intros bounded_ops)
  show ?thesis
    unfolding watch_def wp_bindE wp_require
  proof (cases "is_valid i", simp_all add: wp_on_pool, rule wp_mono [OF wp_conj [OF image_spec [OF h(1)] keeps_wp [OF k h(4)]]], goal_cases)
    case (2 x bp)
    then have "moved pinned_at pool_pins (cs_pool w) bp" "pool_pins bp = pool_pins (cs_pool w)" by simp_all
    with h(2) have "pinned_at bp i f" using pinned_at_pins by (simp add: moved_def)
    with 2 h(3,5) show ?case by (auto simp: holding_def upd_context_def wp_modify payloads_def fun_eq_iff split: prod.split)
  qed simp_all
qed

lemma held_set_payload:
  assumes "holding mode i f {} P w" "P i = Some d" "length bs = kPagePayloadSize"
  shows "wp (on_pool (set_payload f bs)) (\<lambda>_. holding mode i f {i} (P(i \<mapsto> bs))) (\<lambda>_ _. False) w"
proof -
  have h: "cache_ok {} (cs_pool w)" "pinned_at (cs_pool w) i f" "payloads w = P" "bounded (cs_pool w)" "mode = InTransaction \<longrightarrow> tx_log_sink (w_tx w)"
    using assms(1) by (simp_all add: holding_def)
  then obtain p where p: "pool_view (cs_pool w) i = Some p" using assms(2) by (auto simp: payloads_def)
  show ?thesis
    unfolding wp_on_pool
    by (rule wp_mono [OF wp_conj [OF pc.write_law [OF h(1,2) p assms(3)] keeps_wp [OF bounded_ops(3) h(4)]]])
       (use h(2,3,5) in \<open>auto simp: holding_def payloads_def fun_eq_iff\<close>)
qed

text \<open>The end of a capture leaves the payloads alone; with a log it sets the sequence number of the page.\<close>

lemma finalize_mutation_frame:
  assumes "tx_log_sink (w_tx w)"
  shows "wp (finalize_mutation m) (\<lambda>r w'. r \<noteq> None \<and> tx_log_sink (w_tx w') \<and>
     (\<exists>d. cs_pool w' = (cs_pool w)\<lparr>bp_wal_durability := d\<rparr>)) (\<lambda>_ _. True) w"
  using assms unfolding finalize_mutation_def
  by (auto simp: wp_simps wp_on_tx on_wal_def wp_zoom with_log_def intro!: wpI)

lemma holding_context [simp]: "holding mode i f I P (w\<lparr>cs_context := c\<rparr>) = holding mode i f I P w"
  by (simp add: holding_def payloads_def fun_eq_iff)

lemma held_set_lsn:
  assumes "holding mode i f {i} P w" "P i \<noteq> None"
  shows "wp (on_pool (set_page_lsn f lsn)) (\<lambda>_. holding mode i f {i} P) (\<lambda>_ _. True) w"
proof -
  have h: "cache_ok {i} (cs_pool w)" "pinned_at (cs_pool w) i f" "payloads w = P" "bounded (cs_pool w)" "mode = InTransaction \<longrightarrow> tx_log_sink (w_tx w)"
    using assms(1) by (simp_all add: holding_def)
  then obtain p where p: "pool_view (cs_pool w) i = Some p" using assms(2) by (auto simp: payloads_def)
  show ?thesis
    unfolding wp_on_pool
    by (rule wp_mono [OF wp_conj [OF pc.lsn_law [OF h(1,2) p] keeps_wp [OF bounded_ops(4) h(4)]]])
       (use h(2,5) p in \<open>auto simp: holding_def payloads_def fun_eq_iff h(3) [symmetric]\<close>)
qed

lemma holding_frame:
  assumes "holding mode i f I P w" "cs_pool w' = (cs_pool w)\<lparr>bp_wal_durability := d\<rparr>" "mode = InTransaction \<longrightarrow> tx_log_sink (w_tx w')"
  shows "holding mode i f I P w'"
proof -
  have "cache_ok I (cs_pool w')" "pinned_at (cs_pool w') i f" "bounded (cs_pool w')" "pool_view (cs_pool w') = pool_view (cs_pool w)"
    using assms(1) unfolding assms(2) by (simp_all add: holding_def bounded_def residents_def)
  with assms(1,3) show ?thesis by (simp add: holding_def payloads_def fun_eq_iff)
qed

lemma held_capture:
  assumes "holding mode i f {i} P w" "P i \<noteq> None" "fin = (if mode = InTransaction then Some finalize_mutation else None)"
  shows "wp (capture fin i after (Some f)) (\<lambda>_. holding mode i f {i} P) (\<lambda>_ _. True) w"
proof -
  have fin: "wp (finalize_mutation m) (\<lambda>l. wp (case l of Some l \<Rightarrow> if l = 0 then throw (InvalidArgument Nonzero_lsn_required) else on_pool (set_page_lsn f l)
      | None \<Rightarrow> on_pool (mark_mutation_pending i)) (\<lambda>_. holding mode i f {i} P) (\<lambda>_ _. True)) (\<lambda>_ _. True) w1"
    if "holding mode i f {i} P w1" "mode = InTransaction" for m w1
  proof -
    have "tx_log_sink (w_tx w1)" using that by (simp add: holding_def)
    from finalize_mutation_frame [OF this] show ?thesis
    proof (rule wp_mono, goal_cases)
      case (1 r w2)
      then obtain l d where "r = Some l" "cs_pool w2 = (cs_pool w1)\<lparr>bp_wal_durability := d\<rparr>" "tx_log_sink (w_tx w2)" by auto
      with held_set_lsn [OF holding_frame [OF that(1)] assms(2)] show ?case by (simp add: wp_throw)
    qed simp
  qed
  show ?thesis
  proof (cases "mode = InTransaction")
    case True
    then have "fin = Some finalize_mutation" using assms(3) by simp
    then show ?thesis
      using assms(1) fin [OF _ True]
      by (auto simp: capture_def wp_bindE wp_gets wp_if wp_ret upd_context_def wp_modify Let_def wp_throw wp_funs split: option.split)
  next
    case False
    then show ?thesis
      using assms(1,3) by (auto simp: capture_def wp_bindE wp_gets wp_if wp_ret upd_context_def wp_modify Let_def wp_throw wp_funs split: option.split)
  qed
qed

lemma held_finishing:
  assumes "holding mode i f {i} P w" "P i \<noteq> None"
  shows "wp (finishing mode i f) (\<lambda>_. holding mode i f {i} P) (\<lambda>_ _. True) w"
  using assms held_capture [OF assms refl]
  by (cases mode) (simp_all add: finishing_def finish_def wp_ret wp_bindE wp_gets wp_require)

lemma held_change:
  assumes "holding mode i f {} P w" "P i = Some d" "length (g d) = kPagePayloadSize"
  shows "wp (change_payload mode i f g) (\<lambda>old w'. old = d \<and> holding mode i f {i} (P(i \<mapsto> g d)) w') (\<lambda>_ _. True) w"
proof -
  have some: "P i \<noteq> None" using assms(2) by simp
  have rest: "wp (bindE (gets (payload_at f)) (\<lambda>d. bindE (on_pool (set_payload f (g d))) (\<lambda>_. bindE (finishing mode i f) (\<lambda>_. ret d))))
      (\<lambda>old w'. old = d \<and> holding mode i f {i} (P(i \<mapsto> g d)) w') (\<lambda>_ _. True) w1" if "holding mode i f {} P w1" for w1
  proof -
    have "payload_at f w1 = d" using holding_payload [OF that some] assms(2) by simp
    then show ?thesis
      using held_set_payload [OF that assms(2,3)] held_finishing [of mode i f "P(i \<mapsto> g d)"]
      by (simp add: wp_bindE wp_gets wp_funs) (auto elim!: wp_mono)
  qed
  show ?thesis
    unfolding change_payload_def wp_bindE [of "watching mode i"]
    unfolding watching_def
    using rest [OF assms(1)] by (cases "mode = NoMutations") (auto simp: wp_ret intro!: wp_mono [OF held_watch [OF assms(1) some]] rest)
qed

text \<open>The same followed by the unpinning, which returns true.\<close>

lemma change_then_unpin:
  assumes "holding mode i f {} P w" "P i = Some d" "length (g d) = kPagePayloadSize"
    and "\<And>w'. paged mode (P(i \<mapsto> g d)) w' \<Longrightarrow> wp (k d True) Q (\<lambda>_ _. True) w'"
  shows "wp (bindE (change_payload mode i f g) (\<lambda>old. bindE (on_pool (unpin_page i True)) (k old))) Q (\<lambda>_ _. True) w"
  unfolding wp_bindE
proof (rule wp_mono [OF held_change [where g = g, OF assms(1-3)]], goal_cases)
  case (1 old w1)
  then have h: "holding mode i f {i} (P(i \<mapsto> g d)) w1" "old = d" by simp_all
  show ?case by (rule wp_mono [OF unpin_held [OF h(1), of True]]) (use assms(4) h(2) in auto)
qed simp

section \<open>Allocating\<close>

lemma paged_allocate:
  assumes "paged mode P w" "wf_pm pm" "pm_pages pm = (pm_pages (bp_page_manager (cs_pool w)))(i \<mapsto> new_page i)"
    "i = pm_page_count (bp_page_manager (cs_pool w))"
    "cs_pool w' = (cs_pool w)\<lparr>bp_page_manager := pm, bp_wal_durability := d\<rparr>" "mode = InTransaction \<longrightarrow> tx_log_sink (w_tx w')"
  shows "P i = None \<and> is_valid i \<and> paged mode (P(i \<mapsto> replicate kPagePayloadSize 0)) w'"
proof -
  let ?bp = "cs_pool w"
  have s: "cache_ok {} ?bp" "payloads w = P" "residents {..<i} ?bp" using assms(1,4) by (simp_all add: paged_def bounded_def)
  have ne: "j < i" if "(j, f) \<in> set (bp_page_table ?bp)" for j f using resident_entry [OF s(3) that] by simp
  have nf: "find_frame i ?bp = None" using ne find_frame_entry [of i ?bp] by (cases "find_frame i ?bp") force+
  have "pm_pages (bp_page_manager ?bp) i = None" using assms(4) by (auto simp: pm_pages_def dest: is_page_allocated_count)
  then have none: "pool_view ?bp i = None" by (simp add: pool_view_def)
  have c: "cache_ok {} (?bp\<lparr>bp_page_manager := pm\<rparr>)"
    by (rule cache_ok_disk [OF s(1) assms(2)]) (auto simp: assms(3) dest: ne)
  have v: "pool_view (?bp\<lparr>bp_page_manager := pm\<rparr>) = (pool_view ?bp)(i \<mapsto> new_page i)" by (rule pool_view_disk [OF assms(3) nf])
  have count: "i < pm_page_count pm" using assms(3) dom_pm_pages [of pm] by (auto dest: is_page_allocated_count)
  have "bounded (?bp\<lparr>bp_page_manager := pm\<rparr>)" using s(3) count by (auto simp: bounded_def residents_def)
  moreover have "pool_view (cs_pool w') = (pool_view ?bp)(i \<mapsto> new_page i)" "cache_ok {} (cs_pool w')" "bounded (cs_pool w') = bounded (?bp\<lparr>bp_page_manager := pm\<rparr>)"
    using v c by (simp_all add: assms(5) bounded_def residents_def)
  moreover have "is_valid i" using assms(2,3) pm_pages_page [OF assms(2), of i] dom_pm_pages [of pm] by (auto simp: is_page_allocated_def)
  ultimately show ?thesis using assms(6) none by (auto simp: paged_def payloads_def fun_eq_iff new_page_def s(2) [symmetric])
qed

lemma allocate_transactional_pages:
  assumes "wf_pm pm"
  shows "wp (allocate_transactional_page tid) (\<lambda>i s. wf_pm (fst s) \<and> i = pm_page_count pm \<and>
     pm_pages (fst s) = (pm_pages pm)(i \<mapsto> new_page i)) (\<lambda>_ _. True) (pm, lm)"
  unfolding allocate_transactional_page_def on_pages_def on_log_def wp_bindE wp_zoom fst_conv snd_conv
proof (rule wp_mono [OF wp_conj [OF reserve_page_spec [OF assms(1)] wp_self]], goal_cases)
  case (1 i pm1)
  then have r: "reserve_page pm = (Inr i, pm1)" by simp
  note p = reserved_page [OF assms(1) r]
  have log: "wp m (\<lambda>_ lm1. wp wal_flush (\<lambda>_ lm2. wp (activate_reserved_page i) (\<lambda>_ pm2. wf_pm pm2 \<and> i = pm_page_count pm \<and>
      pm_pages pm2 = (pm_pages pm)(i \<mapsto> new_page i)) (\<lambda>_ _. True) pm1) (\<lambda>_ _. True) lm1) (\<lambda>_ _. True) lm" for m :: "(log_manager, uint64) op"
    by (intro wpI TrueI wp_mono [OF activate_reserved_page_spec [OF p(1), of i]]) (use p in auto)
  show ?case unfolding wp_zoom wp_bindE wp_ret fst_conv snd_conv using log by simp
qed simp

lemma allocate_in_paged:
  assumes "paged mode P w"
  shows "wp (allocate_in mode) (\<lambda>i w'. P i = None \<and> is_valid i \<and> paged mode (P(i \<mapsto> replicate kPagePayloadSize 0)) w') (\<lambda>_ _. True) w"
proof -
  let ?pm = "bp_page_manager (cs_pool w)"
  have wf: "wf_pm ?pm" using assms cache_okD(2) [of "{}" "cs_pool w"] by (simp add: paged_def pool_inv_def)
  show ?thesis
  proof (cases "mode = InTransaction")
    case False
    then have run: "wp (allocate_in mode) Q E w = wp allocate_page (\<lambda>i pm. Q i (w\<lparr>cs_pool := (cs_pool w)\<lparr>bp_page_manager := pm\<rparr>\<rparr>))
        (\<lambda>e pm. E e (w\<lparr>cs_pool := (cs_pool w)\<lparr>bp_page_manager := pm\<rparr>\<rparr>)) ?pm" for Q E
      by (simp add: allocate_in_def wp_on_pool on_disk_def wp_zoom)
    show ?thesis
      unfolding run
    proof (rule wp_mono [OF allocate_page_spec [OF wf]], goal_cases)
      case (1 i pm)
      then have pm: "wf_pm pm" "pm_pages pm = (pm_pages ?pm)(i \<mapsto> new_page i)" "i = pm_page_count ?pm" by simp_all
      show ?case by (rule paged_allocate [OF assms pm, where d = "bp_wal_durability (cs_pool w)"]) (use False in simp_all)
    qed simp
  next
    case True
    then have sink: "tx_log_sink (w_tx w)" using assms by (simp add: paged_def)
    have run: "wp (allocate_in mode) Q (\<lambda>_ _. True) w = wp (allocate_transactional_page (tx_id (w_tx w))) (\<lambda>i s. Q i
        ((with_log (snd s) (w\<lparr>cs_pool := (cs_pool w)\<lparr>bp_page_manager := fst s\<rparr>\<rparr>))\<lparr>w_tx := (w_tx w)\<lparr>tx_allocation_manager := True,
          tx_allocated_pages := tx_allocated_pages (w_tx w) @ [i]\<rparr>\<rparr>)) (\<lambda>_ _. True) (?pm, w_log w)" for Q
      using True sink
      by (simp add: allocate_in_def tx_allocate_page_def wp_bindE wp_gets on_storage_def wp_zoom wp_on_tx wp_ret split_def with_log_def)
    show ?thesis
      unfolding run
    proof (rule wp_mono [OF allocate_transactional_pages [OF wf]], goal_cases)
      case (1 i s)
      then have pm: "wf_pm (fst s)" "pm_pages (fst s) = (pm_pages ?pm)(i \<mapsto> new_page i)" "i = pm_page_count ?pm" by simp_all
      show ?case by (rule paged_allocate [OF assms pm, where d = "Some (lm_durable_lsn (snd s))"]) (use sink in \<open>simp_all add: with_log_def\<close>)
    qed simp
  qed
qed

end
