(* ===== verification/Tuple.thy ===== *)
theory Tuple
  imports Bytes
begin

text \<open>
  Values, schemas and tuples (\<^verbatim>\<open>src/include/ddb/execution/tuple.h\<close>) and the byte format of a tuple
  (\<^verbatim>\<open>TableHeap::serialize\<close> and \<^verbatim>\<open>TableHeap::deserialize\<close> of \<^verbatim>\<open>src/src/execution/table_heap.cpp\<close>).

  A 64-bit integer is a word read as signed; a double is its bit pattern in the IEEE 754 binary64 format, on which the
  comparison below is the one of the hardware; a string is its list of bytes, compared as unsigned characters.
\<close>

section \<open>Values\<close>

datatype ValueType = Int64 | Double | Boolean | String

datatype Value = IntV uint64 | DoubleV uint64 | BoolV bool | StringV "byte list"

record Column =
  col_name :: string
  col_type :: ValueType

type_synonym Schema = "Column list"
type_synonym Tuple = "Value list"

fun value_type :: "Value \<Rightarrow> ValueType" where
  "value_type (IntV _) = Int64"
| "value_type (DoubleV _) = Double"
| "value_type (BoolV _) = Boolean"
| "value_type (StringV _) = String"

definition validates :: "Schema \<Rightarrow> Value list \<Rightarrow> bool" where
  "validates s vs \<longleftrightarrow> length vs = length s \<and> (\<forall>i < length vs. value_type (vs ! i) = col_type (s ! i))"

subsection \<open>Comparison\<close>

definition double_magnitude :: "uint64 \<Rightarrow> uint64" where
  "double_magnitude x = take_bit 63 x"

definition is_nan :: "uint64 \<Rightarrow> bool" where
  "is_nan x \<longleftrightarrow> 0x7FF0000000000000 < double_magnitude x"

definition double_order :: "uint64 \<Rightarrow> int" where
  "double_order x = (if bit x 63 then - uint (double_magnitude x) else uint (double_magnitude x))"

definition double_less :: "uint64 \<Rightarrow> uint64 \<Rightarrow> bool" where
  "double_less x y \<longleftrightarrow> \<not> is_nan x \<and> \<not> is_nan y \<and> double_order x < double_order y"

definition double_equal :: "uint64 \<Rightarrow> uint64 \<Rightarrow> bool" where
  "double_equal x y \<longleftrightarrow> \<not> is_nan x \<and> \<not> is_nan y \<and> double_order x = double_order y"

fun string_less :: "byte list \<Rightarrow> byte list \<Rightarrow> bool" where
  "string_less xs [] = False"
| "string_less [] (y # ys) = True"
| "string_less (x # xs) (y # ys) = (x < y \<or> x = y \<and> string_less xs ys)"

definition three_way :: "('a \<Rightarrow> 'a \<Rightarrow> bool) \<Rightarrow> 'a \<Rightarrow> 'a \<Rightarrow> int" where
  "three_way lt x y = (if lt x y then - 1 else if lt y x then 1 else 0)"

fun compare_values :: "Value \<Rightarrow> Value \<Rightarrow> error + int" where
  "compare_values (IntV x) (IntV y) = Inr (three_way (\<lambda>x y. sint x < sint y) x y)"
| "compare_values (DoubleV x) (DoubleV y) = Inr (three_way double_less x y)"
| "compare_values (BoolV x) (BoolV y) = Inr (three_way (<) x y)"
| "compare_values (StringV x) (StringV y) = Inr (three_way string_less x y)"
| "compare_values _ _ = Inl (InvalidArgument Unlike_values)"

text \<open>\<^verbatim>\<open>operator==\<close> of \<^verbatim>\<open>std::variant\<close>.\<close>

fun value_equal :: "Value \<Rightarrow> Value \<Rightarrow> bool" where
  "value_equal (IntV x) (IntV y) = (x = y)"
| "value_equal (DoubleV x) (DoubleV y) = double_equal x y"
| "value_equal (BoolV x) (BoolV y) = (x = y)"
| "value_equal (StringV x) (StringV y) = (x = y)"
| "value_equal _ _ = False"

section \<open>The byte format\<close>

fun serialize_value :: "Value \<Rightarrow> byte list" where
  "serialize_value (IntV x) = put64 x"
| "serialize_value (DoubleV x) = put64 x"
| "serialize_value (BoolV b) = [if b then 1 else 0]"
| "serialize_value (StringV s) = put32 (of_nat (length s)) @ s"

definition serialize :: "Schema \<Rightarrow> Tuple \<Rightarrow> error + byte list" where
  "serialize s t = (if \<not> validates s t then Inl (InvalidArgument Tuple_schema_mismatch) else Inr (concat (map serialize_value t)))"

text \<open>\<open>d\<close> is what the pointer points to, \<open>n\<close> the length of the tuple and \<open>p\<close> the position.\<close>

fun deserialize_from :: "Schema \<Rightarrow> byte list \<Rightarrow> nat \<Rightarrow> nat \<Rightarrow> Tuple option" where
  "deserialize_from [] d n p = (if p = n then Some [] else None)"
| "deserialize_from (c # cs) d n p =
     (case col_type c of
        Int64 \<Rightarrow> if p + 8 > n then None
          else map_option (\<lambda>vs. IntV (get64 (drop p d)) # vs) (deserialize_from cs d n (p + 8))
      | Double \<Rightarrow> if p + 8 > n then None
          else map_option (\<lambda>vs. DoubleV (get64 (drop p d)) # vs) (deserialize_from cs d n (p + 8))
      | Boolean \<Rightarrow> if p + 1 > n then None
          else map_option (\<lambda>vs. BoolV (d ! p \<noteq> 0) # vs) (deserialize_from cs d n (p + 1))
      | String \<Rightarrow> if p + 4 > n then None
          else (let z = unat (get32 (drop p d)) in
            if p + 4 + z > n then None
            else map_option (\<lambda>vs. StringV (segment (p + 4) z d) # vs) (deserialize_from cs d n (p + 4 + z))))"

definition deserialize :: "Schema \<Rightarrow> byte list \<Rightarrow> nat \<Rightarrow> Tuple option" where
  "deserialize s d n = deserialize_from s d n 0"

section \<open>Round trip\<close>

lemma validates_Cons: "validates (c # cs) (v # vs) \<longleftrightarrow> value_type v = col_type c \<and> validates cs vs"
  by (auto simp: validates_def nth_Cons split: nat.splits)

lemma validates_Nil: "validates s [] \<longleftrightarrow> s = []"
  by (auto simp: validates_def)

lemma deserialize_serialized:
  assumes "validates s vs" "length (concat (map serialize_value vs)) < 2 ^ 32" "drop p d = concat (map serialize_value vs) @ rest"
    "n = p + length (concat (map serialize_value vs))"
  shows "deserialize_from s d n p = Some vs"
  using assms
proof (induction s arbitrary: vs p)
  case Nil
  then show ?case by (simp add: validates_def)
next
  case (Cons c cs)
  then obtain v ws where vs: "vs = v # ws" by (cases vs) (auto simp: validates_def)
  have v: "value_type v = col_type c" "validates cs ws" using Cons.prems(1) by (simp_all add: vs validates_Cons)
  let ?m = "length (serialize_value v)"
  have d: "drop p d = serialize_value v @ concat (map serialize_value ws) @ rest" using Cons.prems(3) by (simp add: vs)
  have d': "drop (p + ?m) d = concat (map serialize_value ws) @ rest"
    using arg_cong [OF d, of "drop ?m"] by (simp add: add.commute)
  have rec: "deserialize_from cs d n (p + ?m) = Some ws"
    by (rule Cons.IH [OF v(2) _ d']) (use Cons.prems(2,4) in \<open>simp_all add: vs\<close>)
  have len: "p + ?m \<le> n" using Cons.prems(4) by (simp add: vs)
  show ?case
  proof (cases v)
    case (IntV x)
    then show ?thesis using v(1) rec len d by (simp add: vs le64.get_put)
  next
    case (DoubleV x)
    then show ?thesis using v(1) rec len d by (simp add: vs le64.get_put)
  next
    case (BoolV b)
    then have "hd (drop p d) = (if b then 1 else 0)" "p < length d" using d by (simp, cases "p < length d") simp_all
    then have "d ! p = (if b then 1 else 0)" by (simp add: hd_drop_conv_nth)
    then show ?thesis using BoolV v(1) rec len by (simp add: vs)
  next
    case (StringV s)
    have "length s < 2 ^ 32" using Cons.prems(2) by (simp add: vs StringV)
    then have z: "unat (of_nat (length s) :: uint32) = length s" by (simp add: unat_of_nat take_bit_nat_eq_self)
    have "get32 (drop p d) = of_nat (length s)" using d by (simp add: StringV le32.get_put)
    moreover have "drop (p + 4) d = drop 4 (drop p d)" by (simp add: add.commute)
    then have "segment (p + 4) (length s) d = s" using d by (simp add: segment_def StringV)
    ultimately show ?thesis using StringV v(1) rec len z by (simp add: vs Let_def add.assoc)
  qed
qed

text \<open>A tuple is read back from any place its bytes have been copied to.\<close>

lemma deserialize_serialize:
  assumes "serialize s t = Inr bs" "length bs < 2 ^ 32" "segment p (length bs) d = bs"
  shows "deserialize s (drop p d) (length bs) = Some t"
proof -
  have v: "validates s t" "bs = concat (map serialize_value t)" using assms(1) by (auto simp: serialize_def split: if_splits)
  have "drop p d = bs @ drop (length bs) (drop p d)" using assms(3) unfolding segment_def by (metis append_take_drop_id)
  then show ?thesis
    unfolding deserialize_def using assms(2) v by (intro deserialize_serialized [where rest = "drop (length bs) (drop p d)"]) simp_all
qed

text \<open>What is read has the types of the schema.\<close>

lemma deserialize_from_validates: "deserialize_from s d n p = Some vs \<Longrightarrow> validates s vs"
proof (induction s arbitrary: vs p)
  case Nil
  then show ?case by (simp add: validates_def split: if_splits)
next
  case (Cons c cs)
  then show ?case
    by (cases "col_type c") (auto simp: validates_Cons Let_def split: if_splits)
qed

end
