(* ===== verification/TableHeap.thy ===== *)
theory TableHeap
  imports PageAccess Tuple
begin

text \<open>
  The table heap (\<^verbatim>\<open>src/src/execution/table_heap.cpp\<close>): rows of a table in slotted pages that form a chain, with the ends of the
  chain in a metadata page and, as a copy, in the object.

  The state of an operation that changes the object is the object together with the world; \<open>mode\<close> is the value of its two
  pointers during the call. The walks along the chain need not end, so they take a number of pages they may
  visit; the result \<open>None\<close> means that it was not enough.
\<close>

section \<open>Page format\<close>

definition kHeader :: nat where "kHeader = 24"
definition kSlot :: nat where "kSlot = 6"
definition kMetaMagic :: "byte list" where "kMetaMagic = [0x44, 0x44, 0x42, 0x54, 0x48, 0x34]"
definition kDataMagic :: "byte list" where "kDataMagic = [0x44, 0x44, 0x42, 0x44, 0x50, 0x34]"

definition has_magic :: "byte list \<Rightarrow> byte list \<Rightarrow> bool" where
  "has_magic d m \<longleftrightarrow> take 6 d = m"

definition meta_init :: "byte list \<Rightarrow> byte list" where
  "meta_init d = put64_at 16 kInvalidValue (put64_at 8 kInvalidValue (splice_at 0 kMetaMagic (replicate (length d) 0)))"

definition data_init :: "byte list \<Rightarrow> byte list" where
  "data_init d = put16_at 20 (of_nat kPagePayloadSize) (put16_at 18 (of_nat kHeader) (put16_at 16 0
     (put64_at 8 kInvalidValue (splice_at 0 kDataMagic (replicate (length d) 0)))))"

definition slot_pos :: "nat \<Rightarrow> nat" where
  "slot_pos k = kHeader + k * kSlot"

definition slot_offset :: "byte list \<Rightarrow> nat \<Rightarrow> uint16" where
  "slot_offset d k = get16_at (slot_pos k) d"

definition slot_length :: "byte list \<Rightarrow> nat \<Rightarrow> uint16" where
  "slot_length d k = get16_at (slot_pos k + 2) d"

definition slot_live :: "byte list \<Rightarrow> nat \<Rightarrow> bool" where
  "slot_live d k \<longleftrightarrow> get16_at (slot_pos k + 4) d \<noteq> 0"

text \<open>The difference of two 16-bit values is an \<^verbatim>\<open>int\<close>, which is converted to 64 bits for the comparison.\<close>

definition free_space :: "byte list \<Rightarrow> uint64" where
  "free_space d = ucast (get16_at 20 d) - ucast (get16_at 18 d)"

definition put_tuple :: "byte list \<Rightarrow> byte list \<Rightarrow> byte list" where
  "put_tuple bytes d =
     (let slots = get16_at 16 d; start = get16_at 18 d; end' = get16_at 20 d - of_nat (length bytes); sp = slot_pos (unat slots) in
      put16_at 20 end' (put16_at 18 (start + of_nat kSlot) (put16_at 16 (slots + 1)
        (put16_at (sp + 4) 1 (put16_at (sp + 2) (of_nat (length bytes)) (put16_at sp end'
          (splice_at (unat end') bytes d)))))))"

section \<open>Operations\<close>

record table_heap =
  th_meta :: PageId
  th_schema :: Schema
  th_first :: PageId
  th_last :: PageId

definition release :: "PageId \<Rightarrow> bool \<Rightarrow> (world, unit) op" where
  "release i dirty = bindE (on_pool (unpin_page i dirty)) (\<lambda>unpinned. require unpinned (RuntimeError Unpin_failed))"

definition create_table :: "mutation_mode \<Rightarrow> Schema \<Rightarrow> (world, PageId) op" where
  "create_table mode s =
     bindE (require (s \<noteq> []) (InvalidArgument Empty_schema)) (\<lambda>_.
     bindE (allocate_in mode) (\<lambda>i.
     bindE (on_pool (fetch_page i)) (\<lambda>r.
     case r of
       None \<Rightarrow> throw (RuntimeError Cannot_pin_table_metadata)
     | Some f \<Rightarrow>
         bindE (entering mode) (\<lambda>_.
         bindE (change_payload mode i f meta_init) (\<lambda>_.
         bindE (release i True) (\<lambda>_.
         ret i))))))"

definition open_table :: "PageId \<Rightarrow> Schema \<Rightarrow> (world, table_heap) op" where
  "open_table m s =
     bindE (on_pool (fetch_page m)) (\<lambda>r.
     case r of
       None \<Rightarrow> throw (RuntimeError Invalid_table_metadata)
     | Some f \<Rightarrow>
         bindE (gets (payload_at f)) (\<lambda>d.
         if \<not> has_magic d kMetaMagic then
           bindE (release m False) (\<lambda>_. throw (RuntimeError Invalid_table_metadata))
         else
           bindE (release m False) (\<lambda>_.
           ret \<lparr>th_meta = m, th_schema = s, th_first = get64_at 8 d, th_last = get64_at 16 d\<rparr>)))"

definition write_metadata :: "mutation_mode \<Rightarrow> table_heap \<Rightarrow> (world, unit) op" where
  "write_metadata mode th =
     bindE (on_pool (fetch_page (th_meta th))) (\<lambda>r.
     case r of
       None \<Rightarrow> throw (RuntimeError Cannot_pin_table_metadata)
     | Some f \<Rightarrow>
         bindE (change_payload mode (th_meta th) f (\<lambda>d. put64_at 16 (th_last th) (put64_at 8 (th_first th) d))) (\<lambda>_.
         release (th_meta th) True))"

text \<open>The last page of the chain if it has room for a row, and otherwise a new page at the end of the chain.\<close>

definition tail_page :: "table_heap \<Rightarrow> nat \<Rightarrow> (world, (PageId \<times> FrameId) option) op" where
  "tail_page th n =
     (if \<not> is_valid (th_last th) then ret None
      else
        bindE (on_pool (fetch_page (th_last th))) (\<lambda>r.
        case r of
          None \<Rightarrow> ret None
        | Some f \<Rightarrow>
            bindE (gets (payload_at f)) (\<lambda>d.
            if unat (free_space d) < n + kSlot then
              bindE (release (th_last th) False) (\<lambda>_. ret None)
            else ret (Some (th_last th, f)))))"

definition upd_table :: "(table_heap \<Rightarrow> table_heap) \<Rightarrow> (table_heap \<times> world, unit) op" where
  "upd_table g = modify (\<lambda>s. (g (fst s), snd s))"

definition start_page :: "mutation_mode \<Rightarrow> (world, PageId) op" where
  "start_page mode =
     bindE (allocate_in mode) (\<lambda>i.
     bindE (on_pool (fetch_page i)) (\<lambda>r.
     case r of
       None \<Rightarrow> throw (RuntimeError Cannot_pin_new_data_page)
     | Some f \<Rightarrow>
         bindE (change_payload mode i f data_init) (\<lambda>_.
         bindE (release i True) (\<lambda>_.
         ret i))))"

definition link_page :: "mutation_mode \<Rightarrow> PageId \<Rightarrow> PageId \<Rightarrow> (world, unit) op" where
  "link_page mode prev i =
     bindE (on_pool (fetch_page prev)) (\<lambda>r.
     case r of
       None \<Rightarrow> throw (RuntimeError Cannot_pin_previous_data_page)
     | Some f \<Rightarrow>
         bindE (change_payload mode prev f (put64_at 8 i)) (\<lambda>_.
         release prev True))"

definition append_page :: "mutation_mode \<Rightarrow> (table_heap \<times> world, PageId \<times> FrameId) op" where
  "append_page mode =
     bindE (in_world (start_page mode)) (\<lambda>i.
     bindE (gets fst) (\<lambda>th.
     bindE (if is_valid (th_last th) then in_world (link_page mode (th_last th) i)
            else upd_table (\<lambda>th. th\<lparr>th_first := i\<rparr>)) (\<lambda>_.
     bindE (upd_table (\<lambda>th. th\<lparr>th_last := i\<rparr>)) (\<lambda>_.
     bindE (gets fst) (\<lambda>th.
     bindE (in_world (write_metadata mode th)) (\<lambda>_.
     bindE (in_world (on_pool (fetch_page i))) (\<lambda>r.
     case r of
       None \<Rightarrow> throw (RuntimeError Cannot_repin_new_data_page)
     | Some f \<Rightarrow> ret (i, f))))))))"

definition insert_impl :: "mutation_mode \<Rightarrow> Tuple \<Rightarrow> (table_heap \<times> world, RecordId option) op" where
  "insert_impl mode t =
     bindE (gets fst) (\<lambda>th.
     bindE (lift_result (serialize (th_schema th) t)) (\<lambda>bytes.
     if length bytes + kHeader + kSlot > kPagePayloadSize then ret None
     else
       bindE (in_world (tail_page th (length bytes))) (\<lambda>r.
       bindE (case r of None \<Rightarrow> append_page mode | Some x \<Rightarrow> ret x) (\<lambda>(i, f).
       in_world
         (bindE (change_payload mode i f (put_tuple bytes)) (\<lambda>d.
          bindE (release i True) (\<lambda>_.
          ret (Some \<lparr>rid_page = i, rid_slot = ucast (get16_at 16 d)\<rparr>))))))))"

text \<open>Inside a transaction the mutation context is obtained before anything else.\<close>

definition insert_tuple :: "mutation_mode \<Rightarrow> Tuple \<Rightarrow> (table_heap \<times> world, RecordId option) op" where
  "insert_tuple mode t =
     bindE (in_world (entering mode)) (\<lambda>_.
     insert_impl mode t)"

definition get_tuple :: "table_heap \<Rightarrow> RecordId \<Rightarrow> (world, Tuple option) op" where
  "get_tuple th r =
     (if \<not> is_valid (rid_page r) then ret None
      else
        bindE (on_pool (fetch_page (rid_page r))) (\<lambda>p.
        case p of
          None \<Rightarrow> ret None
        | Some f \<Rightarrow>
            bindE (gets (payload_at f)) (\<lambda>d.
            let k = unat (rid_slot r) in
            if \<not> has_magic d kDataMagic \<or> k \<ge> unat (get16_at 16 d) then
              bindE (release (rid_page r) False) (\<lambda>_. ret None)
            else if \<not> slot_live d k \<or> unat (slot_offset d k) + unat (slot_length d k) > kPagePayloadSize then
              bindE (release (rid_page r) False) (\<lambda>_. ret None)
            else
              (let out = deserialize (th_schema th) (drop (unat (slot_offset d k)) d) (unat (slot_length d k)) in
               bindE (release (rid_page r) False) (\<lambda>_. ret out)))))"

definition erase_impl :: "mutation_mode \<Rightarrow> RecordId \<Rightarrow> (world, bool) op" where
  "erase_impl mode r =
     bindE (on_pool (fetch_page (rid_page r))) (\<lambda>p.
     case p of
       None \<Rightarrow> ret False
     | Some f \<Rightarrow>
         bindE (gets (payload_at f)) (\<lambda>d.
         let k = unat (rid_slot r) in
         if \<not> has_magic d kDataMagic \<or> k \<ge> unat (get16_at 16 d) then
           bindE (release (rid_page r) False) (\<lambda>_. ret False)
         else if \<not> slot_live d k then
           bindE (release (rid_page r) False) (\<lambda>_. ret False)
         else
           bindE (change_payload mode (rid_page r) f (put16_at (slot_pos k + 4) 0)) (\<lambda>_.
           bindE (release (rid_page r) True) (\<lambda>_.
           ret True))))"

definition erase_tuple :: "mutation_mode \<Rightarrow> RecordId \<Rightarrow> (world, bool) op" where
  "erase_tuple mode r =
     bindE (entering mode) (\<lambda>_.
     erase_impl mode r)"

text \<open>The rows of the slots \<open>k\<close>, \<open>k + 1\<close>, ... of a page; \<open>None\<close> if a live row cannot be read.\<close>

fun scan_slots :: "Schema \<Rightarrow> PageId \<Rightarrow> byte list \<Rightarrow> nat list \<Rightarrow> (RecordId \<times> Tuple) list option" where
  "scan_slots s i d [] = Some []"
| "scan_slots s i d (k # ks) =
     (if slot_live d k then
        (case deserialize s (drop (unat (slot_offset d k)) d) (unat (slot_length d k)) of
           None \<Rightarrow> None
         | Some t \<Rightarrow> map_option (\<lambda>rows. (\<lparr>rid_page = i, rid_slot = of_nat k\<rparr>, t) # rows) (scan_slots s i d ks))
      else scan_slots s i d ks)"

fun scan_pages :: "Schema \<Rightarrow> nat \<Rightarrow> PageId \<Rightarrow> (world, (RecordId \<times> Tuple) list option) op" where
  "scan_pages s fuel i =
     (if \<not> is_valid i then ret (Some [])
      else case fuel of
        0 \<Rightarrow> ret None
      | Suc fuel' \<Rightarrow>
          bindE (on_pool (fetch_page i)) (\<lambda>r.
          case r of
            None \<Rightarrow> throw (RuntimeError Cannot_pin_data_page)
          | Some f \<Rightarrow>
              bindE (gets (payload_at f)) (\<lambda>d.
              if \<not> has_magic d kDataMagic then
                bindE (release i False) (\<lambda>_. throw (RuntimeError Invalid_data_page))
              else
                (case scan_slots s i d [0..<unat (get16_at 16 d)] of
                   None \<Rightarrow> bindE (release i False) (\<lambda>_. throw (RuntimeError Corrupt_tuple))
                 | Some rows \<Rightarrow>
                     bindE (release i False) (\<lambda>_.
                     bindE (scan_pages s fuel' (get64_at 8 d)) (\<lambda>rest.
                     ret (map_option (\<lambda>rs. rows @ rs) rest)))))))"

definition scan_table :: "nat \<Rightarrow> table_heap \<Rightarrow> (world, (RecordId \<times> Tuple) list option) op" where
  "scan_table fuel th = scan_pages (th_schema th) fuel (th_first th)"

definition page_valid :: "Schema \<Rightarrow> byte list \<Rightarrow> bool" where
  "page_valid s d \<longleftrightarrow>
     (let slots = unat (get16_at 16 d); start = unat (get16_at 18 d); end' = unat (get16_at 20 d) in
      start = kHeader + slots * kSlot \<and> end' \<le> kPagePayloadSize \<and> start \<le> end' \<and>
      (\<forall>k < slots. slot_live d k \<longrightarrow>
         unat (slot_offset d k) \<ge> end' \<and> unat (slot_offset d k) + unat (slot_length d k) \<le> kPagePayloadSize \<and>
         deserialize s (drop (unat (slot_offset d k)) d) (unat (slot_length d k)) \<noteq> None))"

fun validate_pages :: "Schema \<Rightarrow> nat \<Rightarrow> PageId \<Rightarrow> (world, bool option) op" where
  "validate_pages s fuel i =
     (if \<not> is_valid i then ret (Some True)
      else case fuel of
        0 \<Rightarrow> ret None
      | Suc fuel' \<Rightarrow>
          bindE (on_pool (fetch_page i)) (\<lambda>r.
          case r of
            None \<Rightarrow> ret (Some False)
          | Some f \<Rightarrow>
              bindE (gets (payload_at f)) (\<lambda>d.
              bindE (release i False) (\<lambda>_.
              if \<not> has_magic d kDataMagic \<or> \<not> page_valid s d then ret (Some False)
              else validate_pages s fuel' (get64_at 8 d)))))"

text \<open>Any exception makes the answer false.\<close>

definition validate_table :: "nat \<Rightarrow> table_heap \<Rightarrow> (world, bool option) op" where
  "validate_table fuel th = (\<lambda>w. case validate_pages (th_schema th) fuel (th_first th) w of
     (Inl e, w') \<Rightarrow> (Inr (Some False), w') | (Inr b, w') \<Rightarrow> (Inr b, w'))"

definition flush_table :: "(world, unit) op" where
  "flush_table = on_pool flush_all_pages"

end
