(* ===== verification/PageFields.thy ===== *)
theory PageFields
  imports Bytes
begin

text \<open>
  Fields of a page payload: reading a field after a write of the same or of another field. The rules rewrite every write into
  a copy of bytes and decide by arithmetic whether it touches the field that is read.
\<close>

named_theorems page_fields \<open>reading fields of a payload after writes\<close>

lemma length_put_at [simp]:
  "length (put16_at p v d) = length d" "length (put32_at p v' d) = length d" "length (put64_at p v'' d) = length d"
proof -
  have f: "length (fold (\<lambda>i d. d[p + i := g i]) is d) = length d" for g "is" and d :: "byte list"
    by (induction "is" arbitrary: d) simp_all
  show "length (put16_at p v d) = length d" "length (put32_at p v' d) = length d" "length (put64_at p v'' d) = length d"
    by (simp_all add: put16_at_def put32_at_def put64_at_def f)
qed

lemma get_at_splice_same [page_fields]:
  "p + 2 \<le> length d \<Longrightarrow> get16_at p (splice_at p (put16 v) d) = v"
  "p + 4 \<le> length d \<Longrightarrow> get32_at p (splice_at p (put32 v') d) = v'"
  "p + 8 \<le> length d \<Longrightarrow> get64_at p (splice_at p (put64 v'') d) = v''"
  by (simp_all add: get16_at_def get32_at_def get64_at_def le16.get_splice_same le32.get_splice_same le64.get_splice_same)

lemma get_at_splice_other [page_fields]:
  "p + length ys \<le> length d \<Longrightarrow> q + 2 \<le> length d \<Longrightarrow> q + 2 \<le> p \<or> p + length ys \<le> q \<Longrightarrow> get16_at q (splice_at p ys d) = get16_at q d"
  "p + length ys \<le> length d \<Longrightarrow> q + 4 \<le> length d \<Longrightarrow> q + 4 \<le> p \<or> p + length ys \<le> q \<Longrightarrow> get32_at q (splice_at p ys d) = get32_at q d"
  "p + length ys \<le> length d \<Longrightarrow> q + 8 \<le> length d \<Longrightarrow> q + 8 \<le> p \<or> p + length ys \<le> q \<Longrightarrow> get64_at q (splice_at p ys d) = get64_at q d"
  by (simp_all add: get16_at_def get32_at_def get64_at_def le16.get_splice_other le32.get_splice_other le64.get_splice_other)

lemmas put_at_splice [page_fields] = put16_at_splice put32_at_splice put64_at_splice

lemma take_splice_other [page_fields]: "n \<le> p \<Longrightarrow> p + length ys \<le> length d \<Longrightarrow> take n (splice_at p ys d) = take n d"
  by (simp add: splice_at_def min_def)

lemma take_splice_same [page_fields]: "length ys = n \<Longrightarrow> take n (splice_at 0 ys d) = ys"
  by (simp add: splice_at_def)

declare segment_splice_other [page_fields]

lemma segment_eq_mono: "segment p n d = segment p n d' \<Longrightarrow> p \<le> q \<Longrightarrow> q + m \<le> p + n \<Longrightarrow> segment q m d = segment q m d'"
  using segment_segment [of "q - p" m n p d] segment_segment [of "q - p" m n p d'] by simp

text \<open>A field depends only on the bytes it covers.\<close>

lemma get_at_segment:
  "q + 2 \<le> length d \<Longrightarrow> length d' = length d \<Longrightarrow> segment q 2 d = segment q 2 d' \<Longrightarrow> get16_at q d = get16_at q d'"
  "q + 4 \<le> length d \<Longrightarrow> length d' = length d \<Longrightarrow> segment q 4 d = segment q 4 d' \<Longrightarrow> get32_at q d = get32_at q d'"
  "q + 8 \<le> length d \<Longrightarrow> length d' = length d \<Longrightarrow> segment q 8 d = segment q 8 d' \<Longrightarrow> get64_at q d = get64_at q d'"
  by (simp_all add: get16_at_def get32_at_def get64_at_def le16.get_segment le32.get_segment le64.get_segment)

end
