(* ===== verification/TablePages.thy ===== *)
theory TablePages
  imports TableHeap PageFields
begin

text \<open>
  Data pages of a table as lists of rows: what the writes of the table heap do to the rows of a page.
\<close>

declare scan_pages.simps [simp del] validate_pages.simps [simp del]

section \<open>Rows of a page\<close>

definition row_at :: "Schema \<Rightarrow> byte list \<Rightarrow> nat \<Rightarrow> Tuple option" where
  "row_at s d k = deserialize s (drop (unat (slot_offset d k)) d) (unat (slot_length d k))"

definition page_rows :: "Schema \<Rightarrow> PageId \<Rightarrow> byte list \<Rightarrow> (RecordId \<times> Tuple) list" where
  "page_rows s i d = map (\<lambda>k. (\<lparr>rid_page = i, rid_slot = of_nat k\<rparr>, the (row_at s d k))) (filter (slot_live d) [0..<unat (get16_at 16 d)])"

definition data_page :: "Schema \<Rightarrow> byte list \<Rightarrow> bool" where
  "data_page s d \<longleftrightarrow> length d = kPagePayloadSize \<and> has_magic d kDataMagic \<and> page_valid s d"

lemma data_pageD:
  assumes "data_page s d"
  shows "length d = kPagePayloadSize" "has_magic d kDataMagic" "unat (get16_at 18 d) = kHeader + unat (get16_at 16 d) * kSlot"
    "unat (get16_at 20 d) \<le> kPagePayloadSize" "unat (get16_at 18 d) \<le> unat (get16_at 20 d)"
    "k < unat (get16_at 16 d) \<Longrightarrow> slot_live d k \<Longrightarrow> unat (get16_at 20 d) \<le> unat (slot_offset d k)"
    "k < unat (get16_at 16 d) \<Longrightarrow> slot_live d k \<Longrightarrow> unat (slot_offset d k) + unat (slot_length d k) \<le> kPagePayloadSize"
    "k < unat (get16_at 16 d) \<Longrightarrow> slot_live d k \<Longrightarrow> row_at s d k \<noteq> None"
  using assms by (auto simp: data_page_def page_valid_def Let_def row_at_def)

lemma scan_slots_rows:
  assumes "\<And>k. k \<in> set ks \<Longrightarrow> slot_live d k \<Longrightarrow> row_at s d k \<noteq> None"
  shows "scan_slots s i d ks = Some (map (\<lambda>k. (\<lparr>rid_page = i, rid_slot = of_nat k\<rparr>, the (row_at s d k))) (filter (slot_live d) ks))"
  using assms
proof (induction ks)
  case (Cons a ks)
  have a: "slot_live d a \<Longrightarrow> \<exists>t. row_at s d a = Some t" using Cons.prems [of a] by auto
  have "scan_slots s i d ks = Some (map (\<lambda>k. (\<lparr>rid_page = i, rid_slot = of_nat k\<rparr>, the (row_at s d k))) (filter (slot_live d) ks))"
    by (rule Cons.IH) (use Cons.prems in auto)
  with a show ?case by (auto simp: row_at_def)
qed simp

lemma scan_slots_page: "data_page s d \<Longrightarrow> scan_slots s i d [0..<unat (get16_at 16 d)] = Some (page_rows s i d)"
  unfolding page_rows_def by (rule scan_slots_rows) (auto dest: data_pageD(8))

text \<open>A row depends only on its bytes.\<close>

lemma deserialize_from_cong:
  assumes "take n d = take n d'" "n \<le> length d" "n \<le> length d'" "p \<le> n"
  shows "deserialize_from s d n p = deserialize_from s d' n p"
  using assms(4)
proof (induction s arbitrary: p)
  case (Cons c cs)
  have seg: "segment p m d = segment p m d'" if "p + m \<le> n" for p m
    using arg_cong [OF assms(1), of "\<lambda>xs. take m (drop p xs)"] that by (simp add: segment_def drop_take min_absorb1)
  have g8: "get64 (drop p d) = get64 (drop p d')" if "p + 8 \<le> n" using that seg assms(2,3) by (simp add: le64.get_segment)
  have g4: "get32 (drop p d) = get32 (drop p d')" if "p + 4 \<le> n" using that seg assms(2,3) by (simp add: le32.get_segment)
  have g1: "d ! p = d' ! p" if "p + 1 \<le> n" using that assms(1) by (metis Suc_eq_plus1 Suc_le_lessD nth_take)
  show ?case using Cons.IH g8 g4 g1 seg by (auto simp: Let_def split: ValueType.split)
qed simp

lemma deserialize_segment:
  assumes "segment o' n d = segment o' n d'" "o' + n \<le> length d" "length d' = length d"
  shows "deserialize s (drop o' d) n = deserialize s (drop o' d') n"
  unfolding deserialize_def using assms by (intro deserialize_from_cong) (simp_all add: segment_def)

lemma row_at_cong:
  assumes "slot_offset d' k = slot_offset d k" "slot_length d' k = slot_length d k" "length d' = length d"
    "unat (slot_offset d k) + unat (slot_length d k) \<le> length d"
    "segment (unat (slot_offset d k)) (unat (slot_length d k)) d = segment (unat (slot_offset d k)) (unat (slot_length d k)) d'"
  shows "row_at s d' k = row_at s d k"
  unfolding row_at_def using deserialize_segment [OF assms(5,4,3), of s] assms(1,2) by simp

section \<open>Writing a row\<close>

lemmas table_sizes = kHeader_def kSlot_def size_defs

lemma unat_sub_of_nat: "n \<le> unat x \<Longrightarrow> unat (x - of_nat n) = unat x - n" for x :: "'a::len word"
proof -
  assume n: "n \<le> unat x"
  then have "unat (of_nat n :: 'a word) = n" by (rule le_unat_uoi)
  then show ?thesis using n unat_sub [of "of_nat n" x] by (simp add: word_le_nat_alt)
qed

lemma put_tuple_fields:
  fixes bs d
  defines "d' \<equiv> put_tuple bs d" and "n \<equiv> unat (get16_at 16 d)" and "e \<equiv> unat (get16_at 20 d)"
  assumes "data_page s d" "n * kSlot + kHeader + length bs + kSlot \<le> e"
  shows "length d' = kPagePayloadSize" "take 6 d' = take 6 d" "get64_at 8 d' = get64_at 8 d" "unat (get16_at 16 d') = n + 1"
    "unat (get16_at 18 d') = kHeader + (n + 1) * kSlot" "unat (get16_at 20 d') = e - length bs"
    "k < n \<Longrightarrow> slot_offset d' k = slot_offset d k" "k < n \<Longrightarrow> slot_length d' k = slot_length d k" "k < n \<Longrightarrow> slot_live d' k = slot_live d k"
    "unat (slot_offset d' n) = e - length bs" "unat (slot_length d' n) = length bs" "slot_live d' n" "segment (e - length bs) (length bs) d' = bs"
    "e \<le> p \<Longrightarrow> segment p m d' = segment p m d"
proof -
  note dp = data_pageD [OF assms(4)]
  have len: "length d = 4064" and e: "e \<le> 4064" and fit: "6 * n + 24 + length bs + 6 \<le> e"
    using dp(1,4) assms(5) by (simp_all add: e_def table_sizes)
  define v where "v = get16_at 20 d - of_nat (length bs)"
  have v: "unat v = e - length bs" unfolding v_def e_def using fit by (intro unat_sub_of_nat) (simp add: e_def)
  have bound: "28 + 6 * n + 2 \<le> e - length bs" using fit by linarith
  note ar = len e fit bound
  have d': "d' = splice_at 20 (put16 v) (splice_at 18 (put16 (get16_at 18 d + 6)) (splice_at 16 (put16 (get16_at 16 d + 1))
      (splice_at (28 + 6 * n) (put16 1) (splice_at (26 + 6 * n) (put16 (of_nat (length bs))) (splice_at (24 + 6 * n) (put16 v) (splice_at (e - length bs) bs d))))))"
    unfolding d'_def put_tuple_def Let_def v_def [symmetric] v
    using ar by (simp add: slot_pos_def n_def [symmetric] table_sizes algebra_simps put16_at_splice)
  have pos: "slot_pos k = 24 + 6 * k" for k by (simp add: slot_pos_def table_sizes)
  show "length d' = kPagePayloadSize" using ar by (simp add: d' table_sizes)
  show "take 6 d' = take 6 d" "get64_at 8 d' = get64_at 8 d" using ar by (simp_all add: d' page_fields)
  have small: "n < 1000" using ar by linarith
  show "unat (get16_at 16 d') = n + 1"
    using ar small by (simp add: d' page_fields n_def unat_word_ariths)
  show "unat (get16_at 18 d') = kHeader + (n + 1) * kSlot"
    using ar small dp(3) by (simp add: d' page_fields n_def unat_word_ariths table_sizes)
  show "unat (get16_at 20 d') = e - length bs" using ar v by (simp add: d' page_fields)
  show "k < n \<Longrightarrow> slot_offset d' k = slot_offset d k" "k < n \<Longrightarrow> slot_length d' k = slot_length d k" "k < n \<Longrightarrow> slot_live d' k = slot_live d k"
    using ar by (simp_all add: d' page_fields slot_offset_def slot_length_def slot_live_def pos)
  show "unat (slot_offset d' n) = e - length bs" using ar v by (simp add: d' page_fields slot_offset_def pos)
  show "unat (slot_length d' n) = length bs"
    using ar by (simp add: d' page_fields slot_length_def pos unat_of_nat take_bit_nat_eq_self)
  show "slot_live d' n" using ar by (simp add: d' page_fields slot_live_def pos)
  show "segment (e - length bs) (length bs) d' = bs" using ar by (simp add: d' page_fields)
  show "e \<le> p \<Longrightarrow> segment p m d' = segment p m d" using ar by (simp add: d' page_fields)
qed

lemma data_pageI:
  assumes "length d = kPagePayloadSize" "has_magic d kDataMagic" "unat (get16_at 18 d) = kHeader + unat (get16_at 16 d) * kSlot"
    "unat (get16_at 20 d) \<le> kPagePayloadSize" "unat (get16_at 18 d) \<le> unat (get16_at 20 d)"
    "\<And>k. k < unat (get16_at 16 d) \<Longrightarrow> slot_live d k \<Longrightarrow> unat (get16_at 20 d) \<le> unat (slot_offset d k) \<and>
       unat (slot_offset d k) + unat (slot_length d k) \<le> kPagePayloadSize \<and> row_at s d k \<noteq> None"
  shows "data_page s d"
  using assms by (auto simp: data_page_def page_valid_def Let_def row_at_def)

text \<open>A page whose slots and rows are those of another page.\<close>

lemma same_rows:
  assumes "data_page s d" "length d' = kPagePayloadSize" "unat (get16_at 20 d') \<le> unat (get16_at 20 d)"
    "k < unat (get16_at 16 d)" "slot_live d k"
    "slot_offset d' k = slot_offset d k" "slot_length d' k = slot_length d k"
    "\<And>p m. unat (get16_at 20 d) \<le> p \<Longrightarrow> segment p m d' = segment p m d"
  shows "row_at s d' k = row_at s d k" "unat (get16_at 20 d') \<le> unat (slot_offset d' k)"
    "unat (slot_offset d' k) + unat (slot_length d' k) \<le> kPagePayloadSize" "row_at s d' k \<noteq> None"
proof -
  note dp = data_pageD [OF assms(1)]
  note k = dp(6) [OF assms(4,5)] dp(7) [OF assms(4,5)] dp(8) [OF assms(4,5)]
  show eq: "row_at s d' k = row_at s d k"
    by (rule row_at_cong) (use assms(2,6,7) k(1,2) dp(1) assms(8) in simp_all)
  show "unat (get16_at 20 d') \<le> unat (slot_offset d' k)" "unat (slot_offset d' k) + unat (slot_length d' k) \<le> kPagePayloadSize" "row_at s d' k \<noteq> None"
    using k assms(3,6,7) eq by simp_all
qed

lemma unat_ucast64: "unat (ucast x :: uint64) = unat x" for x :: uint16
  by transfer (simp add: take_bit_int_eq_self_iff min_def)

lemma put_tuple_page:
  assumes "data_page s d" "serialize s t = Inr bs" "length bs + kSlot \<le> unat (free_space d)"
  shows "data_page s (put_tuple bs d)" "get64_at 8 (put_tuple bs d) = get64_at 8 d"
    "page_rows s i (put_tuple bs d) = page_rows s i d @ [(\<lparr>rid_page = i, rid_slot = ucast (get16_at 16 d)\<rparr>, t)]"
proof -
  let ?d' = "put_tuple bs d" and ?n = "unat (get16_at 16 d)" and ?e = "unat (get16_at 20 d)"
  note dp = data_pageD [OF assms(1)]
  have "unat (free_space d) = ?e - unat (get16_at 18 d)"
    using dp(5) unfolding free_space_def by (subst unat_sub) (simp_all add: word_le_nat_alt unat_ucast64)
  then have fit: "?n * kSlot + kHeader + length bs + kSlot \<le> ?e" using assms(3) dp(3,5) by (simp add: table_sizes)
  note f = put_tuple_fields [OF assms(1) fit]
  have old: "k < ?n \<Longrightarrow> slot_live d k \<Longrightarrow> row_at s ?d' k = row_at s d k \<and> unat (get16_at 20 ?d') \<le> unat (slot_offset ?d' k) \<and>
     unat (slot_offset ?d' k) + unat (slot_length ?d' k) \<le> kPagePayloadSize \<and> row_at s ?d' k \<noteq> None" for k
    using same_rows [OF assms(1) f(1) _ _ _ f(7) f(8) f(14)] f(6) by simp
  have "length bs < 2 ^ 32" using fit dp(4) by (simp add: table_sizes)
  then have new: "row_at s ?d' ?n = Some t"
    unfolding row_at_def f(10,11) using deserialize_serialize [OF assms(2) _ f(13)] by simp
  show "data_page s ?d'"
  proof (rule data_pageI)
    show "unat (get16_at 18 ?d') \<le> unat (get16_at 20 ?d')" using fit by (simp add: f(5,6) table_sizes)
    fix k assume "k < unat (get16_at 16 ?d')" "slot_live ?d' k"
    then consider "k = ?n" | "k < ?n" "slot_live d k" using f(4) f(9) [of k] by (cases "k = ?n") auto
    then show "unat (get16_at 20 ?d') \<le> unat (slot_offset ?d' k) \<and> unat (slot_offset ?d' k) + unat (slot_length ?d' k) \<le> kPagePayloadSize \<and> row_at s ?d' k \<noteq> None"
    proof cases
      case 1
      then show ?thesis using f(6,10,11) new dp(4) fit by simp
    next
      case 2
      with old show ?thesis by blast
    qed
  qed (use f(1,2,4,5,6) dp(2,4) in \<open>simp_all add: has_magic_def\<close>)
  show "get64_at 8 ?d' = get64_at 8 d" by (rule f(3))
  have "of_nat ?n = (ucast (get16_at 16 d) :: uint32)" by simp
  moreover have "filter (slot_live ?d') [0..<?n] = filter (slot_live d) [0..<?n]" using f(9) by (intro filter_cong) auto
  ultimately show "page_rows s i ?d' = page_rows s i d @ [(\<lparr>rid_page = i, rid_slot = ucast (get16_at 16 d)\<rparr>, t)]"
    unfolding page_rows_def f(4) using f(12) old new by auto
qed

section \<open>Erasing a row, linking a page, a fresh page\<close>

lemma field_write_page:
  assumes "data_page s d" "d' = splice_at p ys d" "p + length ys \<le> unat (get16_at 18 d)" "8 \<le> p"
    "p + length ys \<le> 16 \<or> (p = slot_pos j + 4 \<and> length ys = 2 \<and> j < unat (get16_at 16 d))"
  shows "length d' = kPagePayloadSize" "take 6 d' = take 6 d" "get16_at 16 d' = get16_at 16 d" "get16_at 18 d' = get16_at 18 d"
    "get16_at 20 d' = get16_at 20 d" "k < unat (get16_at 16 d) \<Longrightarrow> slot_offset d' k = slot_offset d k"
    "k < unat (get16_at 16 d) \<Longrightarrow> slot_length d' k = slot_length d k"
    "k < unat (get16_at 16 d) \<Longrightarrow> p + length ys \<le> 16 \<or> k \<noteq> j \<Longrightarrow> slot_live d' k = slot_live d k"
    "unat (get16_at 20 d) \<le> q \<Longrightarrow> segment q m d' = segment q m d"
proof -
  note dp = data_pageD [OF assms(1)]
  have pos: "slot_pos k = 24 + 6 * k" for k by (simp add: slot_pos_def table_sizes)
  have ar: "length d = 4064" "unat (get16_at 18 d) = 24 + 6 * unat (get16_at 16 d)" "unat (get16_at 18 d) \<le> 4064" "unat (get16_at 18 d) \<le> unat (get16_at 20 d)"
    using dp(1,3,4,5) by (simp_all add: table_sizes)
  have p: "p + length ys \<le> 16 \<or> (p = 28 + 6 * j \<and> length ys = 2 \<and> j < unat (get16_at 16 d))" "p + length ys \<le> 4064"
    using assms(3,5) ar by (auto simp: pos)
  show "length d' = kPagePayloadSize" using ar p by (simp add: assms(2) table_sizes)
  show "take 6 d' = take 6 d" using ar p assms(4) by (simp add: assms(2) page_fields)
  show "get16_at 16 d' = get16_at 16 d" unfolding assms(2) by (rule get_at_splice_other(1)) (use ar p in auto)
  show "get16_at 18 d' = get16_at 18 d" unfolding assms(2) by (rule get_at_splice_other(1)) (use ar p in auto)
  show "get16_at 20 d' = get16_at 20 d" unfolding assms(2) by (rule get_at_splice_other(1)) (use ar p in auto)
  show "k < unat (get16_at 16 d) \<Longrightarrow> slot_offset d' k = slot_offset d k"
    unfolding assms(2) slot_offset_def pos by (rule get_at_splice_other(1)) (use ar p in \<open>auto, presburger?\<close>)
  show "k < unat (get16_at 16 d) \<Longrightarrow> slot_length d' k = slot_length d k"
    unfolding assms(2) slot_length_def pos by (rule get_at_splice_other(1)) (use ar p in \<open>auto, presburger?\<close>)
  show "k < unat (get16_at 16 d) \<Longrightarrow> p + length ys \<le> 16 \<or> k \<noteq> j \<Longrightarrow> slot_live d' k = slot_live d k"
    unfolding assms(2) slot_live_def pos
    by (rule arg_cong [where f = "\<lambda>v. v \<noteq> 0"], rule get_at_splice_other(1)) (use ar p in \<open>auto, presburger?\<close>)
  show "unat (get16_at 20 d) \<le> q \<Longrightarrow> segment q m d' = segment q m d"
    unfolding assms(2) by (rule segment_splice_other) (use ar p assms(3) in auto)
qed

lemma page_rows_filter:
  assumes "data_page s d" "length d' = kPagePayloadSize" "take 6 d' = take 6 d" "get16_at 16 d' = get16_at 16 d" "get16_at 18 d' = get16_at 18 d"
    "get16_at 20 d' = get16_at 20 d"
    "\<And>k. k < unat (get16_at 16 d) \<Longrightarrow> slot_offset d' k = slot_offset d k" "\<And>k. k < unat (get16_at 16 d) \<Longrightarrow> slot_length d' k = slot_length d k"
    "\<And>k. k < unat (get16_at 16 d) \<Longrightarrow> slot_live d' k \<longleftrightarrow> slot_live d k \<and> keep k"
    "\<And>q m. unat (get16_at 20 d) \<le> q \<Longrightarrow> segment q m d' = segment q m d"
  shows "data_page s d'" "page_rows s i d' = filter (\<lambda>r. keep (unat (rid_slot (fst r)))) (page_rows s i d)"
proof -
  note dp = data_pageD [OF assms(1)]
  have old: "k < unat (get16_at 16 d) \<Longrightarrow> slot_live d k \<Longrightarrow> row_at s d' k = row_at s d k \<and> unat (get16_at 20 d') \<le> unat (slot_offset d' k) \<and>
     unat (slot_offset d' k) + unat (slot_length d' k) \<le> kPagePayloadSize \<and> row_at s d' k \<noteq> None" for k
    using same_rows [OF assms(1,2) _ _ _ assms(7,8,10)] assms(6) by simp
  show "data_page s d'"
  proof (rule data_pageI)
    fix k assume "k < unat (get16_at 16 d')" "slot_live d' k"
    then have "k < unat (get16_at 16 d)" "slot_live d k" using assms(4,9) by simp_all
    with old show "unat (get16_at 20 d') \<le> unat (slot_offset d' k) \<and> unat (slot_offset d' k) + unat (slot_length d' k) \<le> kPagePayloadSize \<and> row_at s d' k \<noteq> None"
      by blast
  qed (use assms(2-6) dp(2-5) in \<open>simp_all add: has_magic_def\<close>)
  have slot: "unat (of_nat k :: uint32) = k" if "k < unat (get16_at 16 d)" for k
    using that unsigned_less [of "get16_at 16 d", where ?'a = nat] by (simp add: unat_of_nat take_bit_nat_eq_self)
  have "filter (slot_live d') [0..<unat (get16_at 16 d)] = filter (\<lambda>k. keep (unat (of_nat k :: uint32))) (filter (slot_live d) [0..<unat (get16_at 16 d)])"
    using assms(9) slot by (auto intro!: filter_cong simp: conj_commute)
  then show "page_rows s i d' = filter (\<lambda>r. keep (unat (rid_slot (fst r)))) (page_rows s i d)"
    unfolding page_rows_def assms(4) using old by (auto simp: filter_map comp_def intro!: map_cong)
qed

lemma erase_page:
  assumes "data_page s d" "j < unat (get16_at 16 d)"
  shows "data_page s (put16_at (slot_pos j + 4) 0 d)" "get64_at 8 (put16_at (slot_pos j + 4) 0 d) = get64_at 8 d"
    "page_rows s i (put16_at (slot_pos j + 4) 0 d) = filter (\<lambda>r. unat (rid_slot (fst r)) \<noteq> j) (page_rows s i d)"
proof -
  let ?d' = "put16_at (slot_pos j + 4) 0 d"
  note dp = data_pageD [OF assms(1)]
  have b: "slot_pos j + 6 \<le> unat (get16_at 18 d)" using assms(2) dp(3) by (simp add: slot_pos_def table_sizes)
  then have l: "slot_pos j + 6 \<le> length d" using dp(1,4,5) by linarith
  have d': "?d' = splice_at (slot_pos j + 4) (put16 0) d" using l by (simp add: put16_at_splice)
  have p8: "8 \<le> slot_pos j + 4" by (simp add: slot_pos_def table_sizes)
  note f = field_write_page [OF assms(1) d', of j]
  have dead: "\<not> slot_live ?d' j" using l by (simp add: slot_live_def d' page_fields)
  have live: "k < unat (get16_at 16 d) \<Longrightarrow> slot_live ?d' k \<longleftrightarrow> slot_live d k \<and> k \<noteq> j" for k
    using f(8) [of k] dead b assms(2) p8 by (cases "k = j") simp_all
  note side = b assms(2) p8
  show "data_page s ?d'" "page_rows s i ?d' = filter (\<lambda>r. unat (rid_slot (fst r)) \<noteq> j) (page_rows s i d)"
    by (rule page_rows_filter [OF assms(1), where keep = "\<lambda>k. k \<noteq> j"]; use side f(1-7,9) live in simp)+
  show "get64_at 8 ?d' = get64_at 8 d" unfolding d' by (rule get_at_splice_other(3)) (use l in \<open>simp_all add: slot_pos_def table_sizes\<close>)
qed

lemma link_page_rows:
  assumes "data_page s d"
  shows "data_page s (put64_at 8 n d)" "get64_at 8 (put64_at 8 n d) = n" "page_rows s i (put64_at 8 n d) = page_rows s i d"
proof -
  let ?d' = "put64_at 8 n d"
  note dp = data_pageD [OF assms(1)]
  have l: "16 \<le> length d" "16 \<le> unat (get16_at 18 d)" using dp(1,3) by (simp_all add: table_sizes)
  then have d': "?d' = splice_at 8 (put64 n) d" by (simp add: put64_at_splice)
  note f = field_write_page [OF assms(1) d']
  have "data_page s ?d'" "page_rows s i ?d' = filter (\<lambda>r. True) (page_rows s i d)"
    by (rule page_rows_filter [OF assms(1), where keep = "\<lambda>k. True"]; use l f in simp)+
  then show "data_page s ?d'" "page_rows s i ?d' = page_rows s i d" by simp_all
  show "get64_at 8 ?d' = n" using l by (simp add: d' page_fields)
qed

lemma data_init_page:
  assumes "length d = kPagePayloadSize"
  shows "data_page s (data_init d)" "get64_at 8 (data_init d) = kInvalidValue" "page_rows s i (data_init d) = []"
    "unat (free_space (data_init d)) = kPagePayloadSize - kHeader"
proof -
  let ?d = "data_init d"
  have z: "length (replicate (length d) (0 :: byte)) = 4064" using assms by (simp add: table_sizes)
  have f: "length ?d = kPagePayloadSize" "has_magic ?d kDataMagic" "get16_at 16 ?d = 0" "get16_at 18 ?d = 24" "get16_at 20 ?d = 4064"
    "get64_at 8 ?d = kInvalidValue"
    using z assms by (simp_all add: data_init_def has_magic_def page_fields kDataMagic_def table_sizes)
  show "data_page s ?d" by (rule data_pageI) (simp_all add: f table_sizes)
  show "page_rows s i ?d = []" by (simp add: page_rows_def f)
  show "get64_at 8 ?d = kInvalidValue" by (rule f)
  show "unat (free_space ?d) = kPagePayloadSize - kHeader" by (simp add: free_space_def f table_sizes)
qed

end
