(* ===== verification/PageReads.thy ===== *)
theory PageReads
  imports PageAccess Undisturbed
begin

text \<open>
  Reading pages. The locale \<open>page_reader\<close> is what the reads of the table heap and of the B+ tree rely on: a page that exists is
  fetched with its payload, and after it has been unpinned the world is as before. A lenient reader may fail. The locale has two
  interpretations: on any world in order, where a fetch may fail because no frame is free or because of the device, and on a
  world in which nothing is pinned and the pool can always make room, where every read returns.
\<close>

section \<open>The interface\<close>

locale page_reader =
  fixes st :: "(PageId \<rightharpoonup> byte list) \<Rightarrow> world \<Rightarrow> bool"
    and held :: "PageId \<Rightarrow> FrameId \<Rightarrow> (PageId \<rightharpoonup> byte list) \<Rightarrow> world \<Rightarrow> bool"
    and lenient :: bool
  assumes fetch_law: "st P w \<Longrightarrow> P i = Some x \<Longrightarrow> wp (on_pool (fetch_page i))
      (\<lambda>r w'. case r of None \<Rightarrow> lenient \<and> st P w' | Some f \<Rightarrow> held i f P w' \<and> payload_at f w' = x) (\<lambda>_ w'. lenient \<and> st P w') w"
    and unpin_law: "held i f P w \<Longrightarrow> wp (on_pool (unpin_page i False)) (\<lambda>b w'. b \<and> st P w') (\<lambda>_ _. False) w"
    and valid_law: "st P w \<Longrightarrow> P i \<noteq> None \<Longrightarrow> is_valid i"
    and length_law: "st P w \<Longrightarrow> P i = Some x \<Longrightarrow> length x = kPagePayloadSize"
begin

lemma fetch_then:
  assumes "st P w" "P i = Some x"
    and "\<And>f w1. held i f P w1 \<Longrightarrow> payload_at f w1 = x \<Longrightarrow> wp (m (Some f)) Q E w1"
    and "\<And>w1. lenient \<Longrightarrow> st P w1 \<Longrightarrow> wp (m None) Q E w1"
    and "\<And>e w1. lenient \<Longrightarrow> st P w1 \<Longrightarrow> E e w1"
  shows "wp (bindE (on_pool (fetch_page i)) m) Q E w"
  unfolding wp_bindE by (rule wp_mono [OF fetch_law [OF assms(1,2)]]) (auto intro: assms(3-5) split: option.splits)

lemma unpin_then:
  assumes "held i f P w" "\<And>w1. st P w1 \<Longrightarrow> wp (k True) Q E w1"
  shows "wp (bindE (on_pool (unpin_page i False)) k) Q E w"
  unfolding wp_bindE by (rule wp_mono [OF unpin_law [OF assms(1)]]) (auto intro: assms(2))

end

section \<open>A world in order\<close>

interpretation world_reader: page_reader "paged mode" "\<lambda>i f P w. holding mode i f {} P w" True for mode
proof
  fix P w i x f
  assume "paged mode P w"
  show "wp (on_pool (fetch_page i)) (\<lambda>r w'. case r of None \<Rightarrow> True \<and> paged mode P w' | Some f \<Rightarrow> holding mode i f {} P w' \<and> payload_at f w' = x)
      (\<lambda>_ w'. True \<and> paged mode P w') w" if "P i = Some x"
  proof -
    have "wp (bindE (on_pool (fetch_page i)) ret) (\<lambda>r w'. case r of None \<Rightarrow> True \<and> paged mode P w' | Some f \<Rightarrow> holding mode i f {} P w' \<and> payload_at f w' = x)
      (\<lambda>_ w'. True \<and> paged mode P w') w"
      by (rule fetch_paged [OF \<open>paged mode P w\<close>]) (use that in \<open>simp_all add: wp_ret\<close>)
    then show ?thesis by (simp add: wp_bindE wp_funs)
  qed
next
  fix P w i f
  assume "holding mode i f {} P w"
  from unpin_held [OF this, of False] show "wp (on_pool (unpin_page i False)) (\<lambda>b w'. b \<and> paged mode P w') (\<lambda>_ _. False) w" by simp
qed (auto intro: paged_valid payload_length)

section \<open>A quiet world\<close>

definition quiet :: "uint64 \<Rightarrow> (PageId \<rightharpoonup> byte list) \<Rightarrow> world \<Rightarrow> bool" where
  "quiet d P w \<longleftrightarrow> pool_ready d (cs_pool w) \<and> payloads w = P"

definition reading :: "uint64 \<Rightarrow> PageId \<Rightarrow> FrameId \<Rightarrow> (PageId \<rightharpoonup> byte list) \<Rightarrow> world \<Rightarrow> bool" where
  "reading d i f P w \<longleftrightarrow> payloads w = P \<and> cache_ok {} (cs_pool w) \<and> residents (allocated (cs_pool w)) (cs_pool w) \<and> pinned_at (cs_pool w) i f \<and>
     pool_pins (cs_pool w) = (\<lambda>_. 0)(i := 1) \<and> undisturbed d (cs_pool w) \<and> (\<forall>i p. pool_view (cs_pool w) i = Some p \<longrightarrow> pg_lsn p \<le> d)"

lemma quiet_payload_length: "quiet d P w \<Longrightarrow> P i = Some x \<Longrightarrow> length x = kPagePayloadSize"
  using pool_view_page [OF cache_okD(2), of "{}" "cs_pool w" i] by (auto simp: quiet_def pool_ready_def payloads_def page_ok_def)

lemma quiet_valid: "quiet d P w \<Longrightarrow> P i \<noteq> None \<Longrightarrow> is_valid i"
  using dom_pm_pages [of "bp_page_manager (cs_pool w)"]
  by (auto simp: quiet_def payloads_def pool_view_def is_page_allocated_def split: if_splits)

lemma quiet_fetch:
  assumes "quiet d P w" "P i = Some x"
  shows "wp (on_pool (fetch_page i)) (\<lambda>r w'. \<exists>f. r = Some f \<and> reading d i f P w' \<and> payload_at f w' = x) (\<lambda>_ _. False) w"
proof -
  have r: "pool_ready d (cs_pool w)" "payloads w = P" using assms(1) by (simp_all add: quiet_def)
  then have s: "cache_ok {} (cs_pool w)" "residents (allocated (cs_pool w)) (cs_pool w)" "pool_view (cs_pool w) i \<noteq> None"
    "\<forall>i. pool_pins (cs_pool w) i = 0" "\<forall>i p. pool_view (cs_pool w) i = Some p \<longrightarrow> pg_lsn p \<le> d"
    using assms(2) by (auto simp: pool_ready_def payloads_def)
  show ?thesis
    unfolding wp_on_pool
  proof (rule wp_mono [OF wp_conj [OF fetch_pool_ready [OF r(1) s(3)] wp_conj [OF pc.fetch_law [OF s(1)] fetch_residents [OF s(2)]]]], goal_cases)
    case (1 y bp)
    then obtain f where y: "y = Some f" by auto
    let ?w = "w\<lparr>cs_pool := bp\<rparr>"
    have v: "pool_view bp = pool_view (cs_pool w)" "pinned_at bp i f" using 1 y by auto
    then have "residents (allocated bp) bp" using 1 by (simp add: allocated_view)
    moreover have "pool_pins bp = (\<lambda>_. 0)(i := 1)" using 1 y s(4) by (auto simp: fun_eq_iff)
    moreover have "payloads ?w = P" using r(2) v by (simp add: payloads_def fun_eq_iff)
    ultimately have h: "reading d i f P ?w" using 1 v s(5) by (simp add: reading_def)
    have "payload_at f ?w = x"
      using assms(2) r(2) v pinned_at_view [OF v(2)] by (auto simp: payload_at_def payloads_def)
    with h y show ?case by auto
  qed simp
qed

lemma quiet_unpin:
  assumes "reading d i f P w"
  shows "wp (on_pool (unpin_page i False)) (\<lambda>b w'. b \<and> quiet d P w') (\<lambda>_ _. False) w"
proof -
  let ?bp = "cs_pool w"
  have r: "payloads w = P" "cache_ok {} ?bp" "residents (allocated ?bp) ?bp" "pool_pins ?bp = (\<lambda>_. 0)(i := 1)" "undisturbed d ?bp"
    "\<forall>i p. pool_view ?bp i = Some p \<longrightarrow> pg_lsn p \<le> d" and p: "pool_pins ?bp i \<noteq> 0"
    using assms(1) by (simp_all add: reading_def)
  have n: "False \<or> i \<notin> {}" by simp
  show ?thesis
    unfolding wp_on_pool
  proof (rule wp_mono [OF wp_conj [OF pc.unpin_law [OF r(2) p n] wp_conj [OF keeps_wp [OF residents_ops(1) r(3)] keeps_wp [OF undisturbed_ops(1) r(5)]]]], goal_cases)
    case (1 y bp)
    then have v: "pool_view bp = pool_view ?bp" and y: "y" by simp_all
    then have "residents (allocated bp) bp" using 1 by (simp add: allocated_view)
    moreover have "\<forall>i. pool_pins bp i = 0" using 1 r(4) by simp
    moreover have "payloads (w\<lparr>cs_pool := bp\<rparr>) = P" using r(1) v by (simp add: payloads_def fun_eq_iff)
    ultimately have "quiet d P (w\<lparr>cs_pool := bp\<rparr>)" using 1 v r(6) by (simp add: quiet_def pool_ready_def)
    with y show ?case by simp
  qed simp
qed

interpretation quiet_reader: page_reader "quiet d" "reading d" False for d
proof
  fix P w i x
  assume "quiet d P w" "P i = Some x"
  from quiet_fetch [OF this] show "wp (on_pool (fetch_page i))
      (\<lambda>r w'. case r of None \<Rightarrow> False \<and> quiet d P w' | Some f \<Rightarrow> reading d i f P w' \<and> payload_at f w' = x) (\<lambda>_ w'. False \<and> quiet d P w') w"
    by (rule wp_mono) auto
qed (auto intro: quiet_unpin quiet_valid quiet_payload_length)

end
