(* ===== verification/PageWrites.thy ===== *)
theory PageWrites
  imports PageReads
begin

text \<open>
  Changing and allocating pages: the locale \<open>page_writer\<close> extends \<open>page_reader\<close> with what the updates of the table heap and of
  the B+ tree rely on. It is interpreted on any world in order, in all three modes, where an update may throw, and on a quiet
  world without a mutation context, where an update throws only when the page catalog is full.
\<close>

section \<open>The interface\<close>

definition exhausted :: "world \<Rightarrow> bool" where
  "exhausted w \<longleftrightarrow> unat (pm_page_count (bp_page_manager (cs_pool w))) = kCatalogBits"

locale page_writer = page_reader st held lenient
  for st held lenient +
  fixes mode :: mutation_mode
    and changed :: "PageId \<Rightarrow> FrameId \<Rightarrow> (PageId \<rightharpoonup> byte list) \<Rightarrow> world \<Rightarrow> bool"
  assumes change_law: "held i f P w \<Longrightarrow> P i = Some d \<Longrightarrow> length (g d) = kPagePayloadSize \<Longrightarrow>
      wp (change_payload mode i f g) (\<lambda>old w'. old = d \<and> changed i f (P(i \<mapsto> g d)) w') (\<lambda>_ _. lenient) w"
    and unpin_changed_law: "changed i f P w \<Longrightarrow> wp (on_pool (unpin_page i True)) (\<lambda>b w'. b \<and> st P w') (\<lambda>_ _. False) w"
    and allocate_law: "st P w \<Longrightarrow> wp (allocate_in mode)
      (\<lambda>i w'. P i = None \<and> is_valid i \<and> st (P(i \<mapsto> replicate kPagePayloadSize 0)) w') (\<lambda>_ w'. lenient \<or> exhausted w') w"
    and enter_law: "st P w \<Longrightarrow> wp (entering mode) (\<lambda>_. st P) (\<lambda>_ _. False) w"
    and enter_held_law: "held i f P w \<Longrightarrow> wp (entering mode) (\<lambda>_. held i f P) (\<lambda>_ _. False) w"
begin

abbreviation stopped :: "error \<Rightarrow> world \<Rightarrow> bool" where
  "stopped \<equiv> \<lambda>_ w'. lenient \<or> exhausted w'"

lemma enter_then: "st P w \<Longrightarrow> (\<And>w'. st P w' \<Longrightarrow> wp (k ()) Q E w') \<Longrightarrow> wp (bindE (entering mode) k) Q E w"
  unfolding wp_bindE by (rule wp_mono [OF enter_law]) auto

lemma enter_held_then: "held i f P w \<Longrightarrow> (\<And>w'. held i f P w' \<Longrightarrow> wp (k ()) Q E w') \<Longrightarrow> wp (bindE (entering mode) k) Q E w"
  unfolding wp_bindE by (rule wp_mono [OF enter_held_law]) auto

lemma allocate_then:
  assumes "st P w" "\<And>i w'. P i = None \<Longrightarrow> is_valid i \<Longrightarrow> st (P(i \<mapsto> replicate kPagePayloadSize 0)) w' \<Longrightarrow> wp (k i) Q stopped w'"
  shows "wp (bindE (allocate_in mode) k) Q stopped w"
  unfolding wp_bindE by (rule wp_mono [OF allocate_law [OF assms(1)]]) (auto intro: assms(2))

lemma change_then:
  assumes "held i f P w" "P i = Some d" "length (g d) = kPagePayloadSize"
    and "\<And>w'. st (P(i \<mapsto> g d)) w' \<Longrightarrow> wp (k d True) Q E w'" and "\<And>e w'. lenient \<Longrightarrow> E e w'"
  shows "wp (bindE (change_payload mode i f g) (\<lambda>old. bindE (on_pool (unpin_page i True)) (k old))) Q E w"
  unfolding wp_bindE
proof (rule wp_mono [OF change_law [where g = g, OF assms(1-3)]], goal_cases)
  case (1 old w1)
  then have h: "changed i f (P(i \<mapsto> g d)) w1" "old = d" by simp_all
  show ?case by (rule wp_mono [OF unpin_changed_law [OF h(1)]]) (use assms(4) h(2) in auto)
qed (use assms(5) in simp)

text \<open>Fetching for an update.\<close>

lemma fetch_update:
  assumes "st P w" "P i = Some x"
    and "\<And>f w1. held i f P w1 \<Longrightarrow> payload_at f w1 = x \<Longrightarrow> wp (m (Some f)) Q E w1"
    and "\<And>w1. lenient \<Longrightarrow> st P w1 \<Longrightarrow> wp (m None) Q E w1"
    and "\<And>e w'. lenient \<Longrightarrow> E e w'"
  shows "wp (bindE (on_pool (fetch_page i)) m) Q E w"
  by (rule fetch_then [OF assms(1,2)]) (use assms(3-5) in auto)

end

section \<open>A world in order\<close>

interpretation world_writer: page_writer "paged mode" "\<lambda>i f P w. holding mode i f {} P w" True mode "\<lambda>i f P w. holding mode i f {i} P w" for mode
proof
  fix i f P w d and g :: "byte list \<Rightarrow> byte list"
  assume h: "holding mode i f {} P w"
  show "wp (change_payload mode i f g) (\<lambda>old w'. old = d \<and> holding mode i f {i} (P(i \<mapsto> g d)) w') (\<lambda>_ _. True) w"
    if "P i = Some d" "length (g d) = kPagePayloadSize"
    using held_change [where g = g, OF h that] by simp
  show "wp (entering mode) (\<lambda>_ w. holding mode i f {} P w) (\<lambda>_ _. False) w"
    using h by (auto simp: entering_def use_mutation_context_def wp_simps wp_on_tx wp_funs holding_def payloads_def fun_eq_iff)
next
  fix i f P w
  assume "holding mode i f {i} P w"
  from unpin_held [OF this, of True] show "wp (on_pool (unpin_page i True)) (\<lambda>b w'. b \<and> paged mode P w') (\<lambda>_ _. False) w" by simp
next
  fix P w
  assume "paged mode P w"
  then show "wp (allocate_in mode) (\<lambda>i w'. P i = None \<and> is_valid i \<and> paged mode (P(i \<mapsto> replicate kPagePayloadSize 0)) w') (\<lambda>_ w'. True \<or> exhausted w') w"
    "wp (entering mode) (\<lambda>_. paged mode P) (\<lambda>_ _. False) w"
    using allocate_in_paged [of mode P w] by (auto simp: entering_def use_mutation_context_def wp_simps wp_on_tx wp_funs paged_def payloads_def fun_eq_iff)
qed

section \<open>A quiet world\<close>

definition writing :: "uint64 \<Rightarrow> PageId \<Rightarrow> FrameId \<Rightarrow> (PageId \<rightharpoonup> byte list) \<Rightarrow> world \<Rightarrow> bool" where
  "writing d i f P w \<longleftrightarrow> payloads w = P \<and> cache_ok {i} (cs_pool w) \<and> residents (allocated (cs_pool w)) (cs_pool w) \<and>
     pool_pins (cs_pool w) = (\<lambda>_. 0)(i := 1) \<and> undisturbed d (cs_pool w) \<and> (\<forall>i p. pool_view (cs_pool w) i = Some p \<longrightarrow> pg_lsn p \<le> d)"

lemma quiet_change:
  assumes "reading d i f P w" "P i = Some x" "length (g x) = kPagePayloadSize"
  shows "wp (change_payload NoMutations i f g) (\<lambda>old w'. old = x \<and> writing d i f (P(i \<mapsto> g x)) w') (\<lambda>_ _. False) w"
proof -
  let ?bp = "cs_pool w"
  have h: "cache_ok {} ?bp" "pinned_at ?bp i f" "payloads w = P" "residents (allocated ?bp) ?bp" "undisturbed d ?bp"
    "pool_pins ?bp = (\<lambda>_. 0)(i := 1)" "\<forall>i p. pool_view ?bp i = Some p \<longrightarrow> pg_lsn p \<le> d"
    using assms(1) by (simp_all add: reading_def)
  then obtain p where p: "pool_view ?bp i = Some p" "pg_payload p = x" using assms(2) by (auto simp: payloads_def)
  have x: "payload_at f w = x" using p pinned_at_view [OF h(2) p(1)] by (simp add: payload_at_def)
  note laws = wp_conj [OF pc.write_law [OF h(1,2) p(1) assms(3)] wp_conj [OF keeps_wp [OF residents_ops(2) h(4)] keeps_wp [OF undisturbed_ops(2) h(5)]]]
  have "wp (set_payload f (g x)) (\<lambda>_ bp. writing d i f (P(i \<mapsto> g x)) (w\<lparr>cs_pool := bp\<rparr>)) (\<lambda>_ _. False) ?bp"
  proof (rule wp_mono [OF laws], goal_cases)
    case (1 u bp)
    then have v: "pool_view bp = (pool_view ?bp)(i \<mapsto> p\<lparr>pg_payload := g x\<rparr>)" by simp
    then have "allocated bp = allocated ?bp" using p(1) by (auto simp: allocated_view)
    moreover have "payloads (w\<lparr>cs_pool := bp\<rparr>) = P(i \<mapsto> g x)" using v h(3) by (auto simp: payloads_def fun_eq_iff)
    ultimately show ?case using 1 h(6,7) v p(1) by (auto simp: writing_def)
  qed simp
  then show ?thesis by (simp add: change_payload_def watching_def finishing_def wp_bindE wp_ret wp_gets x wp_on_pool wp_funs)
qed

lemma quiet_unpin_changed:
  assumes "writing d i f P w"
  shows "wp (on_pool (unpin_page i True)) (\<lambda>b w'. b \<and> quiet d P w') (\<lambda>_ _. False) w"
proof -
  let ?bp = "cs_pool w"
  have r: "payloads w = P" "cache_ok {i} ?bp" "residents (allocated ?bp) ?bp" "pool_pins ?bp = (\<lambda>_. 0)(i := 1)" "undisturbed d ?bp"
    "\<forall>i p. pool_view ?bp i = Some p \<longrightarrow> pg_lsn p \<le> d" and p: "pool_pins ?bp i \<noteq> 0" and n: "True \<or> i \<notin> {i}"
    using assms(1) by (simp_all add: writing_def)
  show ?thesis
    unfolding wp_on_pool
  proof (rule wp_mono [OF wp_conj [OF pc.unpin_law [OF r(2) p n] wp_conj [OF keeps_wp [OF residents_ops(1) r(3)] keeps_wp [OF undisturbed_ops(1) r(5)]]]], goal_cases)
    case (1 y bp)
    then have v: "pool_view bp = pool_view ?bp" by simp
    then have "residents (allocated bp) bp" using 1 by (simp add: allocated_view)
    moreover have "\<forall>i. pool_pins bp i = 0" using 1 r(4) by simp
    moreover have "payloads (w\<lparr>cs_pool := bp\<rparr>) = P" using r(1) v by (simp add: payloads_def fun_eq_iff)
    ultimately show ?case using 1 v r(6) by (simp add: quiet_def pool_ready_def)
  qed simp
qed

lemma quiet_paged: "quiet d P w \<Longrightarrow> paged NoMutations P w"
  using dom_pm_pages [of "bp_page_manager (cs_pool w)"]
  by (auto simp: quiet_def pool_ready_def paged_def bounded_def residents_def allocated_def dest!: is_page_allocated_count)

lemma quiet_allocate:
  assumes "quiet d P w"
  shows "wp (allocate_in NoMutations) (\<lambda>i w'. P i = None \<and> is_valid i \<and> quiet d (P(i \<mapsto> replicate kPagePayloadSize 0)) w') (\<lambda>_. exhausted) w"
proof -
  let ?bp = "cs_pool w" let ?pm = "bp_page_manager ?bp"
  have q: "pool_ready d ?bp" "payloads w = P" using assms by (simp_all add: quiet_def)
  then have wf: "wf_pm ?pm" and ff: "fault_free (pm_file ?pm)" and c: "cache_ok {} ?bp"
    using cache_okD(2) [of "{}" ?bp] by (simp_all add: pool_ready_def undisturbed_def pool_inv_def)
  have run: "wp (allocate_in NoMutations) Q E w = wp allocate_page (\<lambda>i pm. Q i (w\<lparr>cs_pool := ?bp\<lparr>bp_page_manager := pm\<rparr>\<rparr>))
      (\<lambda>e pm. E e (w\<lparr>cs_pool := ?bp\<lparr>bp_page_manager := pm\<rparr>\<rparr>)) ?pm" for Q E
    by (simp add: allocate_in_def wp_on_pool on_disk_def wp_zoom)
  show ?thesis
    unfolding run
  proof (rule wp_mono [OF allocate_page_spec [OF wf]], goal_cases)
    case (1 i pm)
    let ?w = "w\<lparr>cs_pool := ?bp\<lparr>bp_page_manager := pm\<rparr>\<rparr>"
    have pm: "wf_pm pm" "pm_pages pm = (pm_pages ?pm)(i \<mapsto> new_page i)" "i = pm_page_count ?pm" "fault_free (pm_file pm)" using 1 ff by simp_all
    have p: "P i = None" "is_valid i" "paged NoMutations (P(i \<mapsto> replicate kPagePayloadSize 0)) ?w"
      using paged_allocate [OF quiet_paged [OF assms] pm(1-3), of ?w "bp_wal_durability ?bp"] by simp_all
    have al: "allocated (?bp\<lparr>bp_page_manager := pm\<rparr>) = insert i (allocated ?bp)" using pm(2) by (simp add: allocated_def)
    have none: "pool_view ?bp i = None" using p(1) q(2) by (auto simp: payloads_def)
    then have "i \<notin> fst ` set (bp_page_table ?bp)" using q(1) by (auto simp: pool_ready_def residents_def allocated_view)
    then have nf: "find_frame i ?bp = None" using find_frame_entry [of i ?bp] by (cases "find_frame i ?bp") force+
    have v: "pool_view (?bp\<lparr>bp_page_manager := pm\<rparr>) = (pool_view ?bp)(i \<mapsto> new_page i)" by (rule pool_view_disk [OF pm(2) nf])
    have "pool_ready d (?bp\<lparr>bp_page_manager := pm\<rparr>)"
      using q(1) p(3) pm(4) al v by (auto simp: pool_ready_def paged_def residents_def undisturbed_def new_page_def)
    with p show ?case by (simp add: quiet_def paged_def)
  next
    case (2 e pm)
    then show ?case using ff by (simp add: exhausted_def)
  qed
qed

interpretation quiet_writer: page_writer "quiet d" "reading d" False NoMutations "writing d" for d
proof
  fix i f P w x and g :: "byte list \<Rightarrow> byte list"
  assume h: "reading d i f P w"
  show "wp (change_payload NoMutations i f g) (\<lambda>old w'. old = x \<and> writing d i f (P(i \<mapsto> g x)) w') (\<lambda>_ _. False) w"
    if "P i = Some x" "length (g x) = kPagePayloadSize"
    by (rule wp_mono [OF quiet_change [where g = g, OF h that]]) auto
  show "wp (entering NoMutations) (\<lambda>_. reading d i f P) (\<lambda>_ _. False) w" using h by (simp add: entering_def wp_ret)
next
  fix P w
  assume "quiet d P w"
  then show "wp (allocate_in NoMutations) (\<lambda>i w'. P i = None \<and> is_valid i \<and> quiet d (P(i \<mapsto> replicate kPagePayloadSize 0)) w') (\<lambda>_ w'. False \<or> exhausted w') w"
    "wp (entering NoMutations) (\<lambda>_. quiet d P) (\<lambda>_ _. False) w"
    using quiet_allocate by (auto simp: entering_def wp_ret)
qed (rule quiet_unpin_changed)

end
