(* ===== verification/TableSpec.thy ===== *)
theory TableSpec
  imports TablePages PageWrites
begin

text \<open>
  The table heap as a list of rows: the invariant of a table over the payloads of its pages, the reads on any page reader, and
  the updates.
\<close>

section \<open>The invariant\<close>

text \<open>\<open>chain P s i ids\<close>: the data pages \<open>ids\<close> follow one another from \<open>i\<close> on. \<open>table_rows s P ids\<close> are their rows in order.\<close>

fun chain :: "(PageId \<rightharpoonup> byte list) \<Rightarrow> Schema \<Rightarrow> PageId \<Rightarrow> PageId list \<Rightarrow> bool" where
  "chain P s i [] \<longleftrightarrow> \<not> is_valid i"
| "chain P s i (j # js) \<longleftrightarrow> i = j \<and> is_valid j \<and> (\<exists>d. P j = Some d \<and> data_page s d \<and> chain P s (get64_at 8 d) js)"

definition table_rows :: "Schema \<Rightarrow> (PageId \<rightharpoonup> byte list) \<Rightarrow> PageId list \<Rightarrow> (RecordId \<times> Tuple) list" where
  "table_rows s P ids = concat (map (\<lambda>i. page_rows s i (the (P i))) ids)"

definition meta_page :: "table_heap \<Rightarrow> byte list \<Rightarrow> bool" where
  "meta_page th m \<longleftrightarrow> length m = kPagePayloadSize \<and> has_magic m kMetaMagic \<and> get64_at 8 m = th_first th \<and> get64_at 16 m = th_last th"

definition heap_ok :: "table_heap \<Rightarrow> (PageId \<rightharpoonup> byte list) \<Rightarrow> PageId list \<Rightarrow> bool" where
  "heap_ok th P ids \<longleftrightarrow> distinct (th_meta th # ids) \<and> (\<exists>m. P (th_meta th) = Some m \<and> meta_page th m) \<and>
     chain P (th_schema th) (th_first th) ids \<and> th_last th = (if ids = [] then kInvalidValue else last ids)"

lemma table_rows_simps [simp]:
  "table_rows s P [] = []" "table_rows s P (i # ids) = page_rows s i (the (P i)) @ table_rows s P ids"
  "table_rows s P (ids @ ids') = table_rows s P ids @ table_rows s P ids'"
  by (simp_all add: table_rows_def)

lemma table_rows_cong: "(\<And>i. i \<in> set ids \<Longrightarrow> P i = P' i) \<Longrightarrow> table_rows s P ids = table_rows s P' ids"
  by (induction ids) simp_all

lemma chain_cong: "(\<And>i. i \<in> set ids \<Longrightarrow> P i = P' i) \<Longrightarrow> chain P s i ids = chain P' s i ids"
  by (induction ids arbitrary: i) auto

lemma chain_page: "chain P s i ids \<Longrightarrow> j \<in> set ids \<Longrightarrow> \<exists>d. P j = Some d \<and> data_page s d \<and> is_valid j"
  by (induction ids arbitrary: i) auto

text \<open>Replacing a page of the chain by a page with the same successor, and appending a page.\<close>

lemma chain_replace:
  assumes "chain P s i ids" "P j = Some d" "data_page s d'" "get64_at 8 d' = get64_at 8 d"
  shows "chain (P(j \<mapsto> d')) s i ids"
  using assms by (induction ids arbitrary: i) auto

lemma chain_snoc:
  assumes "chain P s i ids" "n \<notin> set ids" "is_valid n" "data_page s dn" "\<not> is_valid (get64_at 8 dn)" "distinct ids" "ids \<noteq> []"
    "P (last ids) = Some d"
  shows "chain (P(n \<mapsto> dn, last ids \<mapsto> put64_at 8 n d)) s i (ids @ [n])"
  using assms
proof (induction ids arbitrary: i)
  case (Cons j js)
  show ?case
  proof (cases "js = []")
    case True
    with Cons.prems show ?thesis by (auto simp: link_page_rows)
  next
    case False
    with Cons show ?thesis by (auto dest: last_in_set)
  qed
qed simp

lemma page_rows_rid: "(r, t) \<in> set (page_rows s i d) \<Longrightarrow> rid_page r = i"
  by (auto simp: page_rows_def)

lemma table_rows_page: "(r, t) \<in> set (table_rows s P ids) \<Longrightarrow> rid_page r \<in> set ids"
  by (auto simp: table_rows_def dest: page_rows_rid)

text \<open>A row of a page is found by its address.\<close>

lemma page_rows_member:
  assumes "data_page s d"
  shows "(r, t) \<in> set (page_rows s i d) \<longleftrightarrow> rid_page r = i \<and> unat (rid_slot r) < unat (get16_at 16 d) \<and> slot_live d (unat (rid_slot r)) \<and>
     row_at s d (unat (rid_slot r)) = Some t"
proof -
  have slot: "unat (of_nat k :: uint32) = k" if "k < unat (get16_at 16 d)" for k
    using that unsigned_less [of "get16_at 16 d", where ?'a = nat] by (simp add: unat_of_nat take_bit_nat_eq_self)
  have "r = \<lparr>rid_page = i, rid_slot = of_nat k\<rparr> \<longleftrightarrow> rid_page r = i \<and> unat (rid_slot r) = k" if "k < unat (get16_at 16 d)" for k
    using slot [OF that] by (cases r) auto
  then show ?thesis
    using data_pageD(8) [OF assms] by (auto simp: page_rows_def image_iff)
qed

lemma table_rows_member:
  assumes "distinct ids" "chain P s f ids" "rid_page r \<in> set ids" "P (rid_page r) = Some d"
  shows "(r, t) \<in> set (table_rows s P ids) \<longleftrightarrow> unat (rid_slot r) < unat (get16_at 16 d) \<and> slot_live d (unat (rid_slot r)) \<and>
     row_at s d (unat (rid_slot r)) = Some t"
proof -
  have "data_page s d" using chain_page [OF assms(2,3)] assms(4) by auto
  note m = page_rows_member [OF this, of r t "rid_page r"]
  have "(r, t) \<in> set (table_rows s P ids) \<longleftrightarrow> (\<exists>i \<in> set ids. (r, t) \<in> set (page_rows s i (the (P i))))" by (simp add: table_rows_def)
  also have "\<dots> \<longleftrightarrow> (r, t) \<in> set (page_rows s (rid_page r) d)" using assms(3,4) page_rows_rid by (metis option.sel)
  finally show ?thesis using m by simp
qed

text \<open>Every address occurs at most once.\<close>

lemma page_rows_distinct: "data_page s d \<Longrightarrow> distinct (map fst (page_rows s i d))"
proof -
  assume "data_page s d"
  have "inj_on (\<lambda>k. of_nat k :: uint32) {0..<unat (get16_at 16 d)}"
  proof (rule inj_onI)
    fix x y assume xy: "x \<in> {0..<unat (get16_at 16 d)}" "y \<in> {0..<unat (get16_at 16 d)}" "(of_nat x :: uint32) = of_nat y"
    then have "unat (of_nat x :: uint32) = unat (of_nat y :: uint32)" by simp
    then show "x = y"
      using xy(1,2) unsigned_less [of "get16_at 16 d", where ?'a = nat] by (simp add: unat_of_nat take_bit_nat_eq_self)
  qed
  then show ?thesis by (auto simp: page_rows_def comp_def distinct_map inj_on_def)
qed

lemma table_rows_distinct: "chain P s f ids \<Longrightarrow> distinct ids \<Longrightarrow> distinct (map fst (table_rows s P ids))"
proof (induction ids arbitrary: f)
  case (Cons i ids)
  then obtain d where d: "P i = Some d" "data_page s d" "chain P s (get64_at 8 d) ids" by auto
  with Cons page_rows_distinct [OF d(2)] show ?case by (auto dest!: page_rows_rid table_rows_page)
qed simp

section \<open>Replaced and appended pages\<close>

definition empty_page :: "byte list" where
  "empty_page = data_init (replicate kPagePayloadSize 0)"

lemmas empty_page = data_init_page [of "replicate kPagePayloadSize 0", folded empty_page_def, simplified]

text \<open>The table after a page of its chain has been replaced or a page has been appended.\<close>

lemma heap_ok_replace:
  assumes "heap_ok th P ids" "j \<in> set ids" "P j = Some d" "data_page (th_schema th) d'" "get64_at 8 d' = get64_at 8 d"
  shows "heap_ok th (P(j \<mapsto> d')) ids"
  using assms(1,2) chain_replace [where P = P, OF _ assms(3-5)] by (auto simp: heap_ok_def)

lemma table_rows_replace:
  assumes "distinct ids" "ids = xs @ j # ys"
  shows "table_rows s (P(j \<mapsto> d)) ids = table_rows s P xs @ page_rows s j d @ table_rows s P ys"
proof -
  have "j \<notin> set xs" "j \<notin> set ys" using assms by auto
  then have "table_rows s (P(j \<mapsto> d)) xs = table_rows s P xs" "table_rows s (P(j \<mapsto> d)) ys = table_rows s P ys"
    by (auto intro!: table_rows_cong)
  then show ?thesis using assms(2) by simp
qed

lemma meta_page_update:
  assumes "meta_page th m" "th_first th' = a" "th_last th' = b"
  shows "meta_page th' (put64_at 16 b (put64_at 8 a m))"
  using assms by (simp add: meta_page_def has_magic_def page_fields size_defs)

definition appended :: "table_heap \<Rightarrow> (PageId \<rightharpoonup> byte list) \<Rightarrow> PageId list \<Rightarrow> PageId \<Rightarrow> table_heap \<Rightarrow> (PageId \<rightharpoonup> byte list) \<Rightarrow> bool" where
  "appended th P ids i th' P' \<longleftrightarrow> heap_ok th' P' (ids @ [i]) \<and> P' i = Some empty_page \<and> th_meta th' = th_meta th \<and> th_schema th' = th_schema th \<and>
     table_rows (th_schema th) P' (ids @ [i]) = table_rows (th_schema th) P ids \<and> (\<forall>j. j \<notin> set (th_meta th # i # ids) \<longrightarrow> P' j = P j)"

text \<open>The pages after a fresh page \<open>i\<close> has been linked to the last page of the chain, and after the metadata has been written too.\<close>

definition linked :: "(PageId \<rightharpoonup> byte list) \<Rightarrow> PageId list \<Rightarrow> PageId \<Rightarrow> PageId \<rightharpoonup> byte list" where
  "linked P ids i = (if ids = [] then P(i \<mapsto> empty_page) else P(i \<mapsto> empty_page, last ids \<mapsto> put64_at 8 i (the (P (last ids)))))"

definition with_last :: "PageId list \<Rightarrow> PageId \<Rightarrow> table_heap \<Rightarrow> table_heap" where
  "with_last ids i th = th\<lparr>th_first := (if ids = [] then i else th_first th), th_last := i\<rparr>"

lemma linked_chain:
  assumes "chain P s a ids" "distinct ids" "P i = None" "is_valid i"
  shows "chain (linked P ids i) s (if ids = [] then i else a) (ids @ [i])" "table_rows s (linked P ids i) ids = table_rows s P ids"
proof -
  have ni: "i \<notin> set ids" using assms(3) chain_page [OF assms(1)] by force
  have "chain (linked P ids i) s (if ids = [] then i else a) (ids @ [i]) \<and> table_rows s (linked P ids i) ids = table_rows s P ids"
  proof (cases "ids = []")
    case True
    then show ?thesis using assms(4) empty_page(1,2) by (simp add: linked_def is_valid_def)
  next
    case False
    then obtain d where d: "P (last ids) = Some d" "data_page s d" using chain_page [OF assms(1) last_in_set] by auto
    have x: "ids = butlast ids @ [last ids]" using False by simp
    have "table_rows s (P(i \<mapsto> empty_page, last ids \<mapsto> put64_at 8 i d)) ids = table_rows s (P(i \<mapsto> empty_page)) (butlast ids) @ page_rows s (last ids) (put64_at 8 i d)"
      using table_rows_replace [OF assms(2) x] by simp
    also have "table_rows s (P(i \<mapsto> empty_page)) (butlast ids) = table_rows s P (butlast ids)"
      by (rule table_rows_cong) (use ni in_set_butlastD in fastforce)
    also have "\<dots> @ page_rows s (last ids) (put64_at 8 i d) = table_rows s P (butlast ids @ [last ids])" using d by (simp add: link_page_rows(3))
    finally have "table_rows s (linked P ids i) ids = table_rows s P ids" unfolding linked_def using False d x by (simp only: if_False option.sel)
    then show ?thesis
      using False d chain_snoc [OF assms(1) ni assms(4) empty_page(1) _ assms(2) False d(1)] empty_page(2) by (simp add: linked_def is_valid_def)
  qed
  then show "chain (linked P ids i) s (if ids = [] then i else a) (ids @ [i])" "table_rows s (linked P ids i) ids = table_rows s P ids" by simp_all
qed

lemma linked_appended:
  assumes "heap_ok th P ids" "P i = None" "is_valid i" "P (th_meta th) = Some m"
  shows "linked P ids i (th_meta th) = Some m"
    "appended th P ids i (with_last ids i th) ((linked P ids i)(th_meta th \<mapsto> put64_at 16 i (put64_at 8 (th_first (with_last ids i th)) m)))"
proof -
  let ?m = "th_meta th" and ?th = "with_last ids i th" and ?L = "linked P ids i"
  have h: "meta_page th m" "chain P (th_schema th) (th_first th) ids" "distinct (?m # ids)" using assms(1,4) by (auto simp: heap_ok_def)
  have ni: "i \<noteq> ?m" "i \<notin> set ids" using assms(2,4) chain_page [OF h(2)] by force+
  have lm: "last ids \<noteq> ?m" if "ids \<noteq> []" using last_in_set [OF that] h(3) by auto
  then show "?L ?m = Some m" using ni assms(4) by (auto simp: linked_def)
  let ?P = "?L(?m \<mapsto> put64_at 16 i (put64_at 8 (th_first ?th) m))"
  note l = linked_chain [OF h(2) _ assms(2,3)]
  have agree: "j \<in> set (ids @ [i]) \<Longrightarrow> ?P j = ?L j" for j using h(3) ni by auto
  have "chain ?P (th_schema th) (th_first ?th) (ids @ [i])"
    using l(1) h(3) chain_cong [of "ids @ [i]" ?P ?L] agree by (simp add: with_last_def)
  then have ok: "heap_ok ?th ?P (ids @ [i])"
    using h(3) ni meta_page_update [OF h(1), of ?th "th_first ?th" i] by (auto simp: heap_ok_def with_last_def)
  have pi: "?P i = Some empty_page" using ni by (auto simp: linked_def)
  have "table_rows (th_schema th) ?P (ids @ [i]) = table_rows (th_schema th) ?L (ids @ [i])" by (rule table_rows_cong) (rule agree)
  also have "\<dots> = table_rows (th_schema th) P ids" using l(2) h(3) pi ni empty_page(3) by simp
  finally show "appended th P ids i ?th ?P" using ok pi by (auto simp: appended_def with_last_def linked_def)
qed

text \<open>What an insertion promises: the row is added at the end under a new address, and only pages of the table change.\<close>

definition row_added :: "table_heap \<Rightarrow> (PageId \<rightharpoonup> byte list) \<Rightarrow> PageId list \<Rightarrow> RecordId \<Rightarrow> Tuple \<Rightarrow> table_heap \<Rightarrow> (PageId \<rightharpoonup> byte list) \<Rightarrow> PageId list \<Rightarrow> bool" where
  "row_added th P ids rid t th' P' ids' \<longleftrightarrow> heap_ok th' P' ids' \<and> ids' \<in> {ids, ids @ [rid_page rid]} \<and> th_meta th' = th_meta th \<and> th_schema th' = th_schema th \<and>
     table_rows (th_schema th) P' ids' = table_rows (th_schema th) P ids @ [(rid, t)] \<and> rid \<notin> fst ` set (table_rows (th_schema th) P ids) \<and>
     (\<forall>j. j \<notin> set (th_meta th # ids') \<longrightarrow> P' j = P j)"

lemma put_row:
  assumes "heap_ok th P ids" "ids \<noteq> []" "P (last ids) = Some d" "serialize (th_schema th) t = Inr bs" "length bs + kSlot \<le> unat (free_space d)"
  shows "row_added th P ids \<lparr>rid_page = last ids, rid_slot = ucast (get16_at 16 d)\<rparr> t th (P(last ids \<mapsto> put_tuple bs d)) ids"
    "length (put_tuple bs d) = kPagePayloadSize"
proof -
  let ?s = "th_schema th" and ?rid = "\<lparr>rid_page = last ids, rid_slot = ucast (get16_at 16 d)\<rparr>" and ?P = "P(last ids \<mapsto> put_tuple bs d)"
  have c: "chain P ?s (th_first th) ids" "distinct ids" using assms(1) by (simp_all add: heap_ok_def)
  have d: "data_page ?s d" using chain_page [OF c(1) last_in_set [OF assms(2)]] assms(3) by auto
  note p = put_tuple_page [OF d assms(4,5)]
  have ok: "heap_ok th ?P ids" by (rule heap_ok_replace [OF assms(1) last_in_set [OF assms(2)] assms(3) p(1,2)])
  have x: "ids = butlast ids @ last ids # []" using assms(2) by simp
  have "table_rows ?s P (butlast ids @ [last ids]) = table_rows ?s P (butlast ids) @ page_rows ?s (last ids) d" using assms(3) by simp
  then have rows: "table_rows ?s ?P ids = table_rows ?s P ids @ [(?rid, t)]"
    using table_rows_replace [OF c(2) x, of ?s P "put_tuple bs d"] p(3) x by simp
  have "distinct (map fst (table_rows ?s ?P ids))" using ok by (auto simp: heap_ok_def intro: table_rows_distinct)
  then have "?rid \<notin> fst ` set (table_rows ?s P ids)" unfolding rows by auto
  with ok rows show "row_added th P ids ?rid t th ?P ids" using last_in_set [OF assms(2)] by (auto simp: row_added_def)
  show "length (put_tuple bs d) = kPagePayloadSize" by (rule data_pageD(1) [OF p(1)])
qed

lemma row_added_page:
  assumes "appended th P ids i th' P'" "row_added th' P' (ids @ [i]) rid t th' P'' (ids @ [i])" "rid_page rid = i"
  shows "row_added th P ids rid t th' P'' (ids @ [i])"
  using assms unfolding row_added_def appended_def by (simp del: table_rows_simps)

text \<open>What an erasure promises.\<close>

definition row_erased :: "table_heap \<Rightarrow> (PageId \<rightharpoonup> byte list) \<Rightarrow> PageId list \<Rightarrow> RecordId \<Rightarrow> (PageId \<rightharpoonup> byte list) \<Rightarrow> bool" where
  "row_erased th P ids r P' \<longleftrightarrow> heap_ok th P' ids \<and> table_rows (th_schema th) P' ids = filter (\<lambda>x. fst x \<noteq> r) (table_rows (th_schema th) P ids) \<and>
     (\<forall>j. j \<noteq> rid_page r \<longrightarrow> P' j = P j)"

lemma erase_row:
  assumes "heap_ok th P ids" "rid_page r \<in> set ids" "P (rid_page r) = Some d"
  shows "r \<in> fst ` set (table_rows (th_schema th) P ids) \<longleftrightarrow> unat (rid_slot r) < unat (get16_at 16 d) \<and> slot_live d (unat (rid_slot r))"
    "unat (rid_slot r) < unat (get16_at 16 d) \<Longrightarrow> row_erased th P ids r (P(rid_page r \<mapsto> put16_at (slot_pos (unat (rid_slot r)) + 4) 0 d))"
proof -
  let ?s = "th_schema th" and ?i = "rid_page r" and ?k = "unat (rid_slot r)"
  have c: "chain P ?s (th_first th) ids" "distinct ids" using assms(1) by (simp_all add: heap_ok_def)
  have d: "data_page ?s d" using chain_page [OF c(1) assms(2)] assms(3) by auto
  have "r \<in> fst ` set (table_rows ?s P ids) \<longleftrightarrow> (\<exists>t. (r, t) \<in> set (table_rows ?s P ids))" by force
  then show "r \<in> fst ` set (table_rows ?s P ids) \<longleftrightarrow> ?k < unat (get16_at 16 d) \<and> slot_live d ?k"
    using table_rows_member [OF c(2,1) assms(2,3)] data_pageD(8) [OF d, of ?k] by auto
  assume k: "?k < unat (get16_at 16 d)"
  let ?d = "put16_at (slot_pos ?k + 4) 0 d"
  note e = erase_page [OF d k]
  obtain xs ys where x: "ids = xs @ ?i # ys" using assms(2) by (meson split_list)
  have other: "filter (\<lambda>x. fst x \<noteq> r) (table_rows ?s P zs) = table_rows ?s P zs" if "?i \<notin> set zs" for zs
    using that table_rows_page [of _ _ ?s P zs] by (force intro: filter_True)
  have "x \<in> set (page_rows ?s ?i d) \<Longrightarrow> (unat (rid_slot (fst x)) \<noteq> ?k) = (fst x \<noteq> r)" for x
    using page_rows_rid [of "fst x" "snd x" ?s ?i d] by (cases x; cases "fst x"; cases r) (auto simp: word_unat_eq_iff)
  then have page: "page_rows ?s ?i ?d = filter (\<lambda>x. fst x \<noteq> r) (page_rows ?s ?i d)" unfolding e(3) by (rule filter_cong [OF refl])
  have "?i \<notin> set xs" "?i \<notin> set ys" using c(2) unfolding x by auto
  then have "table_rows ?s (P(?i \<mapsto> ?d)) ids = filter (\<lambda>x. fst x \<noteq> r) (table_rows ?s P ids)"
    unfolding table_rows_replace [OF c(2) x] using other [of xs] other [of ys] assms(3) page by (subst x) simp
  then show "row_erased th P ids r (P(?i \<mapsto> ?d))" using heap_ok_replace [OF assms(1,2,3) e(1,2)] by (simp add: row_erased_def)
qed

lemma meta_init_page:
  assumes "length d = kPagePayloadSize"
  shows "length (meta_init d) = kPagePayloadSize" "meta_page \<lparr>th_meta = i, th_schema = s, th_first = kInvalidValue, th_last = kInvalidValue\<rparr> (meta_init d)"
  using assms by (simp_all add: meta_page_def meta_init_def has_magic_def page_fields kMetaMagic_def table_sizes)

section \<open>Reads\<close>

context page_reader
begin

lemma release_then:
  assumes "held i f P w" "\<And>w1. st P w1 \<Longrightarrow> wp (k ()) Q E w1"
  shows "wp (bindE (release i False) k) Q E w"
  unfolding release_def wp_bindE wp_require
  by (rule wp_mono [OF unpin_law [OF assms(1)]]) (use assms(2) in auto)

text \<open>A read that depends on the payload only.\<close>

lemma read_then:
  assumes "st P w" "P i = Some x"
    and "\<And>f w1. held i f P w1 \<Longrightarrow> wp (g x) Q (\<lambda>_ w'. lenient \<and> st P w') w1"
    and "\<And>w1. lenient \<Longrightarrow> st P w1 \<Longrightarrow> wp n Q (\<lambda>_ w'. lenient \<and> st P w') w1"
  shows "wp (bindE (on_pool (fetch_page i)) (\<lambda>r. case r of None \<Rightarrow> n | Some f \<Rightarrow> bindE (gets (payload_at f)) g)) Q (\<lambda>_ w'. lenient \<and> st P w') w"
  by (rule fetch_then [OF assms(1,2)]) (use assms(3,4) in \<open>auto simp: wp_bindE wp_gets\<close>)

lemma scan_pages_reads:
  assumes "st P w" "chain P s i ids" "length ids \<le> fuel"
  shows "wp (scan_pages s fuel i) (\<lambda>r w'. st P w' \<and> r = Some (table_rows s P ids)) (\<lambda>_ w'. lenient \<and> st P w') w"
  using assms
proof (induction ids arbitrary: i fuel w)
  case Nil
  then show ?case by (simp add: scan_pages.simps [of s fuel] wp_ret)
next
  case (Cons j js)
  then obtain d fuel' where d: "i = j" "is_valid j" "P j = Some d" "data_page s d" "chain P s (get64_at 8 d) js" "fuel = Suc fuel'" "length js \<le> fuel'"
    by (cases fuel) auto
  have m: "has_magic d kDataMagic" and valid: "\<not> \<not> is_valid j" using data_pageD(2) [OF d(4)] d(2) by simp_all
  show ?case
    unfolding d(1,6) scan_pages.simps [of s "Suc fuel'"] nat.case if_not_P [OF valid]
  proof (rule read_then [OF Cons.prems(1) d(3)], goal_cases)
    case (1 f w1)
    then show ?case
      using m d(3)
      by (simp add: scan_slots_page [OF d(4)]) (erule release_then, erule wp_seq [OF Cons.IH [OF _ d(5,7)]], simp add: wp_ret)
  qed (simp add: wp_throw)
qed

lemma validate_pages_reads:
  assumes "st P w" "chain P s i ids" "length ids \<le> fuel"
  shows "wp (validate_pages s fuel i) (\<lambda>r w'. st P w' \<and> (r = Some True \<or> lenient \<and> r = Some False)) (\<lambda>_ w'. lenient \<and> st P w') w"
  using assms
proof (induction ids arbitrary: i fuel w)
  case Nil
  then show ?case by (simp add: validate_pages.simps [of s fuel] wp_ret)
next
  case (Cons j js)
  then obtain d fuel' where d: "i = j" "is_valid j" "P j = Some d" "data_page s d" "chain P s (get64_at 8 d) js" "fuel = Suc fuel'" "length js \<le> fuel'"
    by (cases fuel) auto
  have m: "has_magic d kDataMagic" "page_valid s d" and valid: "\<not> \<not> is_valid j" using d(2,4) by (simp_all add: data_page_def)
  show ?case
    unfolding d(1,6) validate_pages.simps [of s "Suc fuel'"] nat.case if_not_P [OF valid]
  proof (rule read_then [OF Cons.prems(1) d(3)], goal_cases)
    case (1 f w1)
    then show ?case by (rule release_then) (use Cons.IH [OF _ d(5,7)] m in simp)
  qed (simp add: wp_ret)
qed

lemma open_table_reads:
  assumes "st P w" "heap_ok th P ids"
  shows "wp (open_table (th_meta th) (th_schema th)) (\<lambda>x w'. st P w' \<and> x = th) (\<lambda>_ w'. lenient \<and> st P w') w"
proof -
  obtain m where m: "P (th_meta th) = Some m" "meta_page th m" using assms(2) by (auto simp: heap_ok_def)
  then have f: "has_magic m kMetaMagic" "get64_at 8 m = th_first th" "get64_at 16 m = th_last th" by (simp_all add: meta_page_def)
  show ?thesis
    unfolding open_table_def
  proof (rule read_then [OF assms(1) m(1)], goal_cases)
    case (1 g w1)
    then show ?case using f by (auto simp: wp_ret elim!: release_then)
  qed (simp add: wp_throw)
qed

lemma get_tuple_reads:
  assumes "st P w" "heap_ok th P ids" "rid_page r \<in> set ids"
  shows "wp (get_tuple th r) (\<lambda>x w'. st P w' \<and> (x = map_of (table_rows (th_schema th) P ids) r \<or> lenient \<and> x = None))
     (\<lambda>_ w'. lenient \<and> st P w') w"
proof -
  let ?s = "th_schema th" and ?k = "unat (rid_slot r)"
  have c: "chain P ?s (th_first th) ids" "distinct ids" using assms(2) by (simp_all add: heap_ok_def)
  then obtain d where d: "P (rid_page r) = Some d" "data_page ?s d" "is_valid (rid_page r)" using chain_page assms(3) by blast
  note dp = data_pageD [OF d(2)]
  have row: "map_of (table_rows ?s P ids) r = (if ?k < unat (get16_at 16 d) \<and> slot_live d ?k then row_at ?s d ?k else None)" (is "_ = ?row")
  proof -
    have "map_of (table_rows ?s P ids) r = Some t \<longleftrightarrow> ?row = Some t" for t
      using table_rows_member [OF c(2,1) assms(3) d(1), of t] table_rows_distinct [OF c] by (auto simp: map_of_eq_Some_iff)
    then show ?thesis by (metis not_Some_eq)
  qed
  have b: "\<not> kPagePayloadSize < unat (slot_offset d ?k) + unat (slot_length d ?k)" if "?k < unat (get16_at 16 d)" "slot_live d ?k"
    using dp(7) [OF that] by simp
  have valid: "\<not> \<not> is_valid (rid_page r)" using d(3) by simp
  show ?thesis
    unfolding get_tuple_def Let_def row if_not_P [OF valid]
  proof (rule read_then [OF assms(1) d(1)], goal_cases)
    case (1 f w1)
    then show ?case using dp(2) b by (auto simp: wp_if wp_ret row_at_def not_le not_less elim!: release_then)
  qed (simp add: wp_ret)
qed

end

end
