(* ===== verification/TableUpdates.thy ===== *)
theory TableUpdates
  imports TableSpec
begin

text \<open>
  The updates of the table heap on any page writer: creating a table, inserting and erasing a row.
\<close>

context page_writer
begin

lemma change_then_release:
  assumes "held i f P w" "P i = Some d" "length (g d) = kPagePayloadSize"
    and "\<And>w'. st (P(i \<mapsto> g d)) w' \<Longrightarrow> wp (k d) Q E w'" and "\<And>e w'. lenient \<Longrightarrow> E e w'"
  shows "wp (bindE (change_payload mode i f g) (\<lambda>old. bindE (release i True) (\<lambda>_. k old))) Q E w"
proof -
  have "wp (bindE (change_payload mode i f g) (\<lambda>old. bindE (on_pool (unpin_page i True)) (\<lambda>b. bindE (require b (RuntimeError Unpin_failed)) (\<lambda>_. k old)))) Q E w"
    by (rule change_then [where g = g, OF assms(1-3)]) (simp_all add: wp_bindE wp_require assms(4,5))
  then show ?thesis by (simp add: release_def wp_bindE wp_funs)
qed

text \<open>Fetching a page that exists and changing its payload.\<close>

lemma update_page:
  assumes "st P w" "P i = Some d" "length (g d) = kPagePayloadSize"
    and "\<And>w'. st (P(i \<mapsto> g d)) w' \<Longrightarrow> wp k Q E w'" and "\<And>e w'. lenient \<Longrightarrow> E e w'"
  shows "wp (bindE (on_pool (fetch_page i)) (\<lambda>r. case r of None \<Rightarrow> throw e
     | Some f \<Rightarrow> bindE (change_payload mode i f g) (\<lambda>_. bindE (release i True) (\<lambda>_. k)))) Q E w"
  by (rule fetch_update [OF assms(1,2)])
    (auto simp: wp_throw intro!: change_then_release [where g = g and k = "\<lambda>_. k"] assms)

lemma write_metadata_spec:
  assumes "st P w" "P (th_meta th) = Some m"
  shows "wp (write_metadata mode th) (\<lambda>_. st (P(th_meta th \<mapsto> put64_at 16 (th_last th) (put64_at 8 (th_first th) m)))) stopped w"
proof -
  have "length m = kPagePayloadSize" using length_law assms by blast
  then show ?thesis
    unfolding write_metadata_def using update_page [where k = "ret ()" and g = "\<lambda>d. put64_at 16 (th_last th) (put64_at 8 (th_first th) d)", OF assms]
    by (simp add: bind_ret wp_ret)
qed

lemma link_page_spec:
  assumes "st P w" "P prev = Some d"
  shows "wp (link_page mode prev i) (\<lambda>_. st (P(prev \<mapsto> put64_at 8 i d))) stopped w"
proof -
  have "length d = kPagePayloadSize" using length_law assms by blast
  then show ?thesis
    unfolding link_page_def using update_page [where k = "ret ()" and g = "put64_at 8 i", OF assms] by (simp add: bind_ret wp_ret)
qed

lemma start_page_spec:
  assumes "st P w"
  shows "wp (start_page mode) (\<lambda>i w'. P i = None \<and> is_valid i \<and> st (P(i \<mapsto> empty_page)) w') stopped w"
  unfolding start_page_def
proof (rule allocate_then [OF assms], goal_cases)
  case (1 i w1)
  have len: "length empty_page = kPagePayloadSize" using data_pageD(1) [OF empty_page(1)] .
  show ?case
    by (rule update_page [where k = "ret i" and P = "P(i \<mapsto> replicate kPagePayloadSize 0)"]) (use 1 len in \<open>auto simp: wp_ret empty_page_def\<close>)
qed

lemma append_page_spec:
  assumes "st P w" "heap_ok th P ids"
  shows "wp (append_page mode) (\<lambda>(i, f) (th', w'). \<exists>P'. held i f P' w' \<and> appended th P ids i th' P') (\<lambda>e s. stopped e (snd s)) (th, w)"
proof -
  obtain m where m: "P (th_meta th) = Some m" using assms(2) by (auto simp: heap_ok_def)
  have page: "ids \<noteq> [] \<Longrightarrow> \<exists>d. P (last ids) = Some d \<and> is_valid (last ids)" using assms(2) chain_page [of P _ _ ids "last ids"] by (fastforce simp: heap_ok_def)
  have last: "is_valid (th_last th) \<longleftrightarrow> ids \<noteq> []" "ids \<noteq> [] \<Longrightarrow> th_last th = last ids"
    using assms(2) page by (auto simp: heap_ok_def is_valid_def)
  have tail: "wp (bindE (gets fst) (\<lambda>th. bindE (in_world (write_metadata mode th)) (\<lambda>_. bindE (in_world (on_pool (fetch_page i))) (\<lambda>r.
      case r of None \<Rightarrow> throw (RuntimeError Cannot_repin_new_data_page) | Some f \<Rightarrow> ret (i, f)))))
      (\<lambda>(i, f) (th', w'). \<exists>P'. held i f P' w' \<and> appended th P ids i th' P') (\<lambda>e s. stopped e (snd s)) (with_last ids i th, w2)"
    if i: "P i = None" "is_valid i" "st (linked P ids i) w2" for i w2
  proof -
    let ?th = "with_last ids i th" let ?P = "(linked P ids i)(th_meta th \<mapsto> put64_at 16 i (put64_at 8 (th_first ?th) m))"
    note l = linked_appended [OF assms(2) i(1,2) m]
    have "wp (write_metadata mode ?th) (\<lambda>_. st ?P) stopped w2"
      using write_metadata_spec [where th = ?th, OF i(3)] l(1) by (simp add: with_last_def)
    then show ?thesis
      unfolding wp_bindE wp_gets fst_conv wp_in_world snd_conv
    proof (rule wp_mono, goal_cases)
      case (1 u w3)
      have "?P i = Some empty_page" using l(2) by (simp add: appended_def)
      from fetch_law [OF 1 this] show ?case
        unfolding wp_bindE wp_in_world fst_conv snd_conv by (rule wp_mono) (use l(2) in \<open>auto simp: wp_throw wp_ret split: option.split\<close>)
    qed simp
  qed
  show ?thesis
    unfolding append_page_def wp_bindE [of "in_world (start_page mode)"] wp_in_world fst_conv snd_conv
  proof (rule wp_mono [OF start_page_spec [OF assms(1)]], goal_cases)
    case (1 i w1)
    show ?case
    proof (cases "ids = []")
      case True
      then show ?thesis
        using 1 tail [of i w1] last by (simp add: wp_bindE wp_gets upd_table_def wp_modify wp_funs with_last_def linked_def)
    next
      case False
      then obtain d where d: "P (last ids) = Some d" using page by auto
      have "last ids \<noteq> i" using d 1 by auto
      then have "wp (link_page mode (last ids) i) (\<lambda>_. st (linked P ids i)) stopped w1"
        using link_page_spec [of "P(i \<mapsto> empty_page)" w1 "last ids" d i] 1 d False by (simp add: linked_def)
      then show ?thesis
        using False 1 tail [of i] last
        by (simp add: wp_bindE [of "gets fst"] wp_bindE [of "in_world (link_page _ _ _)"] wp_gets wp_in_world)
          (erule wp_mono, simp_all add: wp_bindE [of "modify _"] wp_bindE [of "gets _"] upd_table_def wp_modify wp_gets with_last_def)
    qed
  qed simp
qed

lemma tail_page_spec:
  assumes "st P w" "heap_ok th P ids"
  shows "wp (tail_page th n) (\<lambda>r w'. case r of None \<Rightarrow> st P w'
     | Some (i, f) \<Rightarrow> held i f P w' \<and> ids \<noteq> [] \<and> i = last ids \<and> (\<exists>d. P i = Some d \<and> n + kSlot \<le> unat (free_space d))) stopped w"
proof (cases "ids = []")
  case True
  then show ?thesis using assms by (simp add: tail_page_def heap_ok_def wp_ret is_valid_def)
next
  case False
  then have last: "th_last th = last ids" using assms(2) by (simp add: heap_ok_def)
  obtain d where d: "P (last ids) = Some d" "is_valid (last ids)" using False assms(2) chain_page [of P _ _ ids "last ids"] by (fastforce simp: heap_ok_def)
  show ?thesis
    unfolding tail_page_def last using d(2) False
    by (simp) (rule fetch_update [OF assms(1) d(1)],
      use assms(1) d(1) in \<open>auto simp: wp_ret wp_if wp_bindE [of "gets _"] wp_gets elim!: release_then\<close>)
qed

lemma insert_tuple_spec:
  assumes "st P w" "heap_ok th P ids"
  shows "wp (insert_tuple mode t) (\<lambda>r (th', w'). case r of
       None \<Rightarrow> th' = th \<and> st P w' \<and> (\<exists>bs. serialize (th_schema th) t = Inr bs \<and> kPagePayloadSize < length bs + kHeader + kSlot)
     | Some rid \<Rightarrow> \<exists>P' ids'. st P' w' \<and> row_added th P ids rid t th' P' ids')
     (\<lambda>e s. stopped e (snd s) \<or> serialize (th_schema th) t = Inl e) (th, w)"
    (is "wp _ ?Q _ _")
proof -
  let ?E = "\<lambda>e s. stopped e (snd s)"
  have put: "wp (in_world (bindE (change_payload mode i f (put_tuple bs)) (\<lambda>d. bindE (release i True) (\<lambda>_. ret (Some \<lparr>rid_page = i, rid_slot = ucast (get16_at 16 d)\<rparr>)))))
      ?Q ?E (th', w')"
    if "held i f P' w'" "P' i = Some d" "length (put_tuple bs d) = kPagePayloadSize"
      "\<exists>ids'. row_added th P ids \<lparr>rid_page = i, rid_slot = ucast (get16_at 16 d)\<rparr> t th' (P'(i \<mapsto> put_tuple bs d)) ids'" for i f P' d th' w' bs
    unfolding wp_in_world fst_conv snd_conv
    by (rule change_then_release [where g = "put_tuple bs", OF that(1,2)])
      (use that(3,4) in \<open>auto simp: wp_ret\<close>)
  have main: "wp (insert_impl mode t) ?Q (\<lambda>e s. ?E e s \<or> serialize (th_schema th) t = Inl e) (th, w1)" if w1: "st P w1" for w1
  proof (cases "serialize (th_schema th) t")
    case (Inl e)
    then show ?thesis by (simp add: insert_impl_def wp_bindE wp_gets wp_lift_result)
  next
    case (Inr bs)
    show ?thesis
    proof (cases "kPagePayloadSize < length bs + kHeader + kSlot")
      case True
      then show ?thesis using Inr w1 by (simp add: insert_impl_def wp_bindE wp_gets wp_lift_result wp_if wp_ret)
    next
      case False
      have rest: "wp (bindE (case r of None \<Rightarrow> append_page mode | Some x \<Rightarrow> ret x) (\<lambda>(i, f). in_world (bindE (change_payload mode i f (put_tuple bs))
          (\<lambda>d. bindE (release i True) (\<lambda>_. ret (Some \<lparr>rid_page = i, rid_slot = ucast (get16_at 16 d)\<rparr>)))))) ?Q ?E (th, w2)"
        if r: "case r of None \<Rightarrow> st P w2 | Some (i, f) \<Rightarrow> held i f P w2 \<and> ids \<noteq> [] \<and> i = last ids \<and> (\<exists>d. P i = Some d \<and> length bs + kSlot \<le> unat (free_space d))" for r w2
      proof (cases r)
        case None
        then have w2: "st P w2" using r by simp
        show ?thesis
          unfolding None option.case
        proof (rule wp_seq [OF append_page_spec [OF w2 assms(2)]], clarsimp, goal_cases)
          case (1 i f th' w' P')
          then have h: "heap_ok th' P' (ids @ [i])" "P' i = Some empty_page" "th_schema th' = th_schema th" by (simp_all add: appended_def)
          have fit: "length bs + kSlot \<le> unat (free_space empty_page)" using False empty_page(4) by (simp add: table_sizes)
          note r = put_row [OF h(1) _ _ _ fit, of t, unfolded h(3), OF _ _ Inr]
          have r: "row_added th' P' (ids @ [i]) \<lparr>rid_page = i, rid_slot = ucast (get16_at 16 empty_page)\<rparr> t th' (P'(i \<mapsto> put_tuple bs empty_page)) (ids @ [i])"
            "length (put_tuple bs empty_page) = kPagePayloadSize" using r h(2) by simp_all
          from row_added_page [OF 1(2) r(1)] show ?case by (intro put [OF 1(1) h(2) r(2)]) auto
        qed
      next
        case (Some x)
        then obtain i f d where x: "x = (i, f)" "held i f P w2" "ids \<noteq> []" "i = last ids" "P i = Some d" "length bs + kSlot \<le> unat (free_space d)"
          using r by (cases x) auto
        note r = put_row [OF assms(2) x(3) _ Inr x(6)]
        show ?thesis
          unfolding Some option.case wp_bindE wp_ret x(1) prod.case
          by (rule put [OF x(2,5)]) (use r x(4,5) in auto)
      qed
      have "wp (tail_page th (length bs)) (\<lambda>r w2. wp (bindE (case r of None \<Rightarrow> append_page mode | Some x \<Rightarrow> ret x) (\<lambda>(i, f). in_world (bindE (change_payload mode i f (put_tuple bs))
          (\<lambda>d. bindE (release i True) (\<lambda>_. ret (Some \<lparr>rid_page = i, rid_slot = ucast (get16_at 16 d)\<rparr>)))))) ?Q ?E (th, w2)) stopped w1"
        by (rule wp_mono [OF tail_page_spec [OF w1 assms(2)]]) (rule rest)
      then show ?thesis
        using Inr False
        by (simp add: insert_impl_def wp_bindE [of "gets fst"] wp_gets wp_bindE [of "lift_result _"] wp_lift_result wp_bindE [of "in_world (tail_page _ _)"] wp_in_world)
    qed
  qed
  show ?thesis
    unfolding insert_tuple_def wp_bindE wp_in_world fst_conv snd_conv
    by (rule wp_mono [OF enter_law [OF assms(1)]]) (use main in auto)
qed

text \<open>An erasure removes exactly the row at the address, and only its page changes.\<close>

lemma erase_tuple_spec:
  assumes "st P w" "heap_ok th P ids" "rid_page r \<in> set ids"
  shows "wp (erase_tuple mode r) (\<lambda>b w'. \<exists>P'. st P' w' \<and> (if b then row_erased th P ids r P' else P' = P) \<and>
     (lenient \<and> \<not> b \<or> b = (r \<in> fst ` set (table_rows (th_schema th) P ids)))) (\<lambda>_ _. lenient) w"
    (is "wp _ ?Q _ _")
proof -
  let ?i = "rid_page r" and ?k = "unat (rid_slot r)"
  from assms(2,3) obtain d where d: "P ?i = Some d" "data_page (th_schema th) d" using chain_page by (fastforce simp: heap_ok_def)
  note e = erase_row [OF assms(2,3) d(1)]
  have main: "wp (erase_impl mode r) ?Q (\<lambda>_ _. lenient) w1" if "st P w1" for w1
    unfolding erase_impl_def
  proof (rule fetch_update [OF that d(1)], goal_cases)
    case (1 f w2)
    note change = change_then_release [where g = "put16_at (slot_pos ?k + 4) 0" and k = "\<lambda>_. ret True", OF 1(1) d(1)]
    have m: "has_magic d kDataMagic" "payload_at f w2 = d" using data_pageD(2) [OF d(2)] 1(2) by simp_all
    show ?case
    proof (cases "?k < unat (get16_at 16 d) \<and> slot_live d ?k")
      case False
      then have "r \<notin> fst ` set (table_rows (th_schema th) P ids)" using e(1) by simp
      then have "wp (bindE (release ?i False) (\<lambda>_. ret False)) ?Q (\<lambda>_ _. lenient) w2" by (intro release_then [OF 1(1)]) (simp add: wp_ret)
      with False m show ?thesis by (auto simp: wp_bindE [of "gets _"] wp_gets Let_def wp_if not_le)
    next
      case True
      have "wp (bindE (change_payload mode ?i f (put16_at (slot_pos ?k + 4) 0)) (\<lambda>_. bindE (release ?i True) (\<lambda>_. ret True))) ?Q (\<lambda>_ _. lenient) w2"
        by (rule change) (use True e data_pageD(1) [OF d(2)] in \<open>auto simp: wp_ret simp del: fun_upd_apply\<close>)
      with True m show ?thesis by (simp add: wp_bindE [of "gets _"] wp_gets Let_def wp_if not_le)
    qed
  qed (auto simp: wp_ret)
  show ?thesis
    unfolding erase_tuple_def by (rule enter_then [OF assms(1)]) (rule main)
qed

lemma create_table_spec:
  assumes "st P w" "s \<noteq> []"
  shows "wp (create_table mode s) (\<lambda>i w'. \<exists>m. P i = None \<and> st (P(i \<mapsto> m)) w' \<and>
     heap_ok \<lparr>th_meta = i, th_schema = s, th_first = kInvalidValue, th_last = kInvalidValue\<rparr> (P(i \<mapsto> m)) []) stopped w"
  unfolding create_table_def wp_bindE [of "require _ _"] wp_require if_P [OF assms(2)]
proof (rule allocate_then [OF assms(1)], goal_cases)
  case (1 i w1)
  note i = 1
  let ?z = "replicate kPagePayloadSize 0"
  have p: "(P(i \<mapsto> ?z)) i = Some ?z" by simp
  note m = meta_init_page [of ?z, simplified]
  show ?case
  proof (rule fetch_update [OF i(3) p], goal_cases)
    case (1 f w2)
    show ?case
      unfolding option.case
    proof (rule enter_held_then [OF 1(1)], rule change_then_release [where g = meta_init and k = "\<lambda>_. ret i" and P = "P(i \<mapsto> ?z)", OF _ p m(1)], assumption, goal_cases)
      case (1 w3 w4)
      then show ?case using i m(2) [of i s] by (auto simp: wp_ret heap_ok_def is_valid_def)
    qed simp
  qed (simp_all add: wp_throw)
qed

end

end
