(* ===== verification/TableProperties.thy ===== *)
theory TableProperties
  imports TableUpdates TransactionProperties
begin

text \<open>
  The properties of the table heap: every update is an update of a list of rows, and in a quiet world the reads return the rows
  and the updates return as well.
\<close>

section \<open>An example table\<close>

text \<open>A database of one page that holds the metadata of an empty table with one string column.\<close>

definition overwrite_payload :: "PageId \<Rightarrow> (byte list \<Rightarrow> byte list) \<Rightarrow> (world, unit) op" where
  "overwrite_payload i g =
     bindE (on_pool (fetch_page i)) (\<lambda>r.
     case r of
       None \<Rightarrow> ret ()
     | Some f \<Rightarrow> bindE (change_payload NoMutations i f g) (\<lambda>_. bindE (on_pool (unpin_page i True)) (\<lambda>_. ret ())))"

lemma quiet_overwrite:
  assumes "quiet d P w" "P i = Some x" "length (g x) = kPagePayloadSize"
  shows "wp (overwrite_payload i g) (\<lambda>_. quiet d (P(i \<mapsto> g x))) (\<lambda>_ _. False) w"
  unfolding overwrite_payload_def
proof (rule quiet_reader.fetch_then [OF assms(1,2)], goal_cases)
  case (1 f w1)
  show ?case
    unfolding option.case
    by (rule wp_seq [OF quiet_change [where g = g, OF 1(1) assms(2,3)]]) (auto simp: wp_ret simp del: fun_upd_apply intro: wp_seq [OF quiet_unpin_changed])
qed simp_all

definition example_schema :: Schema where
  "example_schema = [\<lparr>col_name = ''name'', col_type = String\<rparr>]"

definition example_table :: table_heap where
  "example_table = \<lparr>th_meta = 0, th_schema = example_schema, th_first = kInvalidValue, th_last = kInvalidValue\<rparr>"

definition quiet_world :: world where
  "quiet_world = example_world one_page_pool"

definition table_world :: world where
  "table_world = snd (overwrite_payload 0 meta_init quiet_world)"

definition table_payloads :: "PageId \<rightharpoonup> byte list" where
  "table_payloads = [0 \<mapsto> meta_init (replicate kPagePayloadSize 0)]"

lemma quiet_world_ok: "quiet 0 [0 \<mapsto> replicate kPagePayloadSize 0] quiet_world"
proof -
  have "pool_view (cs_pool quiet_world) = [0 \<mapsto> new_page 0]"
    by (simp add: quiet_world_def example_world_def one_page_pool_def one_page_database)
  moreover have "pool_ready 0 (cs_pool quiet_world)"
    using new_pool_cache [OF one_page_database_good(1)] one_page_database_good(2) calculation
    by (auto simp: pool_ready_def quiet_world_def example_world_def one_page_pool_def undisturbed_def residents_def new_page_def)
      (auto simp: new_pool_def pool_pins_def pin_count_def find_frame_def)
  ultimately show ?thesis by (auto simp: quiet_def payloads_def new_page_def fun_eq_iff)
qed

lemma table_world_ok: "quiet 0 table_payloads table_world" "heap_ok example_table table_payloads []"
proof -
  note m = meta_init_page [of "replicate kPagePayloadSize 0", simplified]
  have "wp (overwrite_payload 0 meta_init) (\<lambda>_. quiet 0 table_payloads) (\<lambda>_ _. False) quiet_world"
    using quiet_overwrite [where g = meta_init and i = 0, OF quiet_world_ok _ m(1)] by (simp add: table_payloads_def)
  then show "quiet 0 table_payloads table_world" using wp_returnsD unfolding table_world_def by fastforce
  show "heap_ok example_table table_payloads []" using m(2) [of 0] by (simp add: heap_ok_def example_table_def table_payloads_def is_valid_def)
qed

section \<open>Properties\<close>

text \<open>C39: Types of rows. serialize accepts a tuple exactly if its values have the types of the columns; any place of a page the bytes are copied to
  reads back as the same tuple; and whatever deserialize accepts, on any bytes, has the types of the columns, so comparisons
  of a column of two rows never throw.\<close>

theorem tuple_types:
  "((\<exists>bs. serialize s t = Inr bs) \<longleftrightarrow> validates s t) \<and>
   (\<forall>bs p d. serialize s t = Inr bs \<and> length bs < 2 ^ 32 \<and> segment p (length bs) d = bs \<longrightarrow> deserialize s (drop p d) (length bs) = Some t) \<and>
   (\<forall>d n u d' n' u' k. deserialize s d n = Some u \<and> deserialize s d' n' = Some u' \<and> k < length s \<longrightarrow>
      validates s u \<and> (\<exists>c. compare_values (u ! k) (u' ! k) = Inr c))"
proof (intro conjI allI impI; (elim conjE)?)
  show "(\<exists>bs. serialize s t = Inr bs) \<longleftrightarrow> validates s t" by (simp add: serialize_def)
  show "deserialize s (drop p d) (length bs) = Some t" if "serialize s t = Inr bs" "length bs < 2 ^ 32" "segment p (length bs) d = bs" for bs p d
    by (rule deserialize_serialize [OF that])
  fix d n u d' n' u' k
  assume u: "deserialize s d n = Some u" "deserialize s d' n' = Some u'" "k < length s"
  then have v: "validates s u" "validates s u'" by (auto simp: deserialize_def dest: deserialize_from_validates)
  then show "validates s u" by simp
  show "\<exists>c. compare_values (u ! k) (u' ! k) = Inr c" 
  proof -
    have "value_type (u ! k) = value_type (u' ! k)" using v u(3) by (simp add: validates_def)
    then show ?thesis by (cases "u ! k"; cases "u' ! k") simp_all
  qed
qed

theorem tuple_types_witness:
  "serialize example_schema [StringV [104, 105]] = Inr (put32 2 @ [104, 105]) \<and> deserialize example_schema (put32 2 @ [104, 105]) 6 = Some [StringV [104, 105]]"
proof -
  have s: "serialize example_schema [StringV [104, 105]] = Inr (put32 2 @ [104, 105])" by (simp add: example_schema_def serialize_def validates_def)
  then have "deserialize example_schema (drop 0 (put32 2 @ [104, 105])) (length (put32 2 @ [104, 105])) = Some [StringV [104, 105]]"
    using conjunct1 [OF conjunct2 [OF tuple_types], rule_format, of example_schema "[StringV [104, 105]]" "put32 2 @ [104, 105]" 0 "put32 2 @ [104, 105]"]
    by (simp add: segment_def)
  with s show ?thesis by simp
qed





end
