(* ===== verification/BPlusTree.thy ===== *)
theory BPlusTree
  imports PageAccess
begin

text \<open>
  The B+ tree (\<^verbatim>\<open>src/src/index/bplus_tree.cpp\<close>): an index from 64-bit keys to addresses of rows whose nodes are pages.

  The state of an operation that changes the object is the object together with the world; \<open>mode\<close> is the value of its two
  pointers during the call. The walks down the tree, up to the root and along the leaves need not end on pages that are not
  a tree, so they take a number of steps; \<open>Diverges\<close> means that it was not enough. \<^verbatim>\<open>std::upper_bound\<close>
  and \<^verbatim>\<open>std::lower_bound\<close> are modelled on sorted keys, which is their precondition.
\<close>

section \<open>Nodes\<close>

type_synonym KeyType = uint64

definition key_less :: "KeyType \<Rightarrow> KeyType \<Rightarrow> bool" where
  "key_less a b \<longleftrightarrow> sint a < sint b"

record BPlusTreeConfig =
  leaf_max_keys :: uint16
  internal_max_keys :: uint16

record Node =
  nd_leaf :: bool
  nd_parent :: PageId
  nd_next :: PageId
  nd_keys :: "KeyType list"
  nd_values :: "RecordId list"
  nd_children :: "PageId list"

definition empty_node :: Node where
  "empty_node = \<lparr>nd_leaf = True, nd_parent = kInvalidValue, nd_next = kInvalidValue, nd_keys = [], nd_values = [], nd_children = []\<rparr>"

definition kNodeHeaderSize :: nat where "kNodeHeaderSize = 32"
definition kLeafEntrySize :: nat where "kLeafEntrySize = 20"
definition kInternalEntrySize :: nat where "kInternalEntrySize = 16"
definition kMetadataMagic :: "byte list" where "kMetadataMagic = [0x44, 0x44, 0x42, 0x42, 0x50, 0x54, 0x33, 0]"

definition max_keys :: "BPlusTreeConfig \<Rightarrow> bool \<Rightarrow> nat" where
  "max_keys cfg leaf = unat (if leaf then leaf_max_keys cfg else internal_max_keys cfg)"

definition metadata_image :: "PageId \<Rightarrow> BPlusTreeConfig \<Rightarrow> byte list \<Rightarrow> byte list" where
  "metadata_image root cfg d = put16_at 18 (internal_max_keys cfg) (put16_at 16 (leaf_max_keys cfg) (put64_at 8 root
     (splice_at 0 kMetadataMagic (replicate (length d) 0))))"

fun put_leaf_entries :: "nat \<Rightarrow> KeyType list \<Rightarrow> RecordId list \<Rightarrow> byte list \<Rightarrow> byte list" where
  "put_leaf_entries i (k # ks) (v # vs) d =
     (let at = kNodeHeaderSize + i * kLeafEntrySize in
      put_leaf_entries (Suc i) ks vs (put32_at (at + 16) (rid_slot v) (put64_at (at + 8) (rid_page v) (put64_at at k d))))"
| "put_leaf_entries i _ _ d = d"

fun put_internal_entries :: "nat \<Rightarrow> KeyType list \<Rightarrow> PageId list \<Rightarrow> byte list \<Rightarrow> byte list" where
  "put_internal_entries i (k # ks) (c # cs) d =
     (let at = kNodeHeaderSize + 8 + i * kInternalEntrySize in
      put_internal_entries (Suc i) ks cs (put64_at (at + 8) c (put64_at at k d)))"
| "put_internal_entries i _ _ d = d"

definition encode_node :: "Node \<Rightarrow> byte list \<Rightarrow> byte list" where
  "encode_node n d =
     (let h = put16_at 20 (of_nat (length (nd_keys n))) (put64_at 12 (nd_next n) (put64_at 4 (nd_parent n)
        ((replicate (length d) 0)[0 := (if nd_leaf n then 1 else 2)]))) in
      if nd_leaf n then put_leaf_entries 0 (nd_keys n) (nd_values n) h
      else put_internal_entries 0 (nd_keys n) (tl (nd_children n)) (put64_at kNodeHeaderSize (hd (nd_children n)) h))"

definition node_count :: "byte list \<Rightarrow> nat" where
  "node_count d = unat (get16_at 20 d)"

definition decode_node :: "byte list \<Rightarrow> Node" where
  "decode_node d =
     (let leaf = d ! 0 = 1; is = [0..<node_count d] in
      \<lparr>nd_leaf = leaf, nd_parent = get64_at 4 d, nd_next = get64_at 12 d,
       nd_keys = map (\<lambda>i. get64_at (if leaf then kNodeHeaderSize + i * kLeafEntrySize else kNodeHeaderSize + 8 + i * kInternalEntrySize) d) is,
       nd_values = (if leaf then map (\<lambda>i. let at = kNodeHeaderSize + i * kLeafEntrySize in
         \<lparr>rid_page = get64_at (at + 8) d, rid_slot = get32_at (at + 16) d\<rparr>) is else []),
       nd_children = (if leaf then [] else get64_at kNodeHeaderSize d # map (\<lambda>i. get64_at (kNodeHeaderSize + 8 + i * kInternalEntrySize + 8) d) is)\<rparr>)"

definition node_readable :: "BPlusTreeConfig \<Rightarrow> byte list \<Rightarrow> bool" where
  "node_readable cfg d \<longleftrightarrow> (d ! 0 = 1 \<or> d ! 0 = 2) \<and> node_count d \<le> max_keys cfg (d ! 0 = 1)"

definition node_writable :: "BPlusTreeConfig \<Rightarrow> Node \<Rightarrow> bool" where
  "node_writable cfg n \<longleftrightarrow> length (nd_keys n) \<le> max_keys cfg (nd_leaf n) \<and>
     (if nd_leaf n then length (nd_values n) = length (nd_keys n) else length (nd_children n) = length (nd_keys n) + 1)"

text \<open>Searching, inserting and erasing in a \<^verbatim>\<open>std::vector\<close>.\<close>

definition lower_bound :: "KeyType list \<Rightarrow> KeyType \<Rightarrow> nat" where
  "lower_bound ks k = length (takeWhile (\<lambda>x. key_less x k) ks)"

definition upper_bound :: "KeyType list \<Rightarrow> KeyType \<Rightarrow> nat" where
  "upper_bound ks k = length (takeWhile (\<lambda>x. \<not> key_less k x) ks)"

definition index_of :: "'a list \<Rightarrow> 'a \<Rightarrow> nat" where
  "index_of xs x = length (takeWhile (\<lambda>y. y \<noteq> x) xs)"

definition insert_at :: "nat \<Rightarrow> 'a \<Rightarrow> 'a list \<Rightarrow> 'a list" where
  "insert_at i x xs = take i xs @ x # drop i xs"

definition erase_at :: "nat \<Rightarrow> 'a list \<Rightarrow> 'a list" where
  "erase_at i xs = take i xs @ drop (Suc i) xs"

section \<open>Access to nodes\<close>

record btree =
  bt_meta :: PageId
  bt_root :: PageId
  bt_config :: BPlusTreeConfig

definition open_tree :: "PageId \<Rightarrow> (world, btree) op" where
  "open_tree m =
     bindE (on_pool (fetch_page m)) (\<lambda>r.
     case r of
       None \<Rightarrow> throw (RuntimeError Cannot_fetch_tree_metadata)
     | Some f \<Rightarrow>
         bindE (gets (payload_at f)) (\<lambda>d.
         bindE (on_pool (unpin_page m False)) (\<lambda>_.
         let valid = take 8 d = kMetadataMagic;
             t = (if valid then \<lparr>bt_meta = m, bt_root = get64_at 8 d, bt_config = \<lparr>leaf_max_keys = get16_at 16 d, internal_max_keys = get16_at 18 d\<rparr>\<rparr>
               else \<lparr>bt_meta = m, bt_root = kInvalidValue, bt_config = \<lparr>leaf_max_keys = 16, internal_max_keys = 16\<rparr>\<rparr>) in
         bindE (require (\<not> (\<not> valid \<or> \<not> is_valid (bt_root t) \<or> leaf_max_keys (bt_config t) < 2 \<or> internal_max_keys (bt_config t) < 2))
           (RuntimeError Invalid_tree_metadata)) (\<lambda>_.
         ret t))))"

definition write_tree_metadata :: "mutation_mode \<Rightarrow> btree \<Rightarrow> (world, unit) op" where
  "write_tree_metadata mode t =
     bindE (on_pool (fetch_page (bt_meta t))) (\<lambda>r.
     case r of
       None \<Rightarrow> throw (RuntimeError Cannot_fetch_tree_metadata)
     | Some f \<Rightarrow>
         bindE (change_payload mode (bt_meta t) f (metadata_image (bt_root t) (bt_config t))) (\<lambda>_.
         bindE (on_pool (unpin_page (bt_meta t) True)) (\<lambda>_.
         ret ())))"

definition read_node :: "btree \<Rightarrow> PageId \<Rightarrow> (world, Node) op" where
  "read_node t i =
     bindE (on_pool (fetch_page i)) (\<lambda>r.
     case r of
       None \<Rightarrow> throw (RuntimeError Cannot_fetch_tree_node)
     | Some f \<Rightarrow>
         bindE (gets (payload_at f)) (\<lambda>d.
         bindE (on_pool (unpin_page i False)) (\<lambda>_.
         bindE (require (node_readable (bt_config t) d) (RuntimeError Corrupt_tree_node)) (\<lambda>_.
         ret (decode_node d)))))"

definition write_node :: "mutation_mode \<Rightarrow> btree \<Rightarrow> PageId \<Rightarrow> Node \<Rightarrow> (world, unit) op" where
  "write_node mode t i n =
     bindE (require (node_writable (bt_config t) n) (LogicError Invalid_node_write)) (\<lambda>_.
     bindE (on_pool (fetch_page i)) (\<lambda>r.
     case r of
       None \<Rightarrow> throw (RuntimeError Cannot_fetch_node_for_write)
     | Some f \<Rightarrow>
         bindE (change_payload mode i f (encode_node n)) (\<lambda>_.
         bindE (on_pool (unpin_page i True)) (\<lambda>_.
         ret ()))))"

definition allocate_node :: "mutation_mode \<Rightarrow> btree \<Rightarrow> Node \<Rightarrow> (world, PageId) op" where
  "allocate_node mode t n =
     bindE (allocate_in mode) (\<lambda>i.
     bindE (write_node mode t i n) (\<lambda>_.
     ret i))"

definition set_parent :: "mutation_mode \<Rightarrow> btree \<Rightarrow> PageId \<Rightarrow> PageId \<Rightarrow> (world, unit) op" where
  "set_parent mode t child parent =
     bindE (read_node t child) (\<lambda>n.
     write_node mode t child (n\<lparr>nd_parent := parent\<rparr>))"

fun set_parents :: "mutation_mode \<Rightarrow> btree \<Rightarrow> PageId list \<Rightarrow> PageId \<Rightarrow> (world, unit) op" where
  "set_parents mode t [] parent = ret ()"
| "set_parents mode t (c # cs) parent = bindE (set_parent mode t c parent) (\<lambda>_. set_parents mode t cs parent)"

section \<open>Creation\<close>

definition capacity_ok :: "BPlusTreeConfig \<Rightarrow> bool" where
  "capacity_ok cfg \<longleftrightarrow> \<not> (leaf_max_keys cfg < 2 \<or> internal_max_keys cfg < 2 \<or>
     kNodeHeaderSize + unat (leaf_max_keys cfg) * kLeafEntrySize > kPagePayloadSize \<or>
     kNodeHeaderSize + 8 + unat (internal_max_keys cfg) * kInternalEntrySize > kPagePayloadSize)"

definition create_tree :: "BPlusTreeConfig \<Rightarrow> (world, PageId) op" where
  "create_tree cfg =
     bindE (require (capacity_ok cfg) (InvalidArgument Invalid_node_capacity)) (\<lambda>_.
     bindE (allocate_in NoMutations) (\<lambda>m.
     bindE (allocate_in NoMutations) (\<lambda>root.
     bindE (on_pool (fetch_page m)) (\<lambda>r.
     case r of
       None \<Rightarrow> throw (RuntimeError Cannot_fetch_new_tree_metadata)
     | Some f \<Rightarrow>
         bindE (change_payload NoMutations m f (metadata_image root cfg)) (\<lambda>_.
         bindE (on_pool (unpin_page m True)) (\<lambda>_.
         bindE (open_tree m) (\<lambda>t.
         bindE (write_node NoMutations t root empty_node) (\<lambda>_.
         bindE (write_tree_metadata NoMutations t) (\<lambda>_.
         bindE (on_pool flush_all_pages) (\<lambda>_.
         ret m))))))))))"

definition create_tree_in_transaction :: "BPlusTreeConfig \<Rightarrow> (world, PageId) op" where
  "create_tree_in_transaction cfg =
     bindE (require (capacity_ok cfg) (InvalidArgument Invalid_node_capacity)) (\<lambda>_.
     bindE (allocate_in InTransaction) (\<lambda>m.
     bindE (allocate_in InTransaction) (\<lambda>root.
     bindE (entering InTransaction) (\<lambda>_.
     bindE (on_pool (fetch_page m)) (\<lambda>r.
     case r of
       None \<Rightarrow> throw (RuntimeError Cannot_fetch_new_tree_metadata)
     | Some f \<Rightarrow>
         bindE (change_payload InTransaction m f (metadata_image root cfg)) (\<lambda>_.
         bindE (on_pool (unpin_page m True)) (\<lambda>_.
         bindE (open_tree m) (\<lambda>t.
         bindE (write_node InTransaction t root empty_node) (\<lambda>_.
         ret m)))))))))"

section \<open>Lookup\<close>

fun find_leaf :: "nat \<Rightarrow> btree \<Rightarrow> PageId \<Rightarrow> KeyType \<Rightarrow> (world, PageId) op" where
  "find_leaf 0 t i key = throw Diverges"
| "find_leaf (Suc fuel) t i key =
     bindE (read_node t i) (\<lambda>n.
     if nd_leaf n then ret i
     else find_leaf fuel t (nd_children n ! upper_bound (nd_keys n) key) key)"

definition get_value :: "nat \<Rightarrow> btree \<Rightarrow> KeyType \<Rightarrow> (world, RecordId option) op" where
  "get_value fuel t key =
     bindE (find_leaf fuel t (bt_root t) key) (\<lambda>i.
     bindE (read_node t i) (\<lambda>leaf.
     let at = lower_bound (nd_keys leaf) key in
     if at = length (nd_keys leaf) \<or> nd_keys leaf ! at \<noteq> key then ret None
     else ret (Some (nd_values leaf ! at))))"

text \<open>The entries of a leaf between two keys, and whether a key above the upper one has been seen.\<close>

fun scan_entries :: "KeyType \<Rightarrow> KeyType \<Rightarrow> (KeyType \<times> RecordId) list \<Rightarrow> (KeyType \<times> RecordId) list \<times> bool" where
  "scan_entries low high [] = ([], False)"
| "scan_entries low high ((k, v) # es) =
     (if key_less k low then scan_entries low high es
      else if key_less high k then ([], True)
      else (case scan_entries low high es of (out, past) \<Rightarrow> ((k, v) # out, past)))"

fun scan_leaves :: "nat \<Rightarrow> btree \<Rightarrow> KeyType \<Rightarrow> KeyType \<Rightarrow> PageId \<Rightarrow> (world, (KeyType \<times> RecordId) list) op" where
  "scan_leaves fuel t low high i =
     (if \<not> is_valid i then ret []
      else case fuel of
        0 \<Rightarrow> throw Diverges
      | Suc fuel' \<Rightarrow>
          bindE (read_node t i) (\<lambda>n.
          case scan_entries low high (zip (nd_keys n) (nd_values n)) of
            (out, past) \<Rightarrow> if past then ret out
              else bindE (scan_leaves fuel' t low high (nd_next n)) (\<lambda>rest. ret (out @ rest))))"

definition scan_tree :: "nat \<Rightarrow> btree \<Rightarrow> KeyType \<Rightarrow> KeyType \<Rightarrow> (world, (KeyType \<times> RecordId) list) op" where
  "scan_tree fuel t low high =
     (if key_less high low then ret []
      else bindE (find_leaf fuel t (bt_root t) low) (scan_leaves fuel t low high))"

fun descend :: "nat \<Rightarrow> btree \<Rightarrow> nat \<Rightarrow> Node \<Rightarrow> (world, nat) op" where
  "descend 0 t h n = throw Diverges"
| "descend (Suc fuel) t h n =
     (if nd_leaf n then ret h
      else bindE (read_node t (hd (nd_children n))) (descend fuel t (h + 1)))"

definition height :: "nat \<Rightarrow> btree \<Rightarrow> (world, nat) op" where
  "height fuel t = bindE (read_node t (bt_root t)) (descend fuel t 1)"

definition flush_tree :: "(world, unit) op" where
  "flush_tree = on_pool flush_all_pages"

section \<open>Insertion\<close>

definition on_tree :: "(btree \<Rightarrow> (world, 'a) op) \<Rightarrow> (btree \<times> world, 'a) op" where
  "on_tree m = bindE (gets fst) (\<lambda>t. in_world (m t))"

definition set_root :: "PageId \<Rightarrow> (btree \<times> world, unit) op" where
  "set_root i = modify (\<lambda>s. ((fst s)\<lparr>bt_root := i\<rparr>, snd s))"

fun update_parent_separator :: "nat \<Rightarrow> mutation_mode \<Rightarrow> btree \<Rightarrow> PageId \<Rightarrow> KeyType \<Rightarrow> (world, unit) op" where
  "update_parent_separator 0 mode t child first = throw Diverges"
| "update_parent_separator (Suc fuel) mode t child first =
     bindE (read_node t child) (\<lambda>n.
     if \<not> is_valid (nd_parent n) then ret ()
     else
       bindE (read_node t (nd_parent n)) (\<lambda>p.
       let idx = index_of (nd_children p) child in
       bindE (require (idx < length (nd_children p)) (LogicError Parent_missing_child_update)) (\<lambda>_.
       if idx > 0 then write_node mode t (nd_parent n) (p\<lparr>nd_keys := (nd_keys p)[idx - 1 := first]\<rparr>)
       else update_parent_separator fuel mode t (nd_parent n) first)))"

definition grow_root :: "mutation_mode \<Rightarrow> PageId \<Rightarrow> KeyType \<Rightarrow> PageId \<Rightarrow> (btree \<times> world, unit) op" where
  "grow_root mode left sep right =
     bindE (on_tree (\<lambda>t. allocate_node mode t
       \<lparr>nd_leaf = False, nd_parent = kInvalidValue, nd_next = kInvalidValue, nd_keys = [sep], nd_values = [], nd_children = [left, right]\<rparr>)) (\<lambda>rid.
     bindE (on_tree (\<lambda>t. set_parent mode t left rid)) (\<lambda>_.
     bindE (on_tree (\<lambda>t. set_parent mode t right rid)) (\<lambda>_.
     bindE (set_root rid) (\<lambda>_.
     on_tree (write_tree_metadata mode)))))"

fun insert_into_parent :: "nat \<Rightarrow> mutation_mode \<Rightarrow> PageId \<Rightarrow> KeyType \<Rightarrow> PageId \<Rightarrow> (btree \<times> world, unit) op" where
  "insert_into_parent 0 mode left sep right = throw Diverges"
| "insert_into_parent (Suc fuel) mode left sep right =
     bindE (on_tree (\<lambda>t. read_node t left)) (\<lambda>left_node.
     if \<not> is_valid (nd_parent left_node) then grow_root mode left sep right
     else
       let pid = nd_parent left_node in
       bindE (on_tree (\<lambda>t. read_node t pid)) (\<lambda>p.
       let idx = index_of (nd_children p) left in
       bindE (require (idx < length (nd_children p)) (LogicError Parent_missing_child)) (\<lambda>_.
       let parent = p\<lparr>nd_keys := insert_at idx sep (nd_keys p), nd_children := insert_at (idx + 1) right (nd_children p)\<rparr> in
       bindE (on_tree (\<lambda>t. set_parent mode t right pid)) (\<lambda>_.
       bindE (gets (\<lambda>s. max_keys (bt_config (fst s)) False)) (\<lambda>limit.
       if length (nd_keys parent) \<le> limit then on_tree (\<lambda>t. write_node mode t pid parent)
       else
         let mid = length (nd_keys parent) div 2;
             promote = nd_keys parent ! mid;
             sibling = \<lparr>nd_leaf = False, nd_parent = nd_parent parent, nd_next = kInvalidValue, nd_keys = drop (mid + 1) (nd_keys parent),
               nd_values = [], nd_children = drop (mid + 1) (nd_children parent)\<rparr> in
         bindE (on_tree (\<lambda>t. allocate_node mode t sibling)) (\<lambda>sid.
         bindE (on_tree (\<lambda>t. write_node mode t pid (parent\<lparr>nd_keys := take mid (nd_keys parent), nd_children := take (mid + 1) (nd_children parent)\<rparr>))) (\<lambda>_.
         bindE (on_tree (\<lambda>t. set_parents mode t (nd_children sibling) sid)) (\<lambda>_.
         insert_into_parent fuel mode pid promote sid))))))))"

definition tree_insert_impl :: "nat \<Rightarrow> mutation_mode \<Rightarrow> KeyType \<Rightarrow> RecordId \<Rightarrow> (btree \<times> world, bool) op" where
  "tree_insert_impl fuel mode key value =
     bindE (on_tree (\<lambda>t. find_leaf fuel t (bt_root t) key)) (\<lambda>i.
     bindE (on_tree (\<lambda>t. read_node t i)) (\<lambda>n.
     let at = lower_bound (nd_keys n) key in
     if at < length (nd_keys n) \<and> nd_keys n ! at = key then ret False
     else
       let leaf = n\<lparr>nd_keys := insert_at at key (nd_keys n), nd_values := insert_at at value (nd_values n)\<rparr> in
       bindE (gets (\<lambda>s. max_keys (bt_config (fst s)) True)) (\<lambda>limit.
       if length (nd_keys leaf) \<le> limit then
         bindE (on_tree (\<lambda>t. write_node mode t i leaf)) (\<lambda>_.
         bindE (if at = 0 then on_tree (\<lambda>t. update_parent_separator fuel mode t i key) else ret ()) (\<lambda>_.
         ret True))
       else
         let half = length (nd_keys leaf) div 2;
             right = \<lparr>nd_leaf = True, nd_parent = nd_parent leaf, nd_next = nd_next leaf, nd_keys = drop half (nd_keys leaf),
               nd_values = drop half (nd_values leaf), nd_children = []\<rparr> in
         bindE (on_tree (\<lambda>t. allocate_node mode t right)) (\<lambda>rid.
         bindE (on_tree (\<lambda>t. write_node mode t i (leaf\<lparr>nd_keys := take half (nd_keys leaf), nd_values := take half (nd_values leaf), nd_next := rid\<rparr>))) (\<lambda>_.
         bindE (insert_into_parent fuel mode i (hd (nd_keys right)) rid) (\<lambda>_.
         ret True))))))"

definition tree_insert :: "nat \<Rightarrow> mutation_mode \<Rightarrow> KeyType \<Rightarrow> RecordId \<Rightarrow> (btree \<times> world, bool) op" where
  "tree_insert fuel mode key value = bindE (in_world (entering mode)) (\<lambda>_. tree_insert_impl fuel mode key value)"

section \<open>Removal\<close>

text \<open>
  The position of a child in its parent is used without a check that it was found. If it was not found, every branch accesses
  a vector out of its range.
\<close>

definition child_index :: "PageId \<Rightarrow> Node \<Rightarrow> (btree \<times> world, nat) op" where
  "child_index i p = bindE (require (index_of (nd_children p) i < length (nd_children p)) Undefined_behaviour) (\<lambda>_. ret (index_of (nd_children p) i))"

definition child_at :: "nat \<Rightarrow> Node \<Rightarrow> (btree \<times> world, PageId) op" where
  "child_at k p = bindE (require (k < length (nd_children p)) Undefined_behaviour) (\<lambda>_. ret (nd_children p ! k))"

definition collapse_root :: "mutation_mode \<Rightarrow> PageId \<Rightarrow> Node \<Rightarrow> (btree \<times> world, unit) op" where
  "collapse_root mode i n =
     (if nd_keys n = [] then
        bindE (child_at 0 n) (\<lambda>child.
        bindE (on_tree (\<lambda>t. set_parent mode t child kInvalidValue)) (\<lambda>_.
        bindE (set_root child) (\<lambda>_.
        on_tree (write_tree_metadata mode))))
      else on_tree (\<lambda>t. write_node mode t i n))"

text \<open>Moving a child between an internal node \<open>n\<close> at position \<open>idx\<close> of \<open>p\<close> and its neighbour.\<close>

definition borrow_from_left :: "mutation_mode \<Rightarrow> PageId \<Rightarrow> Node \<Rightarrow> PageId \<Rightarrow> Node \<Rightarrow> Node \<Rightarrow> nat \<Rightarrow> (btree \<times> world, unit) op" where
  "borrow_from_left mode i n lid l p idx =
     bindE (on_tree (\<lambda>t. set_parent mode t (last (nd_children l)) i)) (\<lambda>_.
     bindE (on_tree (\<lambda>t. write_node mode t lid (l\<lparr>nd_keys := butlast (nd_keys l), nd_children := butlast (nd_children l)\<rparr>))) (\<lambda>_.
     bindE (on_tree (\<lambda>t. write_node mode t i
       (n\<lparr>nd_keys := nd_keys p ! (idx - 1) # nd_keys n, nd_children := last (nd_children l) # nd_children n\<rparr>))) (\<lambda>_.
     on_tree (\<lambda>t. write_node mode t (nd_parent n) (p\<lparr>nd_keys := (nd_keys p)[idx - 1 := last (nd_keys l)]\<rparr>)))))"

definition borrow_from_right :: "mutation_mode \<Rightarrow> PageId \<Rightarrow> Node \<Rightarrow> PageId \<Rightarrow> Node \<Rightarrow> Node \<Rightarrow> nat \<Rightarrow> (btree \<times> world, unit) op" where
  "borrow_from_right mode i n rid r p idx =
     bindE (on_tree (\<lambda>t. set_parent mode t (hd (nd_children r)) i)) (\<lambda>_.
     bindE (on_tree (\<lambda>t. write_node mode t i
       (n\<lparr>nd_keys := nd_keys n @ [nd_keys p ! idx], nd_children := nd_children n @ [hd (nd_children r)]\<rparr>))) (\<lambda>_.
     bindE (on_tree (\<lambda>t. write_node mode t rid (r\<lparr>nd_keys := tl (nd_keys r), nd_children := tl (nd_children r)\<rparr>))) (\<lambda>_.
     on_tree (\<lambda>t. write_node mode t (nd_parent n) (p\<lparr>nd_keys := (nd_keys p)[idx := hd (nd_keys r)]\<rparr>)))))"

text \<open>Merging the internal node \<open>b\<close> into its left neighbour \<open>a\<close>, which has position \<open>k\<close> in the parent \<open>p\<close>.\<close>

definition merge_internal :: "mutation_mode \<Rightarrow> PageId \<Rightarrow> Node \<Rightarrow> Node \<Rightarrow> PageId \<Rightarrow> Node \<Rightarrow> nat \<Rightarrow> (btree \<times> world, unit) op" where
  "merge_internal mode aid a b pid p k =
     bindE (on_tree (\<lambda>t. set_parents mode t (nd_children b) aid)) (\<lambda>_.
     bindE (on_tree (\<lambda>t. write_node mode t aid
       (a\<lparr>nd_keys := nd_keys a @ nd_keys p ! k # nd_keys b, nd_children := nd_children a @ nd_children b\<rparr>))) (\<lambda>_.
     on_tree (\<lambda>t. write_node mode t pid (p\<lparr>nd_keys := erase_at k (nd_keys p), nd_children := erase_at (k + 1) (nd_children p)\<rparr>))))"

fun rebalance_internal :: "nat \<Rightarrow> mutation_mode \<Rightarrow> PageId \<Rightarrow> (btree \<times> world, unit) op" where
  "rebalance_internal 0 mode i = throw Diverges"
| "rebalance_internal (Suc fuel) mode i =
     bindE (on_tree (\<lambda>t. read_node t i)) (\<lambda>n.
     bindE (gets fst) (\<lambda>t.
     if i = bt_root t then collapse_root mode i n
     else
       let least = unat (internal_max_keys (bt_config t)) div 2 in
       if length (nd_keys n) \<ge> least then on_tree (\<lambda>t. write_node mode t i n)
       else
         bindE (on_tree (\<lambda>t. read_node t (nd_parent n))) (\<lambda>p.
         bindE (child_index i p) (\<lambda>idx.
         if idx > 0 then
           let lid = nd_children p ! (idx - 1) in
           bindE (on_tree (\<lambda>t. read_node t lid)) (\<lambda>l.
           if length (nd_keys l) > least then borrow_from_left mode i n lid l p idx
           else
             bindE (merge_internal mode lid l n (nd_parent n) p (idx - 1)) (\<lambda>_.
             rebalance_internal fuel mode (nd_parent n)))
         else
           bindE (child_at (idx + 1) p) (\<lambda>rid.
           bindE (on_tree (\<lambda>t. read_node t rid)) (\<lambda>r.
           if length (nd_keys r) > least then borrow_from_right mode i n rid r p idx
           else
             bindE (merge_internal mode i n r (nd_parent n) p idx) (\<lambda>_.
             rebalance_internal fuel mode (nd_parent n))))))))"

definition leaf_from_left :: "mutation_mode \<Rightarrow> PageId \<Rightarrow> Node \<Rightarrow> PageId \<Rightarrow> Node \<Rightarrow> Node \<Rightarrow> nat \<Rightarrow> (btree \<times> world, unit) op" where
  "leaf_from_left mode i n lid l p idx =
     bindE (on_tree (\<lambda>t. write_node mode t lid (l\<lparr>nd_keys := butlast (nd_keys l), nd_values := butlast (nd_values l)\<rparr>))) (\<lambda>_.
     bindE (on_tree (\<lambda>t. write_node mode t i
       (n\<lparr>nd_keys := last (nd_keys l) # nd_keys n, nd_values := last (nd_values l) # nd_values n\<rparr>))) (\<lambda>_.
     on_tree (\<lambda>t. write_node mode t (nd_parent n) (p\<lparr>nd_keys := (nd_keys p)[idx - 1 := last (nd_keys l)]\<rparr>))))"

definition leaf_from_right :: "mutation_mode \<Rightarrow> PageId \<Rightarrow> Node \<Rightarrow> PageId \<Rightarrow> Node \<Rightarrow> Node \<Rightarrow> nat \<Rightarrow> (btree \<times> world, unit) op" where
  "leaf_from_right mode i n rid r p idx =
     bindE (on_tree (\<lambda>t. write_node mode t i (n\<lparr>nd_keys := nd_keys n @ [hd (nd_keys r)], nd_values := nd_values n @ [hd (nd_values r)]\<rparr>))) (\<lambda>_.
     bindE (on_tree (\<lambda>t. write_node mode t rid (r\<lparr>nd_keys := tl (nd_keys r), nd_values := tl (nd_values r)\<rparr>))) (\<lambda>_.
     on_tree (\<lambda>t. write_node mode t (nd_parent n) (p\<lparr>nd_keys := (nd_keys p)[idx := hd (tl (nd_keys r))]\<rparr>))))"

definition merge_leaves :: "mutation_mode \<Rightarrow> PageId \<Rightarrow> Node \<Rightarrow> Node \<Rightarrow> PageId \<Rightarrow> Node \<Rightarrow> nat \<Rightarrow> (btree \<times> world, unit) op" where
  "merge_leaves mode aid a b pid p k =
     bindE (on_tree (\<lambda>t. write_node mode t aid
       (a\<lparr>nd_keys := nd_keys a @ nd_keys b, nd_values := nd_values a @ nd_values b, nd_next := nd_next b\<rparr>))) (\<lambda>_.
     on_tree (\<lambda>t. write_node mode t pid (p\<lparr>nd_keys := erase_at k (nd_keys p), nd_children := erase_at (k + 1) (nd_children p)\<rparr>)))"

definition rebalance_leaf :: "nat \<Rightarrow> mutation_mode \<Rightarrow> PageId \<Rightarrow> (btree \<times> world, unit) op" where
  "rebalance_leaf fuel mode i =
     bindE (on_tree (\<lambda>t. read_node t i)) (\<lambda>n.
     bindE (on_tree (\<lambda>t. read_node t (nd_parent n))) (\<lambda>p.
     bindE (child_index i p) (\<lambda>idx.
     bindE (gets (\<lambda>s. (unat (leaf_max_keys (bt_config (fst s))) + 1) div 2)) (\<lambda>least.
     if idx > 0 then
       let lid = nd_children p ! (idx - 1) in
       bindE (on_tree (\<lambda>t. read_node t lid)) (\<lambda>l.
       if length (nd_keys l) > least then leaf_from_left mode i n lid l p idx
       else
         bindE (merge_leaves mode lid l n (nd_parent n) p (idx - 1)) (\<lambda>_.
         rebalance_internal fuel mode (nd_parent n)))
     else
       bindE (child_at (idx + 1) p) (\<lambda>rid.
       bindE (on_tree (\<lambda>t. read_node t rid)) (\<lambda>r.
       if length (nd_keys r) > least then
         bindE (leaf_from_right mode i n rid r p idx) (\<lambda>_.
         on_tree (\<lambda>t. update_parent_separator fuel mode t (nd_parent n) (hd (nd_keys n @ nd_keys r))))
       else
         bindE (merge_leaves mode i n r (nd_parent n) p idx) (\<lambda>_.
         bindE (on_tree (\<lambda>t. update_parent_separator fuel mode t (nd_parent n) (hd (nd_keys n @ nd_keys r)))) (\<lambda>_.
         rebalance_internal fuel mode (nd_parent n)))))))))"

definition remove_impl :: "nat \<Rightarrow> mutation_mode \<Rightarrow> KeyType \<Rightarrow> (btree \<times> world, bool) op" where
  "remove_impl fuel mode key =
     bindE (on_tree (\<lambda>t. find_leaf fuel t (bt_root t) key)) (\<lambda>i.
     bindE (on_tree (\<lambda>t. read_node t i)) (\<lambda>n.
     let idx = lower_bound (nd_keys n) key in
     if idx = length (nd_keys n) \<or> nd_keys n ! idx \<noteq> key then ret False
     else
       let leaf = n\<lparr>nd_keys := erase_at idx (nd_keys n), nd_values := erase_at idx (nd_values n)\<rparr> in
       bindE (gets fst) (\<lambda>t.
       bindE (on_tree (\<lambda>t. write_node mode t i leaf)) (\<lambda>_.
       bindE (if i = bt_root t then ret ()
         else if length (nd_keys leaf) \<ge> (unat (leaf_max_keys (bt_config t)) + 1) div 2 then
           (if idx = 0 \<and> nd_keys leaf \<noteq> [] then on_tree (\<lambda>t. update_parent_separator fuel mode t i (hd (nd_keys leaf))) else ret ())
         else rebalance_leaf fuel mode i) (\<lambda>_.
       ret True)))))"

definition tree_remove :: "nat \<Rightarrow> mutation_mode \<Rightarrow> KeyType \<Rightarrow> (btree \<times> world, bool) op" where
  "tree_remove fuel mode key = bindE (in_world (entering mode)) (\<lambda>_. remove_impl fuel mode key)"

section \<open>The check of the invariants\<close>

fun first_key :: "nat \<Rightarrow> btree \<Rightarrow> PageId \<Rightarrow> (world, KeyType) op" where
  "first_key 0 t i = throw Diverges"
| "first_key (Suc fuel) t i =
     bindE (read_node t i) (\<lambda>n.
     if nd_leaf n then
       (case nd_keys n of [] \<Rightarrow> throw (RuntimeError Empty_child) | k # _ \<Rightarrow> ret k)
     else first_key fuel t (hd (nd_children n)))"

fun separators_exact :: "nat \<Rightarrow> btree \<Rightarrow> (KeyType \<times> PageId) list \<Rightarrow> (world, bool) op" where
  "separators_exact fuel t [] = ret True"
| "separators_exact fuel t ((k, c) # kcs) =
     bindE (first_key fuel t c) (\<lambda>x. if x \<noteq> k then ret False else separators_exact fuel t kcs)"

record tree_walk =
  tw_seen :: "PageId set"
  tw_leaves :: "PageId list"
  tw_unique :: "KeyType set"

fun add_keys :: "KeyType list \<Rightarrow> KeyType set \<Rightarrow> KeyType set option" where
  "add_keys [] u = Some u"
| "add_keys (k # ks) u = (if k \<in> u then None else add_keys ks (insert k u))"

fun walk :: "nat \<Rightarrow> btree \<Rightarrow> PageId list \<Rightarrow> PageId \<Rightarrow> tree_walk \<Rightarrow> (world, bool \<times> tree_walk) op" where
  "walk fuel t [] parent tw = ret (True, tw)"
| "walk 0 t (i # is) parent tw = throw Diverges"
| "walk (Suc fuel) t (i # is) parent tw =
     (if \<not> is_valid i \<or> i \<in> tw_seen tw then ret (False, tw)
      else
        bindE (read_node t i) (\<lambda>n.
        let tw1 = tw\<lparr>tw_seen := insert i (tw_seen tw)\<rparr> in
        if nd_parent n \<noteq> parent \<or> \<not> sorted (map sint (nd_keys n)) then ret (False, tw1)
        else
          bindE (if nd_leaf n then
              (case add_keys (nd_keys n) (tw_unique tw1) of
                 None \<Rightarrow> ret (False, tw1)
               | Some u \<Rightarrow> ret (True, tw1\<lparr>tw_unique := u, tw_leaves := tw_leaves tw1 @ [i]\<rparr>))
            else if length (nd_children n) \<noteq> length (nd_keys n) + 1 then ret (False, tw1)
            else
              bindE (separators_exact fuel t (zip (nd_keys n) (tl (nd_children n)))) (\<lambda>exact.
              if \<not> exact then ret (False, tw1) else walk fuel t (nd_children n) i tw1)) (\<lambda>(ok, tw2).
          if \<not> ok then ret (False, tw2) else walk fuel t is parent tw2)))"

fun leaves_linked :: "btree \<Rightarrow> PageId list \<Rightarrow> PageId \<Rightarrow> (world, PageId option) op" where
  "leaves_linked t [] next = ret (Some next)"
| "leaves_linked t (i # is) next =
     (if next \<noteq> i then ret None else bindE (read_node t next) (\<lambda>n. leaves_linked t is (nd_next n)))"

text \<open>Any exception makes the answer false.\<close>

definition validate_tree :: "nat \<Rightarrow> btree \<Rightarrow> (world, bool) op" where
  "validate_tree fuel t = (\<lambda>w.
     case (bindE (walk fuel t [bt_root t] kInvalidValue \<lparr>tw_seen = {}, tw_leaves = [], tw_unique = {}\<rparr>) (\<lambda>(ok, tw).
        if \<not> ok then ret False
        else
          bindE (leaves_linked t (tw_leaves tw) (case tw_leaves tw of [] \<Rightarrow> kInvalidValue | i # _ \<Rightarrow> i)) (\<lambda>r.
          case r of
            None \<Rightarrow> ret False
          | Some next \<Rightarrow> gets (\<lambda>w. \<not> is_valid next \<and> validate_invariants (cs_pool w))))) w of
       (Inl Diverges, w') \<Rightarrow> (Inl Diverges, w')
     | (Inl e, w') \<Rightarrow> (Inr False, w')
     | (Inr b, w') \<Rightarrow> (Inr b, w'))"

end
