(* ===== verification/TreeNodes.thy ===== *)
theory TreeNodes
  imports BPlusTree PageFields PageWrites
begin

text \<open>
  Nodes of the B+ tree as values: the byte format of a node is read back as the node, so that the operations on pages are
  operations on a map from page numbers to nodes.
\<close>

section \<open>The byte format\<close>

lemmas node_sizes = kNodeHeaderSize_def kLeafEntrySize_def kInternalEntrySize_def

lemma length_put_leaf_entries [simp]: "length (put_leaf_entries i ks vs d) = length d"
  by (induction i ks vs d rule: put_leaf_entries.induct) (simp_all add: Let_def)

lemma length_put_internal_entries [simp]: "length (put_internal_entries i ks cs d) = length d"
  by (induction i ks cs d rule: put_internal_entries.induct) (simp_all add: Let_def)

text \<open>Entries are written behind everything that has been written before.\<close>

lemma put_leaf_entries_before:
  assumes "kNodeHeaderSize + (i + length ks) * kLeafEntrySize \<le> length d" "p + m \<le> kNodeHeaderSize + i * kLeafEntrySize"
  shows "segment p m (put_leaf_entries i ks vs d) = segment p m d"
  using assms
proof (induction i ks vs d rule: put_leaf_entries.induct)
  case (1 i k ks v vs d)
  let ?at = "kNodeHeaderSize + i * kLeafEntrySize"
  let ?d = "put32_at (?at + 16) (rid_slot v) (put64_at (?at + 8) (rid_page v) (put64_at ?at k d))"
  have "segment p m ?d = segment p m d" using "1.prems" by (simp add: page_fields node_sizes)
  then show ?case using 1 by (simp add: Let_def node_sizes)
qed simp_all

lemma put_internal_entries_before:
  assumes "kNodeHeaderSize + 8 + (i + length ks) * kInternalEntrySize \<le> length d" "p + m \<le> kNodeHeaderSize + 8 + i * kInternalEntrySize"
  shows "segment p m (put_internal_entries i ks cs d) = segment p m d"
  using assms
proof (induction i ks cs d rule: put_internal_entries.induct)
  case (1 i k ks c cs d)
  let ?at = "kNodeHeaderSize + 8 + i * kInternalEntrySize"
  have "segment p m (put64_at (?at + 8) c (put64_at ?at k d)) = segment p m d" using "1.prems" by (simp add: page_fields node_sizes)
  then show ?case using 1 by (simp add: Let_def node_sizes)
qed simp_all

lemma put_leaf_entries_at:
  assumes "kNodeHeaderSize + (i + length ks) * kLeafEntrySize \<le> length d" "length vs = length ks" "j < length ks"
  defines "at \<equiv> kNodeHeaderSize + (i + j) * kLeafEntrySize" and "e \<equiv> put_leaf_entries i ks vs d"
  shows "get64_at at e = ks ! j" "get64_at (at + 8) e = rid_page (vs ! j)" "get32_at (at + 16) e = rid_slot (vs ! j)"
proof -
  have "get64_at at e = ks ! j \<and> get64_at (at + 8) e = rid_page (vs ! j) \<and> get32_at (at + 16) e = rid_slot (vs ! j)"
    using assms(1-3) unfolding at_def e_def
  proof (induction i ks vs d arbitrary: j rule: put_leaf_entries.induct)
    case (1 i k ks v vs d)
    let ?at = "kNodeHeaderSize + i * kLeafEntrySize"
    let ?d = "put32_at (?at + 16) (rid_slot v) (put64_at (?at + 8) (rid_page v) (put64_at ?at k d))"
    show ?case
    proof (cases j)
      case 0
      have len: "?at + 20 \<le> length d" using "1.prems"(1) by (simp add: node_sizes)
      have s: "segment p m (put_leaf_entries (Suc i) ks vs ?d) = segment p m ?d" if "p + m \<le> ?at + 20" for p m
        by (rule put_leaf_entries_before) (use "1.prems"(1) that in \<open>simp_all add: node_sizes\<close>)
      have "get64_at ?at ?d = k" "get64_at (?at + 8) ?d = rid_page v" "get32_at (?at + 16) ?d = rid_slot v"
        using len by (simp_all add: page_fields)
      then show ?thesis
        using 0 len get_at_segment(3) [of ?at "put_leaf_entries (Suc i) ks vs ?d" ?d] get_at_segment(3) [of "?at + 8" "put_leaf_entries (Suc i) ks vs ?d" ?d]
          get_at_segment(2) [of "?at + 16" "put_leaf_entries (Suc i) ks vs ?d" ?d] s
        by (simp add: Let_def)
    next
      case (Suc j')
      then show ?thesis using 1(1) [of ?at j'] "1.prems" by (simp add: Let_def node_sizes)
    qed
  qed simp_all
  then show "get64_at at e = ks ! j" "get64_at (at + 8) e = rid_page (vs ! j)" "get32_at (at + 16) e = rid_slot (vs ! j)" by simp_all
qed

lemma put_internal_entries_at:
  assumes "kNodeHeaderSize + 8 + (i + length ks) * kInternalEntrySize \<le> length d" "length cs = length ks" "j < length ks"
  defines "at \<equiv> kNodeHeaderSize + 8 + (i + j) * kInternalEntrySize" and "e \<equiv> put_internal_entries i ks cs d"
  shows "get64_at at e = ks ! j" "get64_at (at + 8) e = cs ! j"
proof -
  have "get64_at at e = ks ! j \<and> get64_at (at + 8) e = cs ! j"
    using assms(1-3) unfolding at_def e_def
  proof (induction i ks cs d arbitrary: j rule: put_internal_entries.induct)
    case (1 i k ks c cs d)
    let ?at = "kNodeHeaderSize + 8 + i * kInternalEntrySize"
    let ?d = "put64_at (?at + 8) c (put64_at ?at k d)"
    show ?case
    proof (cases j)
      case 0
      have len: "?at + 16 \<le> length d" using "1.prems"(1) by (simp add: node_sizes)
      have s: "segment p m (put_internal_entries (Suc i) ks cs ?d) = segment p m ?d" if "p + m \<le> ?at + 16" for p m
        by (rule put_internal_entries_before) (use "1.prems"(1) that in \<open>simp_all add: node_sizes\<close>)
      have "get64_at ?at ?d = k" "get64_at (?at + 8) ?d = c" using len by (simp_all add: page_fields)
      then show ?thesis
        using 0 len get_at_segment(3) [of ?at "put_internal_entries (Suc i) ks cs ?d" ?d] get_at_segment(3) [of "?at + 8" "put_internal_entries (Suc i) ks cs ?d" ?d] s
        by (simp add: Let_def)
    next
      case (Suc j')
      then show ?thesis using 1(1) [of ?at j'] "1.prems" by (simp add: Let_def node_sizes)
    qed
  qed simp_all
  then show "get64_at at e = ks ! j" "get64_at (at + 8) e = cs ! j" by simp_all
qed

text \<open>The shape of a node of the program: a leaf has no children and an internal node no values.\<close>

definition node_shape :: "BPlusTreeConfig \<Rightarrow> Node \<Rightarrow> bool" where
  "node_shape cfg n \<longleftrightarrow> node_writable cfg n \<and> (if nd_leaf n then nd_children n = [] else nd_values n = [])"

definition node_header :: "Node \<Rightarrow> nat \<Rightarrow> byte list" where
  "node_header n m = put16_at 20 (of_nat (length (nd_keys n))) (put64_at 12 (nd_next n) (put64_at 4 (nd_parent n)
     ((replicate m 0)[0 := (if nd_leaf n then 1 else 2)])))"

lemma node_header_fields:
  assumes "32 \<le> m"
  shows "length (node_header n m) = m" "take 1 (node_header n m) = [if nd_leaf n then 1 else 2]" "get64_at 4 (node_header n m) = nd_parent n"
    "get64_at 12 (node_header n m) = nd_next n" "get16_at 20 (node_header n m) = of_nat (length (nd_keys n))"
proof -
  have l: "length ((replicate m (0 :: byte))[0 := (if nd_leaf n then 1 else 2)]) = m" by simp
  show "length (node_header n m) = m" "get64_at 4 (node_header n m) = nd_parent n" "get64_at 12 (node_header n m) = nd_next n"
    "get16_at 20 (node_header n m) = of_nat (length (nd_keys n))"
    using assms l by (simp_all add: node_header_def page_fields)
  have "take 1 (node_header n m) = take 1 ((replicate m 0)[0 := (if nd_leaf n then 1 else 2)])"
    using assms l unfolding node_header_def by (simp only: page_fields length_put length_splice_at)
  then show "take 1 (node_header n m) = [if nd_leaf n then 1 else 2]" using assms by (cases m) simp_all
qed

lemma header_kept:
  assumes "32 \<le> length d" "length e = length d" "\<And>p m. p + m \<le> 32 \<Longrightarrow> segment p m e = segment p m d"
  shows "e ! 0 = d ! 0" "get64_at 4 e = get64_at 4 d" "get64_at 12 e = get64_at 12 d" "get16_at 20 e = get16_at 20 d"
proof -
  have "take 1 e = take 1 d" using assms(3) [of 0 1] by (simp add: segment_def)
  then show "e ! 0 = d ! 0" by (metis less_one nth_take)
  show "get64_at 4 e = get64_at 4 d" "get64_at 12 e = get64_at 12 d" "get16_at 20 e = get16_at 20 d"
    using assms by (auto intro!: get_at_segment)
qed

lemma decode_encode_node:
  assumes "node_shape cfg n" "capacity_ok cfg" "length d = kPagePayloadSize"
  shows "decode_node (encode_node n d) = n" "node_readable cfg (encode_node n d)" "length (encode_node n d) = kPagePayloadSize"
proof -
  let ?e = "encode_node n d" and ?h = "node_header n (length d)"
  have d: "length d = 4064" using assms(3) by (simp add: size_defs)
  have sh: "length (nd_keys n) \<le> max_keys cfg (nd_leaf n)" "nd_leaf n \<Longrightarrow> length (nd_values n) = length (nd_keys n) \<and> nd_children n = []"
    "\<not> nd_leaf n \<Longrightarrow> length (nd_children n) = length (nd_keys n) + 1 \<and> nd_values n = []"
    using assms(1) by (auto simp: node_shape_def node_writable_def)
  have cap: "kNodeHeaderSize + unat (leaf_max_keys cfg) * kLeafEntrySize \<le> 4064" "kNodeHeaderSize + 8 + unat (internal_max_keys cfg) * kInternalEntrySize \<le> 4064"
    using assms(2) by (simp_all add: capacity_ok_def size_defs)
  have small: "length (nd_keys n) < 1000" using sh(1) cap by (simp add: max_keys_def node_sizes split: if_splits)
  have cnt: "unat (of_nat (length (nd_keys n)) :: uint16) = length (nd_keys n)" using small by (simp add: unat_of_nat take_bit_nat_eq_self)
  have hd: "32 \<le> length d" using d by simp
  note h = node_header_fields [OF hd, of n]
  have h0: "?h ! 0 = (if nd_leaf n then 1 else 2)" using arg_cong [OF h(2), of "\<lambda>xs. xs ! 0"] by simp
  show len: "length ?e = kPagePayloadSize" using assms(3) h(1) by (simp add: encode_node_def Let_def node_header_def)
  have lh: "length ?e = length ?h" "32 \<le> length ?h" using len assms(3) h(1) hd by simp_all
  have fields: "?e ! 0 = (if nd_leaf n then 1 else 2)" "get64_at 4 ?e = nd_parent n" "get64_at 12 ?e = nd_next n" "node_count ?e = length (nd_keys n)"
    if k: "\<And>p m. p + m \<le> 32 \<Longrightarrow> segment p m ?e = segment p m ?h"
  proof -
    have f: "?e ! 0 = ?h ! 0" "get64_at 4 ?e = get64_at 4 ?h" "get64_at 12 ?e = get64_at 12 ?h" "get16_at 20 ?e = get16_at 20 ?h"
      by (rule header_kept [OF lh(2,1)], erule k)+
    show "?e ! 0 = (if nd_leaf n then 1 else 2)" by (rule trans [OF f(1) h0])
    show "get64_at 4 ?e = nd_parent n" by (rule trans [OF f(2) h(3)])
    show "get64_at 12 ?e = nd_next n" by (rule trans [OF f(3) h(4)])
    show "node_count ?e = length (nd_keys n)" unfolding node_count_def f(4) h(5) by (rule cnt)
  qed
  have "decode_node ?e = n \<and> node_readable cfg ?e"
  proof (cases "nd_leaf n")
    case True
    have e: "?e = put_leaf_entries 0 (nd_keys n) (nd_values n) ?h" using True by (simp add: encode_node_def node_header_def Let_def)
    have b: "kNodeHeaderSize + (0 + length (nd_keys n)) * kLeafEntrySize \<le> length ?h"
      using h(1) d sh(1) cap True by (simp add: max_keys_def node_sizes)
    have k: "segment p m ?e = segment p m ?h" if "p + m \<le> 32" for p m
      unfolding e by (rule put_leaf_entries_before [OF b]) (use that in \<open>simp add: node_sizes\<close>)
    note f = fields [OF k]
    have f0: "?e ! 0 = 1" using f(1) True by simp
    note entry = put_leaf_entries_at [OF b, of "nd_values n", folded e]
    have "map (\<lambda>i. get64_at (kNodeHeaderSize + i * kLeafEntrySize) ?e) [0..<length (nd_keys n)] = nd_keys n"
      using entry(1) sh(2) True by (intro nth_equalityI) simp_all
    moreover have "map (\<lambda>i. let at = kNodeHeaderSize + i * kLeafEntrySize in \<lparr>rid_page = get64_at (at + 8) ?e, rid_slot = get32_at (at + 16) ?e\<rparr>) [0..<length (nd_keys n)] = nd_values n"
      using entry(2,3) sh(2) True by (intro nth_equalityI) (simp_all add: Let_def)
    ultimately show ?thesis using f(2-4) f0 True sh(1,2) unfolding decode_node_def node_readable_def by simp
  next
    case False
    let ?g = "put64_at kNodeHeaderSize (hd (nd_children n)) ?h"
    have e: "?e = put_internal_entries 0 (nd_keys n) (tl (nd_children n)) ?g" using False by (simp add: encode_node_def node_header_def Let_def)
    have b: "kNodeHeaderSize + 8 + (0 + length (nd_keys n)) * kInternalEntrySize \<le> length ?g"
      using h(1) d sh(1) cap False by (simp add: max_keys_def node_sizes)
    have k': "segment p m ?e = segment p m ?g" if "p + m \<le> 40" for p m
      unfolding e by (rule put_internal_entries_before [OF b]) (use that in \<open>simp add: node_sizes\<close>)
    have k: "segment p m ?e = segment p m ?h" if "p + m \<le> 32" for p m
      using k' [of p m] that h(1) d by (simp add: page_fields node_sizes)
    note f = fields [OF k]
    have f0: "?e ! 0 = 2" using f(1) False by simp
    have first: "get64_at kNodeHeaderSize ?e = hd (nd_children n)"
    proof -
      have "get64_at kNodeHeaderSize ?e = get64_at kNodeHeaderSize ?g"
        by (rule get_at_segment(3)) (use k' [of 32 8] d h(1) len in \<open>simp_all add: node_sizes size_defs\<close>)
      then show ?thesis using d h(1) by (simp add: page_fields node_sizes)
    qed
    note entry = put_internal_entries_at [OF b, of "tl (nd_children n)", folded e]
    have "map (\<lambda>i. get64_at (kNodeHeaderSize + 8 + i * kInternalEntrySize) ?e) [0..<length (nd_keys n)] = nd_keys n"
      using entry(1) sh(3) False by (intro nth_equalityI) simp_all
    moreover have "map (\<lambda>i. get64_at (kNodeHeaderSize + 8 + i * kInternalEntrySize + 8) ?e) [0..<length (nd_keys n)] = tl (nd_children n)"
      using entry(2) sh(3) False by (intro nth_equalityI) simp_all
    moreover have "hd (nd_children n) # tl (nd_children n) = nd_children n" using sh(3) False by (cases "nd_children n") simp_all
    ultimately show ?thesis using f(2-4) f0 False sh(1,3) first unfolding decode_node_def node_readable_def by simp
  qed
  then show "decode_node ?e = n" "node_readable cfg ?e" by simp_all
qed

section \<open>Pages as nodes\<close>

text \<open>
  \<open>nodes_in st cfg F N w\<close>: in the world \<open>w\<close>, whose pages satisfy \<open>st\<close>, the pages of \<open>N\<close> hold these nodes, and the pages of
  \<open>F\<close>, which are others, these payloads.
\<close>

definition pages_hold :: "BPlusTreeConfig \<Rightarrow> (PageId \<rightharpoonup> byte list) \<Rightarrow> (PageId \<rightharpoonup> Node) \<Rightarrow> (PageId \<rightharpoonup> byte list) \<Rightarrow> bool" where
  "pages_hold cfg F N P \<longleftrightarrow> dom F \<inter> dom N = {} \<and> F \<subseteq>\<^sub>m P \<and>
     (\<forall>i n. N i = Some n \<longrightarrow> (\<exists>d. P i = Some d \<and> node_readable cfg d \<and> decode_node d = n))"

definition nodes_in :: "((PageId \<rightharpoonup> byte list) \<Rightarrow> world \<Rightarrow> bool) \<Rightarrow> BPlusTreeConfig \<Rightarrow> (PageId \<rightharpoonup> byte list) \<Rightarrow> (PageId \<rightharpoonup> Node) \<Rightarrow> world \<Rightarrow> bool" where
  "nodes_in st cfg F N w \<longleftrightarrow> capacity_ok cfg \<and> (\<exists>P. st P w \<and> pages_hold cfg F N P)"

lemma pages_hold_node:
  assumes "pages_hold cfg F N P" "F i = None" "node_readable cfg x" "decode_node x = n"
  shows "pages_hold cfg F (N(i \<mapsto> n)) (P(i \<mapsto> x))"
proof -
  have "F \<subseteq>\<^sub>m P(i \<mapsto> x)" using assms(1,2) by (auto simp: pages_hold_def map_le_def)
  moreover have "dom F \<inter> dom (N(i \<mapsto> n)) = {}" using assms(1,2) by (auto simp: pages_hold_def)
  moreover have "\<exists>d. (P(i \<mapsto> x)) j = Some d \<and> node_readable cfg d \<and> decode_node d = m" if "(N(i \<mapsto> n)) j = Some m" for j m
    using that assms by (cases "j = i") (auto simp: pages_hold_def)
  ultimately show ?thesis by (simp add: pages_hold_def)
qed

lemma pages_hold_frame:
  assumes "pages_hold cfg F N P" "N m = None"
  shows "pages_hold cfg (F(m \<mapsto> x)) N (P(m \<mapsto> x))"
proof -
  have "F(m \<mapsto> x) \<subseteq>\<^sub>m P(m \<mapsto> x)" "dom (F(m \<mapsto> x)) \<inter> dom N = {}" using assms by (auto simp: pages_hold_def map_le_def)
  moreover have "\<exists>d. (P(m \<mapsto> x)) j = Some d \<and> node_readable cfg d \<and> decode_node d = n" if "N j = Some n" for j n
    using that assms by (auto simp: pages_hold_def)
  ultimately show ?thesis by (simp add: pages_hold_def)
qed

lemma pages_holdD:
  assumes "pages_hold cfg F N P"
  shows "N i = Some n \<Longrightarrow> \<exists>d. P i = Some d \<and> node_readable cfg d \<and> decode_node d = n" "N i \<noteq> None \<Longrightarrow> F i = None"
    "F i = Some x \<Longrightarrow> P i = Some x \<and> N i = None" "P i = None \<Longrightarrow> N i = None \<and> F i = None"
proof -
  show n: "\<exists>d. P i = Some d \<and> node_readable cfg d \<and> decode_node d = n" if "N i = Some n" for n using assms that by (auto simp: pages_hold_def)
  show "N i \<noteq> None \<Longrightarrow> F i = None" using assms by (auto simp: pages_hold_def)
  show f: "P i = Some x \<and> N i = None" if "F i = Some x" for x
  proof
    show "P i = Some x" using assms that unfolding pages_hold_def map_le_def by (metis domI)
    show "N i = None" using assms that by (cases "N i") (auto simp: pages_hold_def)
  qed
  show "P i = None \<Longrightarrow> N i = None \<and> F i = None" using n f by (cases "N i"; cases "F i") force+
qed

lemma nodes_in_disjoint: "nodes_in st cfg F N w \<Longrightarrow> N i \<noteq> None \<Longrightarrow> F i = None"
  by (auto simp: nodes_in_def dest: pages_holdD(2))

definition meta_bytes :: "PageId \<Rightarrow> BPlusTreeConfig \<Rightarrow> byte list" where
  "meta_bytes root cfg = metadata_image root cfg (replicate kPagePayloadSize 0)"

lemma metadata_image_eq: "length d = kPagePayloadSize \<Longrightarrow> metadata_image root cfg d = meta_bytes root cfg"
  by (simp add: metadata_image_def meta_bytes_def)

lemma meta_bytes_fields:
  "length (meta_bytes root cfg) = kPagePayloadSize" "take 8 (meta_bytes root cfg) = kMetadataMagic" "get64_at 8 (meta_bytes root cfg) = root"
  "get16_at 16 (meta_bytes root cfg) = leaf_max_keys cfg" "get16_at 18 (meta_bytes root cfg) = internal_max_keys cfg"
proof -
  have z: "length (replicate kPagePayloadSize (0 :: byte)) = 4064" by (simp add: size_defs)
  have m: "length kMetadataMagic = 8" by (simp add: kMetadataMagic_def)
  show "length (meta_bytes root cfg) = kPagePayloadSize" "take 8 (meta_bytes root cfg) = kMetadataMagic" "get64_at 8 (meta_bytes root cfg) = root"
    "get16_at 16 (meta_bytes root cfg) = leaf_max_keys cfg" "get16_at 18 (meta_bytes root cfg) = internal_max_keys cfg"
    using z m by (simp_all add: meta_bytes_def metadata_image_def page_fields)
qed

context page_reader
begin

lemma nodes_valid: "nodes_in st cfg F N w \<Longrightarrow> N i = Some n \<Longrightarrow> is_valid i"
  using valid_law by (fastforce simp: nodes_in_def dest: pages_holdD(1))

lemma read_node_then:
  assumes "nodes_in st cfg F N w" "N i = Some n" "bt_config t = cfg"
    and "\<And>w'. nodes_in st cfg F N w' \<Longrightarrow> wp (k n) Q E w'"
    and "\<And>e w'. lenient \<Longrightarrow> nodes_in st cfg F N w' \<Longrightarrow> E e w'"
  shows "wp (bindE (read_node t i) k) Q E w"
proof -
  obtain P where P: "st P w" "pages_hold cfg F N P" "capacity_ok cfg" using assms(1) by (auto simp: nodes_in_def)
  then have in': "nodes_in st cfg F N w'" if "st P w'" for w' using that by (auto simp: nodes_in_def)
  obtain d where d: "P i = Some d" "node_readable cfg d" "decode_node d = n" using pages_holdD(1) [OF P(2) assms(2)] by blast
  have "wp (read_node t i) (\<lambda>x w'. x = n \<and> st P w') (\<lambda>_ w'. lenient \<and> st P w') w"
    unfolding read_node_def
  proof (rule fetch_then [OF P(1) d(1)], goal_cases)
    case (1 f w1)
    then show ?case
      using d(2,3) assms(3) by (simp add: wp_bindE [of "gets _"] wp_gets) (erule unpin_then, simp add: wp_bindE wp_require wp_ret)
  qed (simp_all add: wp_throw)
  then show ?thesis unfolding wp_bindE by (rule wp_mono) (use assms(4,5) in' in auto)
qed

end

context page_writer
begin

text \<open>Writing a payload that holds a node.\<close>

lemma write_payload_node:
  assumes "st P w" "P i = Some d" "pages_hold cfg F N P" "F i = None" "node_shape cfg n" "capacity_ok cfg"
  shows "wp (bindE (on_pool (fetch_page i)) (\<lambda>r. case r of None \<Rightarrow> throw err | Some f \<Rightarrow>
      bindE (change_payload mode i f (encode_node n)) (\<lambda>_. bindE (on_pool (unpin_page i True)) (\<lambda>_. ret ()))))
    (\<lambda>_ w'. nodes_in st cfg F (N(i \<mapsto> n)) w') (\<lambda>_ _. lenient) w"
proof -
  note e = decode_encode_node [OF assms(5,6) length_law [OF assms(1,2)]]
  have in': "nodes_in st cfg F (N(i \<mapsto> n)) w'" if "st (P(i \<mapsto> encode_node n d)) w'" for w'
    using that pages_hold_node [OF assms(3,4) e(2,1)] assms(6) unfolding nodes_in_def by blast
  show ?thesis
  proof (rule fetch_update [OF assms(1,2)], goal_cases)
    case (1 f w1)
    show ?case
      unfolding option.case
      by (rule change_then [where g = "encode_node n" and k = "\<lambda>_ _. ret ()" and P = P, OF 1(1) assms(2) e(3)]) (simp_all add: wp_ret in')
  qed (simp_all add: wp_throw)
qed

lemma write_node_then:
  assumes "nodes_in st cfg F N w" "N i = Some old" "node_shape cfg n" "bt_config t = cfg"
    and "\<And>w'. nodes_in st cfg F (N(i \<mapsto> n)) w' \<Longrightarrow> wp (k ()) Q E w'"
    and "\<And>e w'. lenient \<Longrightarrow> E e w'"
  shows "wp (bindE (write_node mode t i n) k) Q E w"
proof -
  obtain P where P: "st P w" "pages_hold cfg F N P" "capacity_ok cfg" using assms(1) by (auto simp: nodes_in_def)
  obtain d where d: "P i = Some d" "F i = None" using pages_holdD(1,2) [OF P(2)] assms(2) by fastforce
  have "node_writable cfg n" using assms(3) by (simp add: node_shape_def)
  then have "wp (write_node mode t i n) (\<lambda>_ w'. nodes_in st cfg F (N(i \<mapsto> n)) w') (\<lambda>_ _. lenient) w"
    unfolding write_node_def wp_bindE [of "require _ _"] wp_require assms(4)
    using write_payload_node [OF P(1) d(1) P(2) d(2) assms(3) P(3)] by simp
  then show ?thesis unfolding wp_bindE by (rule wp_mono) (use assms(5,6) in auto)
qed

lemma allocate_node_then:
  assumes "nodes_in st cfg F N w" "node_shape cfg n" "bt_config t = cfg"
    and "\<And>i w'. N i = None \<Longrightarrow> F i = None \<Longrightarrow> is_valid i \<Longrightarrow> nodes_in st cfg F (N(i \<mapsto> n)) w' \<Longrightarrow> wp (k i) Q E w'"
    and "\<And>e w'. lenient \<or> exhausted w' \<Longrightarrow> E e w'"
  shows "wp (bindE (allocate_node mode t n) k) Q E w"
proof -
  obtain P where P: "st P w" "pages_hold cfg F N P" "capacity_ok cfg" using assms(1) by (auto simp: nodes_in_def)
  let ?z = "replicate kPagePayloadSize (0 :: byte)"
  have wr: "node_writable cfg n" using assms(2) by (simp add: node_shape_def)
  have "wp (allocate_node mode t n) (\<lambda>i w'. N i = None \<and> F i = None \<and> is_valid i \<and> nodes_in st cfg F (N(i \<mapsto> n)) w') (\<lambda>_ w'. lenient \<or> exhausted w') w"
    unfolding allocate_node_def
  proof (rule allocate_then [OF P(1)], goal_cases)
    case (1 i w1)
    have none: "N i = None" "F i = None" using pages_holdD(4) [OF P(2) 1(1)] by simp_all
    have "F \<subseteq>\<^sub>m P(i \<mapsto> ?z)" using P(2) none by (auto simp: pages_hold_def map_le_def)
    moreover have "j \<noteq> i" if "N j = Some m" for j m using that none by auto
    ultimately have hold: "pages_hold cfg F N (P(i \<mapsto> ?z))" using P(2) by (auto simp: pages_hold_def)
    have "wp (write_node mode t i n) (\<lambda>_ w'. nodes_in st cfg F (N(i \<mapsto> n)) w') (\<lambda>_ _. lenient) w1"
      unfolding write_node_def wp_bindE [of "require _ _"] wp_require assms(3)
      using write_payload_node [OF 1(3) _ hold none(2) assms(2) P(3)] wr by simp
    then show ?case unfolding wp_bindE wp_ret by (rule wp_mono) (use none 1(2) in auto)
  qed
  then show ?thesis unfolding wp_bindE by (rule wp_mono) (use assms(4,5) in auto)
qed

lemma write_meta_then:
  assumes "nodes_in st cfg F N w" "F (bt_meta t) = Some x" "bt_config t = cfg"
    and "\<And>w'. nodes_in st cfg (F(bt_meta t \<mapsto> meta_bytes (bt_root t) cfg)) N w' \<Longrightarrow> Q () w'"
    and "\<And>e w'. lenient \<Longrightarrow> E e w'"
  shows "wp (write_tree_metadata mode t) Q E w"
proof -
  let ?m = "bt_meta t" and ?b = "meta_bytes (bt_root t) cfg"
  obtain P where P: "st P w" "pages_hold cfg F N P" "capacity_ok cfg" using assms(1) by (auto simp: nodes_in_def)
  have d: "P ?m = Some x" "N ?m = None" using pages_holdD(3) [OF P(2) assms(2)] by simp_all
  have img: "metadata_image (bt_root t) (bt_config t) x = ?b" using metadata_image_eq [OF length_law [OF P(1) d(1)]] assms(3) by simp
  have in': "nodes_in st cfg (F(?m \<mapsto> ?b)) N w'" if "st (P(?m \<mapsto> ?b)) w'" for w'
    using that pages_hold_frame [OF P(2) d(2), of ?b] P(3) unfolding nodes_in_def by blast
  show ?thesis
    unfolding write_tree_metadata_def
  proof (rule fetch_update [OF P(1) d(1)], goal_cases)
    case (1 f w1)
    show ?case
      unfolding option.case
      by (rule change_then [where g = "metadata_image (bt_root t) (bt_config t)" and k = "\<lambda>_ _. ret ()" and P = P, OF 1(1) d(1)])
        (simp_all add: wp_ret img meta_bytes_fields(1) assms(4,5) in')
  qed (auto simp: wp_throw intro: assms(5))
qed

end

end
