(* ===== verification/TreeProperties.thy ===== *)
theory TreeProperties
  imports TreeNodes
begin

text \<open>
  Properties of the B+ tree.
\<close>

text \<open>C40: A node of the B+ tree that its configuration allows, written over the payload of any page and read back, is the same
  node, whatever the payload was before; the page is accepted by the reader and keeps its size.\<close>

theorem node_round_trip:
  assumes "capacity_ok cfg" "node_writable cfg n" "if nd_leaf n then nd_children n = [] else nd_values n = []" "length d = kPagePayloadSize"
  shows "decode_node (encode_node n d) = n \<and> node_readable cfg (encode_node n d) \<and> length (encode_node n d) = kPagePayloadSize"
  using decode_encode_node [of cfg n d] assms by (simp add: node_shape_def)

definition example_config :: BPlusTreeConfig where
  "example_config = \<lparr>leaf_max_keys = 3, internal_max_keys = 3\<rparr>"

definition example_inner :: Node where
  "example_inner = \<lparr>nd_leaf = False, nd_parent = kInvalidValue, nd_next = kInvalidValue, nd_keys = [5, 9], nd_values = [], nd_children = [2, 3, 7]\<rparr>"

theorem node_round_trip_witness:
  "decode_node (encode_node example_inner (replicate kPagePayloadSize 1)) = example_inner"
  using node_round_trip [of example_config example_inner "replicate kPagePayloadSize 1"]
  by (simp add: capacity_ok_def example_config_def example_inner_def node_writable_def max_keys_def kNodeHeaderSize_def
      kLeafEntrySize_def kInternalEntrySize_def size_defs)

end
