(* ===== verification/Executor.thy ===== *)
theory Executor
  imports TableHeap BPlusTree
begin

text \<open>
  Query plans and their executors (\<^verbatim>\<open>src/include/ddb/execution/executor.h\<close>). An executor is its own state: \<open>init\<close> and \<open>next\<close>
  return the executor they leave behind. \<open>next\<close> of a filter and the loops that drain an executor take a number of steps;
  \<open>Diverges\<close> means that it was not enough. \<^verbatim>\<open>std::stable_sort\<close> is an insertion sort that is stable and calls the
  same comparison. The arithmetic of doubles, which SUM and AVG use, is a parameter.
\<close>

section \<open>Plans\<close>

datatype Op = Eq | Ne | Lt | Le | Gt | Ge

record Predicate =
  pr_column :: nat
  pr_op :: Op
  pr_value :: Value

record SortKey =
  sk_column :: nat
  sk_ascending :: bool

datatype AggregateKind = Count | Sum | Min | Max | Avg

record AggregateSpec =
  ag_kind :: AggregateKind
  ag_column :: "nat option"

datatype Plan =
    SeqScanPlan table_heap string
  | IndexScanPlan table_heap btree KeyType
  | FilterPlan Plan Predicate
  | ProjectionPlan Plan "nat list"
  | SortPlan Plan "SortKey list"
  | AggregatePlan Plan "AggregateSpec list" "nat list"
  | JoinPlan Plan Plan nat nat

text \<open>Vectors: \<^verbatim>\<open>at\<close> throws out of range, \<^verbatim>\<open>operator[]\<close> is undefined there.\<close>

definition at_checked :: "'a list \<Rightarrow> nat \<Rightarrow> error + 'a" where
  "at_checked xs k = (if k < length xs then Inr (xs ! k) else Inl OutOfRange)"

definition at_unchecked :: "'a list \<Rightarrow> nat \<Rightarrow> error + 'a" where
  "at_unchecked xs k = (if k < length xs then Inr (xs ! k) else Inl Undefined_behaviour)"

definition and_then :: "error + 'a \<Rightarrow> ('a \<Rightarrow> error + 'b) \<Rightarrow> error + 'b" where
  "and_then r f = (case r of Inl e \<Rightarrow> Inl e | Inr x \<Rightarrow> f x)"

fun map_result :: "('a \<Rightarrow> error + 'b) \<Rightarrow> 'a list \<Rightarrow> error + 'b list" where
  "map_result f [] = Inr []"
| "map_result f (x # xs) = and_then (f x) (\<lambda>y. and_then (map_result f xs) (\<lambda>ys. Inr (y # ys)))"

definition matches :: "Predicate \<Rightarrow> Tuple \<Rightarrow> error + bool" where
  "matches p t =
     and_then (at_checked t (pr_column p)) (\<lambda>v.
     and_then (compare_values v (pr_value p)) (\<lambda>c.
     Inr (case pr_op p of Eq \<Rightarrow> c = 0 | Ne \<Rightarrow> c \<noteq> 0 | Lt \<Rightarrow> c < 0 | Le \<Rightarrow> c \<le> 0 | Gt \<Rightarrow> c > 0 | Ge \<Rightarrow> c \<ge> 0)))"

subsection \<open>Description of a plan\<close>

definition pad :: "nat \<Rightarrow> string" where
  "pad n = replicate n CHR '' ''"

fun opname :: "Op \<Rightarrow> string" where
  "opname Eq = ''=''" | "opname Ne = ''!=''" | "opname Lt = ''<''" | "opname Le = ''<=''" | "opname Gt = ''>''" | "opname Ge = ''>=''"

fun decimal :: "nat \<Rightarrow> string" where
  "decimal n = (if n < 10 then [char_of (48 + n)] else decimal (n div 10) @ [char_of (48 + n mod 10)])"

definition decimal_int :: "int \<Rightarrow> string" where
  "decimal_int i = (if i < 0 then CHR ''-'' # decimal (nat (- i)) else decimal (nat i))"

definition newline :: string where "newline = [char_of (10 :: nat)]"

fun explain :: "nat \<Rightarrow> Plan \<Rightarrow> string" where
  "explain i (SeqScanPlan th label) = pad i @ ''SeqScan['' @ label @ '']''"
| "explain i (IndexScanPlan th t key) = pad i @ ''IndexScan[key = '' @ decimal_int (sint key) @ '']''"
| "explain i (FilterPlan c p) = pad i @ ''Filter[column '' @ decimal (pr_column p) @ '' '' @ opname (pr_op p) @ '']'' @ newline @ explain (i + 2) c"
| "explain i (ProjectionPlan c cols) = pad i @ ''Projection['' @ concat (map (\<lambda>k. decimal k @ '' '') cols) @ '']'' @ newline @ explain (i + 2) c"
| "explain i (SortPlan c keys) = pad i @ ''Sort'' @ newline @ explain (i + 2) c"
| "explain i (AggregatePlan c as gs) = pad i @ ''Aggregate'' @ newline @ explain (i + 2) c"
| "explain i (JoinPlan l r a b) = pad i @ ''NestedLoopJoin'' @ newline @ explain (i + 2) l @ newline @ explain (i + 2) r"

section \<open>Work on materialized rows\<close>

text \<open>The comparison of a sort.\<close>

fun row_less :: "SortKey list \<Rightarrow> Tuple \<Rightarrow> Tuple \<Rightarrow> error + bool" where
  "row_less [] a b = Inr False"
| "row_less (k # ks) a b =
     and_then (at_checked a (sk_column k)) (\<lambda>x.
     and_then (at_checked b (sk_column k)) (\<lambda>y.
     and_then (compare_values x y) (\<lambda>c.
     if c \<noteq> 0 then Inr (if sk_ascending k then c < 0 else c > 0) else row_less ks a b)))"

fun insert_row :: "SortKey list \<Rightarrow> Tuple \<Rightarrow> Tuple list \<Rightarrow> error + Tuple list" where
  "insert_row ks x [] = Inr [x]"
| "insert_row ks x (y # ys) =
     and_then (row_less ks y x) (\<lambda>less.
     if less then and_then (insert_row ks x ys) (\<lambda>zs. Inr (y # zs)) else Inr (x # y # ys))"

fun stable_sort :: "SortKey list \<Rightarrow> Tuple list \<Rightarrow> error + Tuple list" where
  "stable_sort ks [] = Inr []"
| "stable_sort ks (x # xs) = and_then (stable_sort ks xs) (insert_row ks x)"

record double_ops =
  fp_add :: "uint64 \<Rightarrow> uint64 \<Rightarrow> uint64"
  fp_div :: "uint64 \<Rightarrow> uint64 \<Rightarrow> uint64"
  fp_of_int :: "int \<Rightarrow> uint64"

fun same_group :: "nat list \<Rightarrow> Tuple \<Rightarrow> Tuple \<Rightarrow> error + bool" where
  "same_group [] a b = Inr True"
| "same_group (g # gs) a b =
     and_then (at_unchecked a g) (\<lambda>x.
     and_then (at_unchecked b g) (\<lambda>y.
     if value_equal x y then same_group gs a b else Inr False))"

fun add_to_bucket :: "nat list \<Rightarrow> Tuple \<Rightarrow> Tuple list list \<Rightarrow> error + Tuple list list" where
  "add_to_bucket gs x [] = Inr [[x]]"
| "add_to_bucket gs x (b # bs) =
     (case b of
        [] \<Rightarrow> and_then (add_to_bucket gs x bs) (\<lambda>bs'. Inr (b # bs'))
      | y # _ \<Rightarrow>
          and_then (same_group gs y x) (\<lambda>same.
          if same then Inr ((b @ [x]) # bs) else and_then (add_to_bucket gs x bs) (\<lambda>bs'. Inr (b # bs'))))"

fun add_all :: "nat list \<Rightarrow> Tuple list \<Rightarrow> Tuple list list \<Rightarrow> error + Tuple list list" where
  "add_all gs [] bs = Inr bs"
| "add_all gs (x # xs) bs = and_then (add_to_bucket gs x bs) (add_all gs xs)"

definition buckets :: "nat list \<Rightarrow> Tuple list \<Rightarrow> error + Tuple list list" where
  "buckets gs rows = (if gs = [] then Inr [rows] else add_all gs rows [])"

fun best :: "AggregateKind \<Rightarrow> nat \<Rightarrow> Tuple list \<Rightarrow> Value \<Rightarrow> error + Value" where
  "best kind col [] v = Inr v"
| "best kind col (r # rs) v =
     and_then (at_unchecked r col) (\<lambda>x.
     and_then (compare_values x v) (\<lambda>c.
     best kind col rs (if kind = Min \<and> c < 0 \<or> kind = Max \<and> c > 0 then x else v)))"

fun as_double :: "double_ops \<Rightarrow> Value \<Rightarrow> error + uint64" where
  "as_double fp (IntV x) = Inr (fp_of_int fp (sint x))"
| "as_double fp (DoubleV x) = Inr x"
| "as_double fp _ = Inl (InvalidArgument Numeric_required)"

fun sum_column :: "double_ops \<Rightarrow> nat \<Rightarrow> Tuple list \<Rightarrow> uint64 \<Rightarrow> error + uint64" where
  "sum_column fp col [] acc = Inr acc"
| "sum_column fp col (r # rs) acc =
     and_then (at_unchecked r col) (\<lambda>x.
     and_then (as_double fp x) (\<lambda>d.
     sum_column fp col rs (fp_add fp acc d)))"

definition aggregate :: "double_ops \<Rightarrow> Tuple list \<Rightarrow> AggregateSpec \<Rightarrow> error + Value list" where
  "aggregate fp b a =
     (if ag_kind a = Count then Inr [IntV (of_nat (length b))]
      else case b of
        [] \<Rightarrow> Inr []
      | r # _ \<Rightarrow>
          (case ag_column a of
             None \<Rightarrow> Inl Undefined_behaviour
           | Some col \<Rightarrow>
               and_then (at_unchecked r col) (\<lambda>v.
               if ag_kind a = Min \<or> ag_kind a = Max then and_then (best (ag_kind a) col b v) (\<lambda>x. Inr [x])
               else and_then (sum_column fp col b 0) (\<lambda>s.
                 Inr [DoubleV (if ag_kind a = Avg then fp_div fp s (fp_of_int fp (int (length b))) else s)]))))"

definition aggregate_bucket :: "double_ops \<Rightarrow> AggregateSpec list \<Rightarrow> nat list \<Rightarrow> Tuple list \<Rightarrow> error + Tuple" where
  "aggregate_bucket fp as gs b =
     and_then (case b of [] \<Rightarrow> Inr [] | r # _ \<Rightarrow> map_result (at_unchecked r) gs) (\<lambda>group.
     and_then (map_result (aggregate fp b) as) (\<lambda>vs.
     Inr (group @ concat vs)))"

definition aggregate_rows :: "double_ops \<Rightarrow> AggregateSpec list \<Rightarrow> nat list \<Rightarrow> Tuple list \<Rightarrow> error + Tuple list" where
  "aggregate_rows fp as gs rows = and_then (buckets gs rows) (map_result (aggregate_bucket fp as gs))"

fun join_row :: "nat \<Rightarrow> nat \<Rightarrow> Tuple \<Rightarrow> Tuple list \<Rightarrow> error + Tuple list" where
  "join_row a b t [] = Inr []"
| "join_row a b t (r # rs) =
     and_then (at_checked t a) (\<lambda>x.
     and_then (at_checked r b) (\<lambda>y.
     and_then (join_row a b t rs) (\<lambda>out.
     Inr (if value_equal x y then (t @ r) # out else out))))"

section \<open>Executors\<close>

datatype Executor =
    SeqScanExecutor table_heap "(RecordId \<times> Tuple) list" nat
  | IndexScanExecutor table_heap btree KeyType bool
  | FilterExecutor Executor Predicate
  | ProjectionExecutor Executor "nat list"
  | SortExecutor Executor "SortKey list" "Tuple list" nat
  | AggregateExecutor Executor "AggregateSpec list" "nat list" "Tuple list" nat
  | NestedLoopJoinExecutor Executor Executor nat nat "Tuple list" nat

fun make_executor :: "Plan \<Rightarrow> Executor" where
  "make_executor (SeqScanPlan th label) = SeqScanExecutor th [] 0"
| "make_executor (IndexScanPlan th t key) = IndexScanExecutor th t key False"
| "make_executor (FilterPlan c p) = FilterExecutor (make_executor c) p"
| "make_executor (ProjectionPlan c cols) = ProjectionExecutor (make_executor c) cols"
| "make_executor (SortPlan c keys) = SortExecutor (make_executor c) keys [] 0"
| "make_executor (AggregatePlan c as gs) = AggregateExecutor (make_executor c) as gs [] 0"
| "make_executor (JoinPlan l r a b) = NestedLoopJoinExecutor (make_executor l) (make_executor r) a b [] 0"

fun next_row :: "nat \<Rightarrow> Executor \<Rightarrow> (world, Tuple option \<times> Executor) op" where
  "next_row 0 e = throw Diverges"
| "next_row (Suc fuel) (SeqScanExecutor th rows pos) =
     ret (if pos = length rows then (None, SeqScanExecutor th rows pos) else (Some (snd (rows ! pos)), SeqScanExecutor th rows (pos + 1)))"
| "next_row (Suc fuel) (IndexScanExecutor th t key done') =
     (if done' then ret (None, IndexScanExecutor th t key True)
      else
        bindE (get_value fuel t key) (\<lambda>r.
        case r of
          None \<Rightarrow> ret (None, IndexScanExecutor th t key True)
        | Some rid \<Rightarrow> bindE (get_tuple th rid) (\<lambda>row. ret (row, IndexScanExecutor th t key True))))"
| "next_row (Suc fuel) (FilterExecutor c p) =
     bindE (next_row fuel c) (\<lambda>(r, c').
     case r of
       None \<Rightarrow> ret (None, FilterExecutor c' p)
     | Some t \<Rightarrow>
         bindE (lift_result (matches p t)) (\<lambda>m.
         if m then ret (Some t, FilterExecutor c' p) else next_row fuel (FilterExecutor c' p)))"
| "next_row (Suc fuel) (ProjectionExecutor c cols) =
     bindE (next_row fuel c) (\<lambda>(r, c').
     case r of
       None \<Rightarrow> ret (None, ProjectionExecutor c' cols)
     | Some t \<Rightarrow>
         bindE (lift_result (map_result (at_checked t) cols)) (\<lambda>out.
         ret (Some out, ProjectionExecutor c' cols)))"
| "next_row (Suc fuel) (SortExecutor c keys rows pos) =
     ret (if pos = length rows then (None, SortExecutor c keys rows pos) else (Some (rows ! pos), SortExecutor c keys rows (pos + 1)))"
| "next_row (Suc fuel) (AggregateExecutor c as gs rows pos) =
     ret (if pos = length rows then (None, AggregateExecutor c as gs rows pos) else (Some (rows ! pos), AggregateExecutor c as gs rows (pos + 1)))"
| "next_row (Suc fuel) (NestedLoopJoinExecutor l r a b rows pos) =
     ret (if pos = length rows then (None, NestedLoopJoinExecutor l r a b rows pos) else (Some (rows ! pos), NestedLoopJoinExecutor l r a b rows (pos + 1)))"

text \<open>The loop \<^verbatim>\<open>while(child->next(t))\<close>.\<close>

fun drain :: "nat \<Rightarrow> Executor \<Rightarrow> (world, Tuple list \<times> Executor) op" where
  "drain 0 e = throw Diverges"
| "drain (Suc fuel) e =
     bindE (next_row fuel e) (\<lambda>(r, e').
     case r of
       None \<Rightarrow> ret ([], e')
     | Some t \<Rightarrow> bindE (drain fuel e') (\<lambda>(ts, e''). ret (t # ts, e'')))"

fun join_loop :: "nat \<Rightarrow> nat \<Rightarrow> nat \<Rightarrow> Tuple list \<Rightarrow> Executor \<Rightarrow> (world, Tuple list \<times> Executor) op" where
  "join_loop 0 a b rs e = throw Diverges"
| "join_loop (Suc fuel) a b rs e =
     bindE (next_row fuel e) (\<lambda>(r, e').
     case r of
       None \<Rightarrow> ret ([], e')
     | Some t \<Rightarrow>
         bindE (lift_result (join_row a b t rs)) (\<lambda>out.
         bindE (join_loop fuel a b rs e') (\<lambda>(rest, e'').
         ret (out @ rest, e''))))"

fun init_executor :: "double_ops \<Rightarrow> nat \<Rightarrow> Executor \<Rightarrow> (world, Executor) op" where
  "init_executor fp fuel (SeqScanExecutor th rows pos) =
     bindE (scan_table fuel th) (\<lambda>r.
     case r of None \<Rightarrow> throw Diverges | Some rows' \<Rightarrow> ret (SeqScanExecutor th rows' 0))"
| "init_executor fp fuel (IndexScanExecutor th t key done') = ret (IndexScanExecutor th t key False)"
| "init_executor fp fuel (FilterExecutor c p) = bindE (init_executor fp fuel c) (\<lambda>c'. ret (FilterExecutor c' p))"
| "init_executor fp fuel (ProjectionExecutor c cols) = bindE (init_executor fp fuel c) (\<lambda>c'. ret (ProjectionExecutor c' cols))"
| "init_executor fp fuel (SortExecutor c keys rows pos) =
     bindE (init_executor fp fuel c) (\<lambda>c'.
     bindE (drain fuel c') (\<lambda>(ts, c'').
     bindE (lift_result (stable_sort keys ts)) (\<lambda>sorted.
     ret (SortExecutor c'' keys sorted 0))))"
| "init_executor fp fuel (AggregateExecutor c as gs rows pos) =
     bindE (init_executor fp fuel c) (\<lambda>c'.
     bindE (drain fuel c') (\<lambda>(ts, c'').
     bindE (lift_result (aggregate_rows fp as gs ts)) (\<lambda>out.
     ret (AggregateExecutor c'' as gs out 0))))"
| "init_executor fp fuel (NestedLoopJoinExecutor l r a b rows pos) =
     bindE (init_executor fp fuel r) (\<lambda>r'.
     bindE (drain fuel r') (\<lambda>(rs, r'').
     bindE (init_executor fp fuel l) (\<lambda>l'.
     bindE (join_loop fuel a b rs l') (\<lambda>(out, l'').
     ret (NestedLoopJoinExecutor l'' r'' a b out 0)))))"

end
