(* ===== verification/TransactionalAccess.thy ===== *)
theory TransactionalAccess
  imports TableHeap BPlusTree
begin

text \<open>
  Access under locks (\<^verbatim>\<open>src/include/ddb/concurrency/transactional_access.h\<close>): pages, rows and index entries that are
  read or changed after the lock of a page has been taken for the transaction.

  A call that has to wait for its lock is \<open>Blocked\<close>; it is carried on by the same operation with \<open>resumed\<close> set. The mutex
  around the pool is not modelled: a pool operation is one step.
\<close>

datatype 'a access = Blocked | Answered 'a

section \<open>Locks\<close>

definition take_lock :: "bool \<Rightarrow> LockMode \<Rightarrow> PageId \<Rightarrow> (world, lock_outcome) op" where
  "take_lock resumed mode i = (\<lambda>w.
     case (if resumed then lock_resume (tx_id (w_tx w)) i mode (w_locks w)
           else if mode = Shared then lock_shared (tx_id (w_tx w)) i (w_locks w)
           else lock_exclusive (tx_id (w_tx w)) i (w_locks w)) of
       (answer, lk) \<Rightarrow> (Inr answer, w\<lparr>w_locks := lk\<rparr>))"

text \<open>The answer \<open>refused\<close> is given if the lock is refused.\<close>

definition under_lock :: "bool \<Rightarrow> LockMode \<Rightarrow> PageId \<Rightarrow> 'a \<Rightarrow> ('o \<times> world, 'a) op \<Rightarrow> ('o \<times> world, 'a access) op" where
  "under_lock resumed mode i refused body =
     bindE (in_world (take_lock resumed mode i)) (\<lambda>answer.
     case answer of
       Waiting \<Rightarrow> ret Blocked
     | Returned granted \<Rightarrow> if granted then bindE body (\<lambda>x. ret (Answered x)) else ret (Answered refused))"

section \<open>Pages\<close>

record LockedPage =
  lp_id :: PageId
  lp_frame :: FrameId
  lp_dirty :: bool

definition locked_read :: "bool \<Rightarrow> PageId \<Rightarrow> (unit \<times> world, LockedPage option access) op" where
  "locked_read resumed i = under_lock resumed Shared i None
     (bindE (in_world (on_pool (fetch_page i))) (\<lambda>p.
      case p of None \<Rightarrow> throw (RuntimeError Cannot_pin_read_page)
      | Some f \<Rightarrow> ret (Some \<lparr>lp_id = i, lp_frame = f, lp_dirty = False\<rparr>)))"

definition locked_write :: "bool \<Rightarrow> PageId \<Rightarrow> (unit \<times> world, LockedPage option access) op" where
  "locked_write resumed i = under_lock resumed Exclusive i None
     (bindE (in_world (on_pool (fetch_page i))) (\<lambda>p.
      case p of None \<Rightarrow> throw (RuntimeError Cannot_pin_write_page)
      | Some f \<Rightarrow> ret (Some \<lparr>lp_id = i, lp_frame = f, lp_dirty = True\<rparr>)))"

text \<open>The destructor ends the program if the page cannot be unpinned.\<close>

definition drop_page :: "LockedPage \<Rightarrow> (world, unit) op" where
  "drop_page p = bindE (on_pool (unpin_page (lp_id p) (lp_dirty p))) (\<lambda>unpinned. require unpinned Terminates)"

section \<open>Rows\<close>

definition locked_get :: "bool \<Rightarrow> RecordId \<Rightarrow> (table_heap \<times> world, Tuple option access) op" where
  "locked_get resumed r = under_lock resumed Shared (rid_page r) None (bindE (gets fst) (\<lambda>th. in_world (get_tuple th r)))"

definition locked_insert :: "bool \<Rightarrow> Tuple \<Rightarrow> (table_heap \<times> world, RecordId option access) op" where
  "locked_insert resumed t = bindE (gets fst) (\<lambda>th. under_lock resumed Exclusive (th_meta th) None (insert_tuple InTransaction t))"

definition locked_erase :: "bool \<Rightarrow> RecordId \<Rightarrow> (table_heap \<times> world, bool access) op" where
  "locked_erase resumed r = under_lock resumed Exclusive (rid_page r) False (in_world (erase_tuple InTransaction r))"

section \<open>Index entries\<close>

definition locked_get_value :: "nat \<Rightarrow> bool \<Rightarrow> KeyType \<Rightarrow> (btree \<times> world, RecordId option access) op" where
  "locked_get_value fuel resumed key =
     bindE (gets fst) (\<lambda>t. under_lock resumed Shared (bt_meta t) None (on_tree (\<lambda>t. get_value fuel t key)))"

definition locked_tree_insert :: "nat \<Rightarrow> bool \<Rightarrow> KeyType \<Rightarrow> RecordId \<Rightarrow> (btree \<times> world, bool access) op" where
  "locked_tree_insert fuel resumed key value =
     bindE (gets fst) (\<lambda>t. under_lock resumed Exclusive (bt_meta t) False (tree_insert fuel InTransaction key value))"

definition locked_tree_remove :: "nat \<Rightarrow> bool \<Rightarrow> KeyType \<Rightarrow> (btree \<times> world, bool access) op" where
  "locked_tree_remove fuel resumed key =
     bindE (gets fst) (\<lambda>t. under_lock resumed Exclusive (bt_meta t) False (tree_remove fuel InTransaction key))"

end
