(* ===== verification/OpenDatabase.thy ===== *)
theory OpenDatabase
  imports RecoveryAnalysis Transaction
begin

text \<open>
  Opening a database (\<^verbatim>\<open>src/src/database.cpp\<close>): the log first, then the page file, the pool and the transactions.

  A \<^verbatim>\<open>DatabaseLifecycle\<close> is supplied by the caller, so it is a parameter: what its \<^verbatim>\<open>open_wal\<close> does to the
  file of the log, what its \<^verbatim>\<open>recover\<close> does to the page manager, and its provider of durability. The default one does nothing.
\<close>

record DatabaseLifecycle =
  lc_open_wal :: "(fstream, unit) op"
  lc_recover :: "(page_manager, unit) op"
  lc_provider :: "uint64 option"

definition no_lifecycle :: DatabaseLifecycle where
  "no_lifecycle = \<lparr>lc_open_wal = ret (), lc_recover = ret (), lc_provider = None\<rparr>"

record Database =
  db_log_manager :: log_manager
  db_buffer_pool :: pool
  db_transaction_manager :: transaction_manager

text \<open>\<open>wal\<close> and \<open>file\<close> are the contents of the two files, or nothing if they do not exist. The pool owns the page manager.\<close>

definition open_database ::
  "wal_fault option \<Rightarrow> fs_fault option \<Rightarrow> byte list option \<Rightarrow> byte list option \<Rightarrow> io_event list \<Rightarrow> io_event list \<Rightarrow> nat
   \<Rightarrow> DatabaseLifecycle option \<Rightarrow> error + Database" where
  "open_database wal_fault fs_fault wal file wal_outs outs cap lifecycle =
     (case open_log_manager wal_fault wal wal_outs of
        (Inl e, _) \<Rightarrow> Inl e
      | (Inr _, lm) \<Rightarrow>
          (case (case lifecycle of None \<Rightarrow> ret () | Some lc \<Rightarrow> zoom lm_file (\<lambda>fs lm. lm\<lparr>lm_file := fs\<rparr>) (lc_open_wal lc)) lm of
             (Inl e, _) \<Rightarrow> Inl e
           | (Inr _, lm1) \<Rightarrow>
               (case open_page_manager fs_fault file outs of
                  (Inl e, _) \<Rightarrow> Inl e
                | (Inr _, pm) \<Rightarrow>
                    (case (case lifecycle of None \<Rightarrow> ret () | Some lc \<Rightarrow> lc_recover lc) pm of
                       (Inl e, _) \<Rightarrow> Inl e
                     | (Inr _, pm1) \<Rightarrow>
                         Inr \<lparr>db_log_manager = lm1,
                              db_buffer_pool = new_pool pm1 cap
                                (case lifecycle of None \<Rightarrow> Some (lm_durable_lsn lm1) | Some lc \<Rightarrow> lc_provider lc),
                              db_transaction_manager = new_transaction_manager True\<rparr>))))"

definition analyze_wal :: "bool \<Rightarrow> byte list option \<Rightarrow> error + recovery_state" where
  "analyze_wal no_size wal = analyze no_size wal"

end
