(* ===== verification/Spec2Isabelle.thy ===== *)
theory Spec2Isabelle
  imports RecoveryProperties TableProperties TreeProperties Executor TransactionalAccess OpenDatabase
begin

text \<open>
  A verification of the database engine under \<^verbatim>\<open>src/\<close>.

  \<^bold>\<open>The program.\<close> A database is a page file and a log file. From the bottom up:

  \<^item> \<^verbatim>\<open>PageManager\<close> keeps fixed pages in the page file, behind a catalog of allocated pages;
  \<^item> \<^verbatim>\<open>LogManager\<close> appends checksummed records to the write-ahead log and makes them durable;
  \<^item> \<^verbatim>\<open>BufferPoolManager\<close> caches pages in frames, evicts unpinned ones in LRU order and writes a page only when the log allows it;
  \<^item> \<^verbatim>\<open>MutationContext\<close> captures the images of a page around a change, \<^verbatim>\<open>Transaction\<close> collects and logs them, and
    \<^verbatim>\<open>TransactionCoordinator\<close> commits or rolls back; \<^verbatim>\<open>LockManager\<close> gives locks under WAIT-DIE;
  \<^item> \<^verbatim>\<open>RecoveryAnalyzer\<close>, \<^verbatim>\<open>RedoEngine\<close> and \<^verbatim>\<open>UndoEngine\<close> bring the pages to the committed state after a crash, through
    \<^verbatim>\<open>ReplayContext\<close>;
  \<^item> \<^verbatim>\<open>TableHeap\<close> stores rows in chains of slotted pages and \<^verbatim>\<open>BPlusTree\<close> maps keys to addresses of rows, both over the pool
    and, inside a transaction, over its mutation context;
  \<^item> \<^verbatim>\<open>Plan\<close> and \<^verbatim>\<open>Executor\<close> evaluate queries over tables and trees, the wrappers of \<^verbatim>\<open>transactional_access.h\<close> take locks
    first, and \<^verbatim>\<open>Database\<close> opens everything.

  \<^bold>\<open>The model.\<close> A C++ method that changes an object and may throw is a function from the state to a result or an error, with
  the state in which it stopped (\<open>op\<close> in \<open>Prelude\<close>): a throw keeps the changes made before it. Integers are words of
  their width. References between objects are fields: the pool holds the page manager, a \<open>world\<close> holds the pool, the
  log, the locks, one transaction and its capture context, and an operation of a table or a tree that changes the object works
  on the object together with the world. Files are byte lists with outcomes of the coming transfers, so a transfer may stop
  at any byte (\<open>Streams\<close>).

  \<^bold>\<open>Theories and sources.\<close>

  \<^item> \<open>Prelude\<close>, \<open>Bytes\<close>, \<open>Streams\<close>, \<open>PageFields\<close>: machine types, exceptions, the weakest preconditions \<open>wp\<close>,
    the little-endian codecs (\<^verbatim>\<open>put_u64\<close> and its relatives), file streams.
  \<^item> \<open>PageManager\<close>, \<open>PageStore\<close>, \<open>PageHistory\<close>: \<^verbatim>\<open>src/src/storage/page_manager.cpp\<close>. The invariant of the manager under
    faults, the contract \<open>page_store\<close>, and the histories of a file with reopening.
  \<^item> \<open>WalRecords\<close>, \<open>WalScan\<close>, \<open>LogManager\<close>, \<open>LogHistory\<close>: \<^verbatim>\<open>src/src/storage/log_manager.cpp\<close>. Round trips,
    detection of damage, torn tails, and what is durable in every history; the logged allocation of a page.
  \<^item> \<open>BufferPool\<close>, \<open>PoolInvariant\<close>, \<open>PoolOps\<close>, \<open>PoolFlush\<close>, \<open>PoolProperties\<close>, \<open>PageCache\<close>, \<open>Residents\<close>,
    \<open>Undisturbed\<close>: \<^verbatim>\<open>src/src/buffer/buffer_pool_manager.cpp\<close>. The invariant, the pool as a map from numbers to pages, the
    write-ahead rule, pinned pages, and the locale of a page cache that the clients use.
  \<^item> \<open>Mutation\<close>, \<open>Transaction\<close>, \<open>TransactionHistory\<close>, \<open>TransactionProperties\<close>: \<^verbatim>\<open>physical_mutation.cpp\<close>,
    \<^verbatim>\<open>transaction.cpp\<close>, \<^verbatim>\<open>transaction_coordinator.cpp\<close>. Rollback, commit and abort.
  \<^item> \<open>LockManager\<close>, \<open>LockHistory\<close>: \<^verbatim>\<open>lock_manager.cpp\<close>. Exclusion, outcomes of requests, serializability of two-phase
    histories by an abstract locale that is interpreted on the lock manager.
  \<^item> \<open>RecoveryAnalysis\<close>, \<open>Replay\<close>, \<open>RecoveryEngines\<close>, \<open>RecoveryPasses\<close>, \<open>RecoveryReturns\<close>,
    \<open>RecoveryProperties\<close>: the files of \<^verbatim>\<open>src/src/recovery\<close>. Classification of transactions, the effect of both passes on the
    pages, and that they return.
  \<^item> \<open>PageAccess\<close>, \<open>PageReads\<close>, \<open>PageWrites\<close>: how tables and trees use pages, with the interfaces \<open>page_reader\<close>
    and \<open>page_writer\<close>, each interpreted on any world in order (operations may throw) and on a quiet world (they return).
  \<^item> \<open>Tuple\<close>, \<open>TableHeap\<close>, \<open>TablePages\<close>, \<open>TableSpec\<close>, \<open>TableUpdates\<close>, \<open>TableProperties\<close>:
    \<^verbatim>\<open>tuple.h\<close>, \<^verbatim>\<open>table_heap.cpp\<close>. A table is refined to a list of rows.
  \<^item> \<open>BPlusTree\<close>, \<open>TreeNodes\<close>, \<open>TreeProperties\<close>: \<^verbatim>\<open>bplus_tree.cpp\<close>.
  \<^item> \<open>Executor\<close>: \<^verbatim>\<open>executor.h\<close>; \<open>TransactionalAccess\<close>: \<^verbatim>\<open>transactional_access.h\<close>; \<open>OpenDatabase\<close>: \<^verbatim>\<open>database.cpp\<close>.

  \<^bold>\<open>Steps.\<close> Loops over a vector are structural recursion. The walks along chains of pages, down and up a tree and
  the loops of the executors need not end on arbitrary pages, so they take a number of steps. A table scan that ran out answers
  \<open>None\<close>; the others throw the marker \<open>Diverges\<close>. For tables in order as many steps as there are data
  pages are enough, which is part of the liveness property.

  \<^bold>\<open>Not modelled.\<close> Threads are modelled only where the code gives a mutex up (the wait of \<^verbatim>\<open>LockManager::lock\<close>); every other
  method is one step. Durations in metrics and the Windows branch of \<^verbatim>\<open>LogManager::flush\<close> are left out. Arithmetic of doubles in aggregates is a
  parameter; their order is modelled on bit patterns. There is one pool per world, so the check that a transaction does not span
  two pools cannot fail. Benchmarks and tests are not part of the program.
\<close>

end
